(* ===== verification/Prelude.thy ===== *)
theory Prelude
  imports Main "HOL-Library.Word" "HOL-Library.List_Lexorder"
begin

text \<open>
  Shared vocabulary of the development: the error-or-result type of code that may throw or
  abort, with sequencing and a small partial-correctness calculus over it; the ordered
  containers of the C++ standard library (\<^verbatim>\<open>std::set\<close> and \<^verbatim>\<open>std::map\<close>) as strictly
  sorted lists; names for the machine-integer and byte-string types.
\<close>

section \<open>Machine types\<close>

type_synonym uint8 = "8 word"
type_synonym uint32 = "32 word"
type_synonym uint64 = "64 word"
type_synonym uint128 = "128 word"
type_synonym uint256 = "256 word"

text \<open>XDR \<^verbatim>\<open>opaque<>\<close>: a byte vector, ordered lexicographically as
  \<^verbatim>\<open>std::vector<uint8_t>\<close> is.\<close>

type_synonym opaque = "uint8 list"

abbreviation UINT32_MAX :: uint32 where
  "UINT32_MAX \<equiv> - 1"

abbreviation UINT64_MAX :: uint64 where
  "UINT64_MAX \<equiv> - 1"

lemma word_less_Suc: "x \<noteq> - 1 \<Longrightarrow> x < x + 1" for x :: "'a::len word"
proof -
  assume "x \<noteq> - 1"
  then have "unat x \<noteq> 2 ^ LENGTH('a) - 1"
    by (metis unsigned_minus_1_eq_mask mask_eq_exp_minus_1 word_unat_eq_iff)
  with unsigned_less [where 'a = nat, of x] have "unat x + 1 < 2 ^ LENGTH('a)" by linarith
  then have "unat (x + 1) = unat x + 1" by (simp add: unat_word_ariths)
  then show ?thesis by (simp add: word_less_nat_alt)
qed

section \<open>Results: an error or a value\<close>

text \<open>\<open>seq r f\<close> runs \<open>f\<close> on the value of \<open>r\<close>; an error of \<open>r\<close> propagates as a C++
  exception does.\<close>

definition seq :: "'e + 'a \<Rightarrow> ('a \<Rightarrow> 'e + 'b) \<Rightarrow> 'e + 'b" where
  "seq r f = (case r of Inl e \<Rightarrow> Inl e | Inr x \<Rightarrow> f x)"

lemma seq_simps [simp]:
  "seq (Inl e) f = Inl e"
  "seq (Inr x) f = f x"
  by (simp_all add: seq_def)

lemma seq_cong [fundef_cong]:
  assumes "r = r'" and "\<And>x. r' = Inr x \<Longrightarrow> f x = f' x"
  shows "seq r f = seq r' f'"
  using assms by (cases r') simp_all

lemma seq_Inr_iff: "seq r f = Inr y \<longleftrightarrow> (\<exists>x. r = Inr x \<and> f x = Inr y)"
  by (cases r) auto

text \<open>\<open>safe E P r\<close>: if \<open>r\<close> is an error, the error is one of \<open>E\<close>; if it is a value, the
  value satisfies \<open>P\<close>.\<close>

definition safe :: "('e \<Rightarrow> bool) \<Rightarrow> ('a \<Rightarrow> bool) \<Rightarrow> 'e + 'a \<Rightarrow> bool" where
  "safe E P r \<longleftrightarrow> (case r of Inl e \<Rightarrow> E e | Inr x \<Rightarrow> P x)"

lemma safe_Inl [simp]: "safe E P (Inl e) = E e"
  by (simp add: safe_def)

lemma safe_Inr [simp]: "safe E P (Inr x) = P x"
  by (simp add: safe_def)

lemma safe_seq:
  assumes "safe E P r" and "\<And>x. P x \<Longrightarrow> safe E Q (f x)"
  shows "safe E Q (seq r f)"
  using assms by (cases r) auto

lemma safe_mono:
  assumes "safe E P r" and "\<And>x. P x \<Longrightarrow> Q x" and "\<And>e. E e \<Longrightarrow> F e"
  shows "safe F Q r"
  using assms by (cases r) auto

lemma safe_post:
  assumes "safe E P r" and "\<And>x. P x \<Longrightarrow> Q x"
  shows "safe E Q r"
  using assms by (rule safe_mono)

lemma safeD_Inr: "safe E P r \<Longrightarrow> r = Inr x \<Longrightarrow> P x"
  by simp

lemma safeD_Inl: "safe E P r \<Longrightarrow> r = Inl e \<Longrightarrow> E e"
  by simp

lemma safe_if:
  assumes "b \<Longrightarrow> safe E P r" and "\<not> b \<Longrightarrow> safe E P r'"
  shows "safe E P (if b then r else r')"
  using assms by simp

lemma safe_option:
  assumes "x = None \<Longrightarrow> safe E P r" and "\<And>y. x = Some y \<Longrightarrow> safe E P (f y)"
  shows "safe E P (case x of None \<Rightarrow> r | Some y \<Rightarrow> f y)"
  using assms by (cases x) auto

text \<open>A loop whose body may fail.\<close>

fun foldSeq :: "('a \<Rightarrow> 's \<Rightarrow> 'e + 's) \<Rightarrow> 'a list \<Rightarrow> 's \<Rightarrow> 'e + 's" where
  "foldSeq f [] s = Inr s"
| "foldSeq f (x # xs) s = seq (f x s) (\<lambda>s'. foldSeq f xs s')"

lemma foldSeq_safe:
  assumes "P s" and "\<And>x s. x \<in> set xs \<Longrightarrow> P s \<Longrightarrow> safe E P (f x s)"
  shows "safe E P (foldSeq f xs s)"
  using assms
proof (induction xs arbitrary: s)
  case (Cons x xs)
  show ?case
    unfolding foldSeq.simps
  proof (rule safe_seq)
    show "safe E P (f x s)" using Cons.prems by simp
    show "safe E P (foldSeq f xs s')" if "P s'" for s' using that Cons.prems by (intro Cons.IH) auto
  qed
qed simp

lemma safe_conj:
  assumes "safe E P r" and "safe F Q r"
  shows "safe (\<lambda>e. E e \<and> F e) (\<lambda>x. P x \<and> Q x) r"
  using assms by (cases r) auto

section \<open>std::set: strictly sorted lists\<close>

abbreviation sset :: "'a::linorder list \<Rightarrow> bool" where
  "sset xs \<equiv> sorted_wrt (<) xs"

fun sset_insert :: "'a::linorder \<Rightarrow> 'a list \<Rightarrow> 'a list" where
  "sset_insert x [] = [x]"
| "sset_insert x (y # ys) =
     (if x < y then x # y # ys else if x = y then y # ys else y # sset_insert x ys)"

definition sset_union :: "'a::linorder list \<Rightarrow> 'a list \<Rightarrow> 'a list" where
  "sset_union xs ys = fold sset_insert xs ys"

lemma set_sset_insert [simp]: "set (sset_insert x xs) = insert x (set xs)"
  by (induction xs) auto

lemma sset_sset_insert [simp]: "sset xs \<Longrightarrow> sset (sset_insert x xs)"
  by (induction xs) auto

lemma set_sset_union [simp]: "set (sset_union xs ys) = set xs \<union> set ys"
  unfolding sset_union_def by (induction xs arbitrary: ys) auto

lemma sset_sset_union [simp]: "sset ys \<Longrightarrow> sset (sset_union xs ys)"
  unfolding sset_union_def by (induction xs arbitrary: ys) auto

lemma sset_insert_absorb: "sset xs \<Longrightarrow> x \<in> set xs \<Longrightarrow> sset_insert x xs = xs"
  by (induction xs) auto

section \<open>std::map: association lists sorted by key\<close>

type_synonym ('k, 'v) smap = "('k \<times> 'v) list"

fun smap_upd :: "'k::linorder \<Rightarrow> 'v \<Rightarrow> ('k, 'v) smap \<Rightarrow> ('k, 'v) smap" where
  "smap_upd k v [] = [(k, v)]"
| "smap_upd k v ((k', v') # m) =
     (if k < k' then (k, v) # (k', v') # m
      else if k = k' then (k, v) # m
      else (k', v') # smap_upd k v m)"

abbreviation smap_ok :: "('k::linorder, 'v) smap \<Rightarrow> bool" where
  "smap_ok m \<equiv> sset (map fst m)"

lemma set_keys_smap_upd [simp]: "fst ` set (smap_upd k v m) = insert k (fst ` set m)"
  by (induction m rule: smap_upd.induct) auto

lemma smap_ok_upd [simp]: "smap_ok m \<Longrightarrow> smap_ok (smap_upd k v m)"
proof (induction m)
  case (Cons p m)
  obtain k' v' where p: "p = (k', v')" by (cases p)
  have keys: "set (map fst (smap_upd k v m)) = insert k (set (map fst m))" for m
    using set_keys_smap_upd [of k v m] by simp
  from Cons p keys [of m] show ?case by auto
qed simp

lemma map_of_smap_upd [simp]: "map_of (smap_upd k v m) = (map_of m)(k \<mapsto> v)"
  if "smap_ok m" for m
  using that
proof (induction m)
  case (Cons p m)
  obtain k' v' where p: "p = (k', v')" by (cases p)
  have None: "map_of m k = None" if "\<forall>x \<in> set (map fst m). k < x"
    using that by (force simp: map_of_eq_None_iff)
  from Cons p None show ?case by (auto simp: fun_eq_iff)
qed simp

lemma smap_distinct: "smap_ok m \<Longrightarrow> distinct (map fst m)"
  by (induction m) auto

lemma smap_mem_iff: "smap_ok m \<Longrightarrow> (k, v) \<in> set m \<longleftrightarrow> map_of m k = Some v"
  by (meson map_of_is_SomeI map_of_SomeD smap_distinct)

end
