(* ===== verification/Scp_Types.thy ===== *)
theory Scp_Types
  imports Prelude
begin

text \<open>
  The data of the consensus code: the XDR messages of \<^verbatim>\<open>src/xdr/Stellar-SCP.x\<close>, the driver
  interface of \<^verbatim>\<open>scp/SCPDriver.h\<close>, the local node, and the state of one slot, i.e. the
  fields of \<^verbatim>\<open>Slot\<close>, \<^verbatim>\<open>NominationProtocol\<close> and \<^verbatim>\<open>BallotProtocol\<close>.

  The XDR union of a statement has four arms.  \<^verbatim>\<open>Slot::processEnvelope\<close> sends the arm
  \<^verbatim>\<open>SCP_ST_NOMINATE\<close> to the nomination protocol and the three others to the ballot protocol,
  and each protocol object only holds statements it was sent; here the three ballot arms are a
  datatype of their own, so the \<^verbatim>\<open>default: dbgAbort()\<close> arms of the ballot code are excluded
  by typing.
\<close>

section \<open>XDR messages\<close>

text \<open>\<^verbatim>\<open>NodeID\<close> is a 32-byte public key and \<^verbatim>\<open>Hash\<close> a 32-byte digest; XDR orders both as
  big-endian numbers.\<close>

type_synonym node_id = uint256
type_synonym hash = uint256
type_synonym scp_value = opaque

datatype scp_ballot = SCPBallot (counter: uint32) (bvalue: scp_value)

text \<open>A default-constructed \<^verbatim>\<open>SCPBallot()\<close> has counter 0 and an empty value.\<close>

definition zero_ballot :: scp_ballot where
  "zero_ballot = SCPBallot 0 []"

text \<open>XDR's \<^verbatim>\<open>operator<\<close> on ballots, the order of \<^verbatim>\<open>std::set<SCPBallot>\<close>: field by field.\<close>

instantiation scp_ballot :: linorder
begin

definition less_eq_scp_ballot :: "scp_ballot \<Rightarrow> scp_ballot \<Rightarrow> bool" where
  "less_eq_scp_ballot a b \<longleftrightarrow>
     counter a < counter b \<or> counter a = counter b \<and> bvalue a \<le> bvalue b"

definition less_scp_ballot :: "scp_ballot \<Rightarrow> scp_ballot \<Rightarrow> bool" where
  "less_scp_ballot a b \<longleftrightarrow>
     counter a < counter b \<or> counter a = counter b \<and> bvalue a < bvalue b"

instance
proof
  fix a b c :: scp_ballot
  show "(a < b) = (a \<le> b \<and> \<not> b \<le> a)"
    by (auto simp: less_eq_scp_ballot_def less_scp_ballot_def)
  show "a \<le> a"
    by (simp add: less_eq_scp_ballot_def)
  show "a \<le> c" if "a \<le> b" "b \<le> c"
    using that by (auto simp: less_eq_scp_ballot_def)
  show "a = b" if "a \<le> b" "b \<le> a"
    using that by (cases a; cases b) (auto simp: less_eq_scp_ballot_def)
  show "a \<le> b \<or> b \<le> a"
    by (auto simp: less_eq_scp_ballot_def)
qed

end

record scp_prepare =
  prep_quorumSetHash :: hash
  prep_ballot :: scp_ballot
  prep_prepared :: "scp_ballot option"
  prep_preparedPrime :: "scp_ballot option"
  prep_nC :: uint32
  prep_nH :: uint32

record scp_confirm =
  conf_ballot :: scp_ballot
  conf_nPrepared :: uint32
  conf_nCommit :: uint32
  conf_nH :: uint32
  conf_quorumSetHash :: hash

record scp_externalize =
  ext_commit :: scp_ballot
  ext_nH :: uint32
  ext_commitQuorumSetHash :: hash

record scp_nomination =
  nom_quorumSetHash :: hash
  nom_votes :: "scp_value list"
  nom_accepted :: "scp_value list"

datatype ballot_pledges =
  PREPARE scp_prepare | CONFIRM scp_confirm | EXTERNALIZE scp_externalize

datatype scp_pledges = BALLOT ballot_pledges | NOMINATE scp_nomination

record 'p statement_of =
  st_nodeID :: node_id
  st_slotIndex :: uint64
  st_pledges :: 'p

record 'p envelope_of =
  env_statement :: "'p statement_of"
  env_signature :: opaque

type_synonym scp_statement = "scp_pledges statement_of"
type_synonym ballot_statement = "ballot_pledges statement_of"
type_synonym nomination_statement = "scp_nomination statement_of"
type_synonym scp_envelope = "scp_pledges envelope_of"
type_synonym ballot_envelope = "ballot_pledges envelope_of"
type_synonym nomination_envelope = "scp_nomination envelope_of"

definition map_statement :: "('p \<Rightarrow> 'q) \<Rightarrow> 'p statement_of \<Rightarrow> 'q statement_of" where
  "map_statement f st =
     \<lparr>st_nodeID = st_nodeID st, st_slotIndex = st_slotIndex st, st_pledges = f (st_pledges st)\<rparr>"

definition map_envelope :: "('p \<Rightarrow> 'q) \<Rightarrow> 'p envelope_of \<Rightarrow> 'q envelope_of" where
  "map_envelope f e =
     \<lparr>env_statement = map_statement f (env_statement e), env_signature = env_signature e\<rparr>"

lemma map_statement_simps [simp]:
  "st_nodeID (map_statement f st) = st_nodeID st"
  "st_slotIndex (map_statement f st) = st_slotIndex st"
  "st_pledges (map_statement f st) = f (st_pledges st)"
  by (simp_all add: map_statement_def)

lemma map_envelope_simps [simp]:
  "env_statement (map_envelope f e) = map_statement f (env_statement e)"
  "env_signature (map_envelope f e) = env_signature e"
  by (simp_all add: map_envelope_def)

lemma map_statement_inj: "inj f \<Longrightarrow> map_statement f st = map_statement f st' \<longleftrightarrow> st = st'"
  by (cases st; cases st') (auto simp: map_statement_def inj_def)

datatype scp_quorum_set =
  SCPQuorumSet (threshold: uint32) (validators: "node_id list")
    (innerSets: "scp_quorum_set list")

section \<open>The driver interface\<close>

text \<open>\<^verbatim>\<open>SCPDriver::ValidationLevel\<close>, ordered by its numeric values.\<close>

datatype validation_level = kInvalidValue | kMaybeValidValue | kFullyValidatedValue

fun level_num :: "validation_level \<Rightarrow> nat" where
  "level_num kInvalidValue = 0"
| "level_num kMaybeValidValue = 1"
| "level_num kFullyValidatedValue = 2"

definition level_min :: "validation_level \<Rightarrow> validation_level \<Rightarrow> validation_level" where
  "level_min a b = (if level_num b < level_num a then b else a)"

text \<open>
  The virtual methods of \<^verbatim>\<open>SCPDriver\<close> that return something to the protocol code are
  parameters of the model.  Pointers that may be null are options.  \<open>signEnvelope\<close> gives the
  signature the method stores in the envelope.
\<close>

record driver =
  signEnvelope :: "scp_statement \<Rightarrow> opaque"
  getQSet :: "hash \<Rightarrow> scp_quorum_set option"
  validateValue :: "uint64 \<Rightarrow> scp_value \<Rightarrow> bool \<Rightarrow> validation_level"
  extractValidValue :: "uint64 \<Rightarrow> scp_value \<Rightarrow> scp_value option"
  combineCandidates :: "uint64 \<Rightarrow> scp_value list \<Rightarrow> scp_value option"
  computeHashNode :: "uint64 \<Rightarrow> scp_value \<Rightarrow> bool \<Rightarrow> uint32 \<Rightarrow> node_id \<Rightarrow> uint64"
  computeValueHash :: "uint64 \<Rightarrow> scp_value \<Rightarrow> uint32 \<Rightarrow> scp_value \<Rightarrow> uint64"
  computeTimeout :: "uint32 \<Rightarrow> nat"

text \<open>The virtual methods that only receive something (\<^verbatim>\<open>emitEnvelope\<close>, \<^verbatim>\<open>setupTimer\<close>, the
  monitoring hooks) are recorded as events, in call order.\<close>

datatype timer_id = NOMINATION_TIMER | BALLOT_PROTOCOL_TIMER

datatype driver_event =
    EmitEnvelope scp_envelope
  | SetupTimer timer_id nat
  | CancelTimer timer_id
  | ValueExternalized uint64 scp_value
  | NominatingValue uint64 scp_value
  | UpdatedCandidateValue uint64 scp_value
  | StartedBallotProtocol uint64 scp_ballot
  | AcceptedBallotPrepared uint64 scp_ballot
  | ConfirmedBallotPrepared uint64 scp_ballot
  | AcceptedCommit uint64 scp_ballot
  | BallotDidHearFromQuorum uint64 scp_ballot

section \<open>Local node and slot state\<close>

record local_node =
  mNodeID :: node_id
  mIsValidator :: bool
  mQSet :: scp_quorum_set
  mQSetHash :: hash
  gSingleQSetHash :: hash
  mSingleQSet :: scp_quorum_set

record scp_ctx =
  ctx_driver :: driver
  ctx_local :: local_node

datatype scp_phase = SCP_PHASE_PREPARE | SCP_PHASE_CONFIRM | SCP_PHASE_EXTERNALIZE

text \<open>Fields of \<^verbatim>\<open>Slot\<close>.  The time stamp of a historical statement (debugging output only) is
  left out; \<open>mEvents\<close> is the log of driver calls, newest first.\<close>

record slot_base =
  mSlotIndex :: uint64
  mStatementsHistory :: "(scp_statement \<times> bool) list"
  mFullyValidated :: bool
  mGotVBlocking :: bool
  mEvents :: "driver_event list"

text \<open>Fields of \<^verbatim>\<open>NominationProtocol\<close>.  The round number is an \<^verbatim>\<open>int32\<close>, kept as its 32-bit
  pattern.\<close>

record nomination_protocol = slot_base +
  mRoundNumber :: uint32
  mVotes :: "scp_value list"
  mAccepted :: "scp_value list"
  mCandidates :: "scp_value list"
  mLatestNominations :: "(node_id, nomination_envelope) smap"
  mNomLastEnvelope :: "nomination_envelope option"
  mRoundLeaders :: "node_id list"
  mNominationStarted :: bool
  mLatestCompositeCandidate :: "scp_value option"
  mPreviousValue :: scp_value
  mNomTimerExpCount :: int

text \<open>Fields of \<^verbatim>\<open>BallotProtocol\<close>.  A \<^verbatim>\<open>SCPBallotWrapper\<close> pointer is an optional ballot: the
  wrapped value is the ballot's own value.\<close>

record slot = nomination_protocol +
  mHeardFromQuorum :: bool
  mCurrentBallot :: "scp_ballot option"
  mPrepared :: "scp_ballot option"
  mPreparedPrime :: "scp_ballot option"
  mHighBallot :: "scp_ballot option"
  mCommit :: "scp_ballot option"
  mLatestEnvelopes :: "(node_id, ballot_envelope) smap"
  mPhase :: scp_phase
  mValueOverride :: "scp_value option"
  mCurrentMessageLevel :: nat
  mTimerExpCount :: int
  mLastEnvelope :: "ballot_envelope option"
  mLastEnvelopeEmit :: "ballot_envelope option"

definition log_event :: "driver_event \<Rightarrow> slot \<Rightarrow> slot" where
  "log_event e s = s\<lparr>mEvents := e # mEvents s\<rparr>"

section \<open>Failures\<close>

text \<open>
  How the consensus code can fail: the exceptions it throws, the debug assertions it checks
  (the build does not define \<^verbatim>\<open>NDEBUG\<close>, see \<^verbatim>\<open>util/GlobalChecks.h\<close>), the dereference of a
  null pointer, and \<open>OutOfFuel\<close> where a bound of the model would be exhausted (shown never to
  happen in the theories that use it).
\<close>

datatype scp_assert =
    AssertSlotIndex              \<comment> \<open>processEnvelope: the envelope is for this slot\<close>
  | AssertCurrentLeBallot        \<comment> \<open>updateCurrentValue: b is at most the new ballot\<close>
  | AssertNotExternalized        \<comment> \<open>bumpToBallot: phase is not EXTERNALIZE\<close>
  | AssertMonotoneBallot         \<comment> \<open>bumpToBallot: ballots only move up\<close>
  | AssertCounterNonZero         \<comment> \<open>checkInvariants: b has a non-zero counter\<close>
  | AssertPreparedPair           \<comment> \<open>checkInvariants: p' below and incompatible with p\<close>
  | AssertHighBallot             \<comment> \<open>checkInvariants: h below and compatible with b\<close>
  | AssertCommit                 \<comment> \<open>checkInvariants: c below and compatible with h\<close>
  | AssertPhase                  \<comment> \<open>checkInvariants: c (and h) set in the later phases\<close>
  | AssertCommitCompatible       \<comment> \<open>attemptAcceptPrepared: candidates compatible with c\<close>
  | AssertPreparePhase           \<comment> \<open>setAcceptPrepared: c only cleared in PREPARE\<close>
  | AssertNoCommit               \<comment> \<open>setConfirmPrepared: c not yet set\<close>
  | AssertPreviousValue          \<comment> \<open>hashNode, hashValue: the previous value is not empty\<close>
  | AssertWeight                 \<comment> \<open>getNodeWeight: an assertion of computeWeight\<close>
  | AssertIsValidator            \<comment> \<open>SCP::nominate: only validators nominate\<close>

datatype scp_error =
    MaximumTransitionsReached
  | MovedToBadStateBallot
  | MovedToBadStateNomination
  | CannotSetStateBallot
  | CannotSetStateNomination
  | NullPointer
  | DbgAssert scp_assert
  | OutOfFuel

type_synonym 'a scp_result = "scp_error + 'a"

end
