(* ===== verification/Quorum_Sets.thy ===== *)
theory Quorum_Sets
  imports Scp_Types "HOL-Library.Multiset"
begin

text \<open>
  Sanity check and normalisation of quorum sets, \<^verbatim>\<open>scp/QuorumSetUtils.cpp\<close>.  Recursion over the
  nested inner sets is a pair of mutually recursive functions, one for a quorum set and one for
  the loop over a vector of them.
\<close>

section \<open>Sanity check\<close>

definition MAXIMUM_QUORUM_NESTING_LEVEL :: nat where
  "MAXIMUM_QUORUM_NESTING_LEVEL = 4"

text \<open>The messages \<^verbatim>\<open>errString\<close> can be set to.\<close>

datatype qset_error =
    NestingLevelExceeded
  | ThresholdMustBePositive
  | ThresholdExceedsEntries
  | ThresholdBelowVBlocking
  | DuplicateNode
  | NodeCountOutOfRange

text \<open>State of the checker: \<^verbatim>\<open>mKnownNodes\<close> and \<^verbatim>\<open>mCount\<close>.\<close>

type_synonym sanity_state = "node_id list \<times> nat"

fun insertKnownNodes :: "node_id list \<Rightarrow> node_id list \<Rightarrow> qset_error + node_id list" where
  "insertKnownNodes [] known = Inr known"
| "insertKnownNodes (n # ns) known =
     (if n \<in> set known then Inl DuplicateNode
      else insertKnownNodes ns (sset_insert n known))"

fun checkSanity ::
    "bool \<Rightarrow> scp_quorum_set \<Rightarrow> nat \<Rightarrow> sanity_state \<Rightarrow> qset_error + sanity_state"
  and checkSanityInner ::
    "bool \<Rightarrow> scp_quorum_set list \<Rightarrow> nat \<Rightarrow> sanity_state \<Rightarrow> qset_error + sanity_state"
where
  "checkSanity extraChecks (SCPQuorumSet t v i) depth (known, cnt) =
     (if depth > MAXIMUM_QUORUM_NESTING_LEVEL then Inl NestingLevelExceeded
      else if t < 1 then Inl ThresholdMustBePositive
      else let totEntries = length v + length i;
               vBlockingSize = totEntries - unat t + 1;
               cnt' = cnt + length v in
        if unat t > totEntries then Inl ThresholdExceedsEntries
        else if extraChecks \<and> unat t < vBlockingSize then Inl ThresholdBelowVBlocking
        else seq (insertKnownNodes v known)
               (\<lambda>known'. checkSanityInner extraChecks i depth (known', cnt')))"
| "checkSanityInner extraChecks [] depth st = Inr st"
| "checkSanityInner extraChecks (q # qs) depth st =
     seq (checkSanity extraChecks q (depth + 1) st)
       (\<lambda>st'. checkSanityInner extraChecks qs depth st')"

definition quorumSetError :: "scp_quorum_set \<Rightarrow> bool \<Rightarrow> qset_error option" where
  "quorumSetError q extraChecks =
     (case checkSanity extraChecks q 0 ([], 0) of
        Inl e \<Rightarrow> Some e
      | Inr (known, cnt) \<Rightarrow> if cnt < 1 \<or> cnt > 1000 then Some NodeCountOutOfRange else None)"

definition isQuorumSetSane :: "scp_quorum_set \<Rightarrow> bool \<Rightarrow> bool" where
  "isQuorumSetSane q extraChecks \<longleftrightarrow> quorumSetError q extraChecks = None"

section \<open>Normalisation\<close>

definition removeNode :: "node_id option \<Rightarrow> uint32 \<Rightarrow> node_id list \<Rightarrow> uint32 \<times> node_id list" where
  "removeNode idToRemove t v =
     (case idToRemove of
        None \<Rightarrow> (t, v)
      | Some n \<Rightarrow>
          let kept = filter (\<lambda>m. m \<noteq> n) v
          in (t - of_nat (length v - length kept), kept))"

definition isSingletonQSet :: "scp_quorum_set \<Rightarrow> bool" where
  "isSingletonQSet q \<longleftrightarrow>
     threshold q = 1 \<and> length (validators q) = 1 \<and> length (innerSets q) = 0"

fun normalizeQSetSimplify :: "node_id option \<Rightarrow> scp_quorum_set \<Rightarrow> scp_quorum_set"
  and simplifyInner ::
    "node_id option \<Rightarrow> scp_quorum_set list \<Rightarrow> node_id list \<Rightarrow> node_id list \<times> scp_quorum_set list"
where
  "normalizeQSetSimplify idToRemove (SCPQuorumSet t v i) =
     (let (t', v') = removeNode idToRemove t v;
          (v'', i') = simplifyInner idToRemove i v'
      in if t' = 1 \<and> length v'' = 0 \<and> length i' = 1 then last i' else SCPQuorumSet t' v'' i')"
| "simplifyInner idToRemove [] v = (v, [])"
| "simplifyInner idToRemove (q # qs) v =
     (let q' = normalizeQSetSimplify idToRemove q in
      if isSingletonQSet q' then simplifyInner idToRemove qs (v @ [hd (validators q')])
      else let (v', qs') = simplifyInner idToRemove qs v in (v', q' # qs'))"

text \<open>\<^verbatim>\<open>intLexicographicalCompare\<close> on the two vectors, with the element comparison inlined as the
  first argument for node ids and as a mutual recursion for inner sets.\<close>

fun intLexicographicalCompare :: "('a \<Rightarrow> 'a \<Rightarrow> int) \<Rightarrow> 'a list \<Rightarrow> 'a list \<Rightarrow> int" where
  "intLexicographicalCompare cmp [] [] = 0"
| "intLexicographicalCompare cmp [] (y # ys) = - 1"
| "intLexicographicalCompare cmp (x # xs) [] = 1"
| "intLexicographicalCompare cmp (x # xs) (y # ys) =
     (let c = cmp x y in if c \<noteq> 0 then c else intLexicographicalCompare cmp xs ys)"

lemma intLexicographicalCompare_cong [fundef_cong]:
  assumes "xs = xs'" "ys = ys'"
    and "\<And>x y. x \<in> set xs' \<Longrightarrow> y \<in> set ys' \<Longrightarrow> cmp x y = cmp' x y"
  shows "intLexicographicalCompare cmp xs ys = intLexicographicalCompare cmp' xs' ys'"
  using assms(3) unfolding assms(1,2)
  by (induction cmp xs' ys' rule: intLexicographicalCompare.induct) (auto simp: Let_def)

definition compareNodeID :: "node_id \<Rightarrow> node_id \<Rightarrow> int" where
  "compareNodeID l r = (if l < r then - 1 else if r < l then 1 else 0)"

fun qSetCompareInt :: "scp_quorum_set \<Rightarrow> scp_quorum_set \<Rightarrow> int" where
  "qSetCompareInt (SCPQuorumSet lt lv li) (SCPQuorumSet rt rv ri) =
     (let res = intLexicographicalCompare compareNodeID lv rv in
      if res \<noteq> 0 then res
      else let res' = intLexicographicalCompare (\<lambda>l r. qSetCompareInt l r) li ri in
        if res' \<noteq> 0 then res'
        else if lt < rt then - 1 else if lt = rt then 0 else 1)"

text \<open>\<^verbatim>\<open>std::sort\<close> with \<open>qSetCompareInt l r < 0\<close>; elements that compare equal are equal
  (\<open>qSetCompareInt_eq_0\<close>), so the sorted order does not depend on the algorithm.\<close>

fun insertQSet :: "scp_quorum_set \<Rightarrow> scp_quorum_set list \<Rightarrow> scp_quorum_set list" where
  "insertQSet q [] = [q]"
| "insertQSet q (r # rs) = (if qSetCompareInt r q < 0 then r # insertQSet q rs else q # r # rs)"

definition sortQSets :: "scp_quorum_set list \<Rightarrow> scp_quorum_set list" where
  "sortQSets qs = foldr insertQSet qs []"

fun normalizeQuorumSetReorder :: "scp_quorum_set \<Rightarrow> scp_quorum_set" where
  "normalizeQuorumSetReorder (SCPQuorumSet t v i) =
     SCPQuorumSet t (sort v) (sortQSets (map normalizeQuorumSetReorder i))"

definition normalizeQSet :: "scp_quorum_set \<Rightarrow> node_id option \<Rightarrow> scp_quorum_set" where
  "normalizeQSet q idToRemove = normalizeQuorumSetReorder (normalizeQSetSimplify idToRemove q)"

section \<open>The order on quorum sets\<close>

lemma lexCompare_eq_0:
  assumes "\<And>x y. x \<in> set xs \<Longrightarrow> cmp x y = 0 \<longleftrightarrow> x = y"
  shows "intLexicographicalCompare cmp xs ys = 0 \<longleftrightarrow> xs = ys"
  using assms
  by (induction cmp xs ys rule: intLexicographicalCompare.induct) (auto simp: Let_def)

lemma lexCompare_anti:
  assumes "\<And>x y. x \<in> set xs \<Longrightarrow> cmp y x = - cmp x y"
  shows "intLexicographicalCompare cmp ys xs = - intLexicographicalCompare cmp xs ys"
  using assms
proof (induction cmp xs ys rule: intLexicographicalCompare.induct)
  case (4 cmp x xs y ys)
  have xy: "cmp y x = - cmp x y" by (rule 4(2)) simp
  show ?case
  proof (cases "cmp x y = 0")
    case True
    then have "intLexicographicalCompare cmp ys xs = - intLexicographicalCompare cmp xs ys"
      by (intro 4(1) [OF refl _ 4(2)]) simp_all
    then show ?thesis using True xy by (simp add: Let_def)
  next
    case False
    then show ?thesis unfolding intLexicographicalCompare.simps xy Let_def by simp
  qed
qed (simp_all (no_asm))

lemma lexCompare_trans:
  assumes "\<And>x y z. x \<in> set xs \<Longrightarrow> cmp x y < 0 \<Longrightarrow> cmp y z < 0 \<Longrightarrow> cmp x z < 0"
    and eq: "\<And>x y. cmp x y = 0 \<longleftrightarrow> x = y"
  shows "intLexicographicalCompare cmp xs ys < 0 \<Longrightarrow> intLexicographicalCompare cmp ys zs < 0 \<Longrightarrow>
         intLexicographicalCompare cmp xs zs < 0"
  using assms(1)
proof (induction xs arbitrary: ys zs)
  case Nil
  from Nil(1,2) show ?case by (cases ys; cases zs) auto
next
  case (Cons x xs)
  from Cons.prems(1) obtain y ys' where ys: "ys = y # ys'" by (cases ys) auto
  from Cons.prems(2) ys obtain z zs' where zs: "zs = z # zs'" by (cases zs) auto
  have IH: "intLexicographicalCompare cmp xs ys' < 0 \<Longrightarrow> intLexicographicalCompare cmp ys' zs' < 0 \<Longrightarrow>
      intLexicographicalCompare cmp xs zs' < 0"
    using Cons.IH [of ys' zs'] Cons.prems(3) by (meson list.set_intros(2))
  have tr: "cmp x y < 0 \<Longrightarrow> cmp y z < 0 \<Longrightarrow> cmp x z < 0"
    using Cons.prems(3) by (meson list.set_intros(1))
  show ?case
    using Cons.prems(1,2) IH tr eq [of x y] eq [of y z] eq [of x z]
    unfolding ys zs by (auto simp: Let_def split: if_splits)
qed

lemma compareNodeID_simps:
  "compareNodeID l r = 0 \<longleftrightarrow> l = r"
  "compareNodeID r l = - compareNodeID l r"
  "compareNodeID l r < 0 \<Longrightarrow> compareNodeID r x < 0 \<Longrightarrow> compareNodeID l x < 0"
  by (auto simp: compareNodeID_def split: if_splits)

lemma qSetCompareInt_eq_0: "qSetCompareInt l r = 0 \<longleftrightarrow> l = r"
proof (induction l arbitrary: r)
  case (SCPQuorumSet t v i)
  obtain t' v' i' where r: "r = SCPQuorumSet t' v' i'" by (cases r)
  have "intLexicographicalCompare qSetCompareInt i i' = 0 \<longleftrightarrow> i = i'"
    using SCPQuorumSet by (rule lexCompare_eq_0)
  moreover have "intLexicographicalCompare compareNodeID v v' = 0 \<longleftrightarrow> v = v'"
    by (rule lexCompare_eq_0) (rule compareNodeID_simps)
  ultimately show ?case by (auto simp: r Let_def)
qed

lemma qSetCompareInt_anti: "qSetCompareInt r l = - qSetCompareInt l r"
proof (induction l arbitrary: r)
  case (SCPQuorumSet t v i)
  obtain t' v' i' where r: "r = SCPQuorumSet t' v' i'" by (cases r)
  have "intLexicographicalCompare qSetCompareInt i' i = - intLexicographicalCompare qSetCompareInt i i'"
    using SCPQuorumSet by (rule lexCompare_anti)
  moreover have "intLexicographicalCompare compareNodeID v' v
                 = - intLexicographicalCompare compareNodeID v v'"
    by (rule lexCompare_anti) (rule compareNodeID_simps)
  ultimately show ?case by (auto simp: r Let_def)
qed

lemma qSetCompareInt_trans:
  "qSetCompareInt l r < 0 \<Longrightarrow> qSetCompareInt r x < 0 \<Longrightarrow> qSetCompareInt l x < 0"
proof (induction l arbitrary: r x)
  case (SCPQuorumSet t v i)
  obtain t' v' i' where r: "r = SCPQuorumSet t' v' i'" by (cases r)
  obtain t'' v'' i'' where x: "x = SCPQuorumSet t'' v'' i''" by (cases x)
  let ?V = "intLexicographicalCompare compareNodeID" and ?I = "intLexicographicalCompare qSetCompareInt"
  have V0: "\<And>v w. ?V v w = 0 \<longleftrightarrow> v = w"
    by (rule lexCompare_eq_0) (rule compareNodeID_simps)
  have I0: "\<And>v w. ?I v w = 0 \<longleftrightarrow> v = w"
    by (rule lexCompare_eq_0) (rule qSetCompareInt_eq_0)
  have V: "?V v v' < 0 \<Longrightarrow> ?V v' v'' < 0 \<Longrightarrow> ?V v v'' < 0"
    by (rule lexCompare_trans [of _ compareNodeID]) (auto intro: compareNodeID_simps(3) simp: compareNodeID_simps(1))
  have I: "?I i i' < 0 \<Longrightarrow> ?I i' i'' < 0 \<Longrightarrow> ?I i i'' < 0"
    by (rule lexCompare_trans [of _ qSetCompareInt]) (auto intro: SCPQuorumSet.IH simp: qSetCompareInt_eq_0)
  show ?case
    using SCPQuorumSet.prems V I V0 [of v v'] V0 [of v' v''] V0 [of v v''] I0 [of i i'] I0 [of i' i''] I0 [of i i'']
    unfolding r x by (auto simp: Let_def split: if_splits)
qed

text \<open>So quorum sets form a linear order, and \<^verbatim>\<open>std::sort\<close> with it is the library's \<^const>\<open>sort\<close>.\<close>

instantiation scp_quorum_set :: linorder
begin

definition less_eq_scp_quorum_set :: "scp_quorum_set \<Rightarrow> scp_quorum_set \<Rightarrow> bool" where
  "less_eq_scp_quorum_set l r \<longleftrightarrow> qSetCompareInt l r \<le> 0"

definition less_scp_quorum_set :: "scp_quorum_set \<Rightarrow> scp_quorum_set \<Rightarrow> bool" where
  "less_scp_quorum_set l r \<longleftrightarrow> qSetCompareInt l r < 0"

instance
proof
  fix a b c :: scp_quorum_set
  show "(a < b) = (a \<le> b \<and> \<not> b \<le> a)"
    using qSetCompareInt_anti [of a b] by (auto simp: less_eq_scp_quorum_set_def less_scp_quorum_set_def)
  show "a \<le> a"
    using qSetCompareInt_eq_0 [of a a] by (simp add: less_eq_scp_quorum_set_def)
  show "a \<le> c" if "a \<le> b" "b \<le> c"
    using that qSetCompareInt_trans [of a b c] qSetCompareInt_eq_0 [of a b] qSetCompareInt_eq_0 [of b c]
    unfolding less_eq_scp_quorum_set_def by fastforce
  show "a = b" if "a \<le> b" "b \<le> a"
    using that qSetCompareInt_anti [of a b] qSetCompareInt_eq_0 [of a b]
    unfolding less_eq_scp_quorum_set_def by linarith
  show "a \<le> b \<or> b \<le> a"
    using qSetCompareInt_anti [of a b] unfolding less_eq_scp_quorum_set_def by linarith
qed

end

lemma insertQSet_insort: "insertQSet q qs = insort q qs"
  by (induction q qs rule: insertQSet.induct)
    (auto simp: not_le not_less simp flip: less_scp_quorum_set_def)

lemma sortQSets_sort: "sortQSets qs = sort qs"
proof -
  have "insertQSet = insort" by (intro ext) (rule insertQSet_insort)
  then show ?thesis by (simp add: sortQSets_def sort_key_def)
qed

text \<open>Two quorum sets with the same entries in some order, at every level, have the same
  reordering, and a quorum set is only reordered.\<close>

inductive same_qset :: "scp_quorum_set \<Rightarrow> scp_quorum_set \<Rightarrow> bool" where
  same_qset: "mset v = mset v' \<Longrightarrow> list_all2 same_qset i j \<Longrightarrow> mset j = mset i' \<Longrightarrow>
     same_qset (SCPQuorumSet t v i) (SCPQuorumSet t v' i')"

lemma same_qset_reorder: "same_qset q (normalizeQuorumSetReorder q)"
proof (induction q)
  case (SCPQuorumSet t v i)
  then have "list_all2 same_qset i (map normalizeQuorumSetReorder i)"
    by (simp add: list_all2_conv_all_nth)
  then show ?case by (auto simp: sortQSets_sort intro: same_qset)
qed

lemma normalizeQuorumSetReorder_same:
  assumes "same_qset q q'"
  shows "normalizeQuorumSetReorder q = normalizeQuorumSetReorder q'"
  using assms
proof induction
  case (same_qset v v' i j i' t)
  have "map normalizeQuorumSetReorder i = map normalizeQuorumSetReorder j"
    using same_qset.IH by (auto simp: list_all2_conv_all_nth intro: nth_equalityI)
  moreover have "mset (map normalizeQuorumSetReorder j) = mset (map normalizeQuorumSetReorder i')"
    using same_qset.hyps(2) by simp
  ultimately show ?case
    using same_qset.hyps(1) by (metis normalizeQuorumSetReorder.simps sortQSets_sort
        sorted_list_of_multiset_mset)
qed

section \<open>What the sanity check accepts\<close>

text \<open>All node ids of a quorum set, in the order the checker visits them.\<close>

fun qset_nodes :: "scp_quorum_set \<Rightarrow> node_id list" where
  "qset_nodes (SCPQuorumSet t v i) = v @ concat (map qset_nodes i)"

fun within_depth :: "nat \<Rightarrow> scp_quorum_set \<Rightarrow> bool" where
  "within_depth d (SCPQuorumSet t v i) \<longleftrightarrow> list_all (\<lambda>q. 0 < d \<and> within_depth (d - 1) q) i"

text \<open>Thresholds in range and, with \<open>extraChecks\<close>, at least the size of a v-blocking set.\<close>

fun thresholds_ok :: "bool \<Rightarrow> scp_quorum_set \<Rightarrow> bool" where
  "thresholds_ok extraChecks (SCPQuorumSet t v i) \<longleftrightarrow>
     0 < unat t \<and> unat t \<le> length v + length i \<and>
     (extraChecks \<longrightarrow> length v + length i < 2 * unat t) \<and> list_all (thresholds_ok extraChecks) i"

lemma insertKnownNodes_iff:
  "insertKnownNodes ns known = Inr known' \<longleftrightarrow>
     distinct ns \<and> set ns \<inter> set known = {} \<and> known' = fold sset_insert ns known"
  by (induction ns known rule: insertKnownNodes.induct) auto

lemma set_fold_sset_insert [simp]: "set (fold sset_insert xs ys) = set xs \<union> set ys"
  using set_sset_union [of xs ys] by (simp add: sset_union_def)

definition sane_from :: "bool \<Rightarrow> nat \<Rightarrow> scp_quorum_set \<Rightarrow> bool" where
  "sane_from extraChecks d q \<longleftrightarrow>
     d \<le> MAXIMUM_QUORUM_NESTING_LEVEL \<and> within_depth (MAXIMUM_QUORUM_NESTING_LEVEL - d) q \<and>
     thresholds_ok extraChecks q"

lemma sane_from_simps:
  "sane_from ex d (SCPQuorumSet t v i) \<longleftrightarrow>
     d \<le> MAXIMUM_QUORUM_NESTING_LEVEL \<and> 0 < unat t \<and> unat t \<le> length v + length i \<and>
     (ex \<longrightarrow> length v + length i < 2 * unat t) \<and> list_all (sane_from ex (d + 1)) i"
  by (auto simp: sane_from_def list_all_iff)

definition sanity_ok :: "bool \<Rightarrow> scp_quorum_set \<Rightarrow> bool" where
  "sanity_ok ex q \<longleftrightarrow> (\<forall>d known cnt r. checkSanity ex q d (known, cnt) = Inr r \<longleftrightarrow>
     sane_from ex d q \<and> distinct (qset_nodes q) \<and> set (qset_nodes q) \<inter> set known = {} \<and>
     r = (fold sset_insert (qset_nodes q) known, cnt + length (qset_nodes q)))"

lemma checkSanityInner_iff:
  assumes "\<And>q. q \<in> set qs \<Longrightarrow> sanity_ok ex q"
  shows "checkSanityInner ex qs d (known, cnt) = Inr r \<longleftrightarrow>
     list_all (sane_from ex (d + 1)) qs \<and> distinct (concat (map qset_nodes qs)) \<and>
     set (concat (map qset_nodes qs)) \<inter> set known = {} \<and>
     r = (fold sset_insert (concat (map qset_nodes qs)) known,
          cnt + length (concat (map qset_nodes qs)))"
  using assms
proof (induction qs arbitrary: known cnt)
  case Nil
  show ?case by auto
next
  case (Cons q qs)
  let ?known = "fold sset_insert (qset_nodes q) known" and ?cnt = "cnt + length (qset_nodes q)"
  have q: "sanity_ok ex q" by (rule Cons.prems) simp
  have "checkSanityInner ex (q # qs) d (known, cnt) = Inr r \<longleftrightarrow>
      (\<exists>st. checkSanity ex q (d + 1) (known, cnt) = Inr st \<and> checkSanityInner ex qs d st = Inr r)"
    by (cases "checkSanity ex q (d + 1) (known, cnt)") simp_all
  also have "\<dots> \<longleftrightarrow> sane_from ex (d + 1) q \<and> distinct (qset_nodes q) \<and>
      set (qset_nodes q) \<inter> set known = {} \<and> checkSanityInner ex qs d (?known, ?cnt) = Inr r"
    using q unfolding sanity_ok_def by auto
  also have "checkSanityInner ex qs d (?known, ?cnt) = Inr r \<longleftrightarrow>
     list_all (sane_from ex (d + 1)) qs \<and> distinct (concat (map qset_nodes qs)) \<and>
     set (concat (map qset_nodes qs)) \<inter> set ?known = {} \<and>
     r = (fold sset_insert (concat (map qset_nodes qs)) ?known,
          ?cnt + length (concat (map qset_nodes qs)))"
    by (rule Cons.IH) (simp add: Cons.prems)
  finally show ?case by auto
qed

lemma checkSanity_unfold:
  "checkSanity ex (SCPQuorumSet t v i) d (known, cnt) = Inr r \<longleftrightarrow>
     d \<le> MAXIMUM_QUORUM_NESTING_LEVEL \<and> 0 < unat t \<and> unat t \<le> length v + length i \<and>
     (ex \<longrightarrow> length v + length i < 2 * unat t) \<and> distinct v \<and> set v \<inter> set known = {} \<and>
     checkSanityInner ex i d (fold sset_insert v known, cnt + length v) = Inr r"
proof -
  have "t < 1 \<longleftrightarrow> \<not> 0 < unat t" by (simp add: unat_gt_0)
  moreover have s: "seq (insertKnownNodes v known) f = Inr r \<longleftrightarrow> distinct v \<and> set v \<inter> set known = {} \<and>
       f (fold sset_insert v known) = Inr r" for f :: "node_id list \<Rightarrow> qset_error + sanity_state"
  proof (cases "insertKnownNodes v known")
    case (Inl e)
    then show ?thesis using insertKnownNodes_iff [of v known "fold sset_insert v known"] by auto
  next
    case (Inr b)
    with insertKnownNodes_iff [of v known b] show ?thesis by simp
  qed
  moreover have "unat t \<le> n \<Longrightarrow> unat t < n - unat t + 1 \<longleftrightarrow> \<not> n < 2 * unat t" for n
    by linarith
  ultimately show ?thesis unfolding checkSanity.simps Let_def
    by (cases "0 < unat t"; cases "unat t \<le> length v + length i"; cases ex) auto
qed

lemma sanity_ok: "sanity_ok ex q"
proof (induction q)
  case (SCPQuorumSet t v i)
  have i: "sanity_ok ex q" if "q \<in> set i" for q using that by (rule SCPQuorumSet)
  show ?case
    unfolding sanity_ok_def checkSanity_unfold sane_from_simps
    by (subst checkSanityInner_iff [of i]) (auto simp: i)
qed

lemma isQuorumSetSane_spec:
  "isQuorumSetSane q ex \<longleftrightarrow>
     within_depth MAXIMUM_QUORUM_NESTING_LEVEL q \<and> thresholds_ok ex q \<and> distinct (qset_nodes q) \<and>
     1 \<le> length (qset_nodes q) \<and> length (qset_nodes q) \<le> 1000"
proof -
  note c = sanity_ok [of ex q, unfolded sanity_ok_def, rule_format, of 0 "[]" 0]
  show ?thesis
  proof (cases "checkSanity ex q 0 ([], 0)")
    case (Inl e)
    with c [of "(fold sset_insert (qset_nodes q) [], length (qset_nodes q))"] show ?thesis
      by (auto simp: isQuorumSetSane_def quorumSetError_def sane_from_def)
  next
    case (Inr r)
    with c [of r] show ?thesis
      by (auto simp: isQuorumSetSane_def quorumSetError_def sane_from_def Suc_le_eq)
  qed
qed

text \<open>Every sane quorum set has at most as many entries as nodes.\<close>

lemma thresholds_ok_nodes:
  "thresholds_ok ex q \<Longrightarrow> length (validators q) + length (innerSets q) \<le> length (qset_nodes q)
     \<and> qset_nodes q \<noteq> []"
proof (induction q)
  case (SCPQuorumSet t v i)
  have "length qs \<le> length (concat (map qset_nodes qs))" if "set qs \<subseteq> set i" for qs
    using that
  proof (induction qs)
    case (Cons q qs)
    then have "qset_nodes q \<noteq> []"
      using SCPQuorumSet by (auto simp: list_all_iff)
    with Cons show ?case by (cases "qset_nodes q") auto
  qed simp
  then have "length v + length i \<le> length (qset_nodes (SCPQuorumSet t v i))" by simp
  moreover have "0 < length v + length i" using SCPQuorumSet.prems by auto
  ultimately show ?case
    unfolding scp_quorum_set.sel using length_0_conv not_le by metis
qed

section \<open>Properties\<close>

text \<open>C30: The sanity check accepts exactly the quorum sets with at most four levels of nested inner
  sets, thresholds between 1 and the number of entries (with the extra checks, more than half of
  them) at every level, no node that occurs twice, and between 1 and 1000 nodes in all.\<close>

theorem isQuorumSetSane_exact:
  "isQuorumSetSane q extraChecks \<longleftrightarrow>
     within_depth 4 q \<and> thresholds_ok extraChecks q \<and> distinct (qset_nodes q) \<and>
     1 \<le> length (qset_nodes q) \<and> length (qset_nodes q) \<le> 1000"
  unfolding isQuorumSetSane_spec MAXIMUM_QUORUM_NESTING_LEVEL_def ..

text \<open>C33: Reordering gives a canonical form: quorum sets with the same entries in any order, at
  every level, are reordered to the same quorum set, and the result is such a rearrangement.\<close>

theorem normalizeQuorumSetReorder_canonical:
  assumes "same_qset q q'"
  shows "normalizeQuorumSetReorder q = normalizeQuorumSetReorder q' \<and>
     same_qset q (normalizeQuorumSetReorder q)"
  using normalizeQuorumSetReorder_same [OF assms] same_qset_reorder by blast

theorem normalizeQuorumSetReorder_canonical_witness:
  "normalizeQuorumSetReorder (SCPQuorumSet 2 [3, 1] [SCPQuorumSet 1 [5, 4] []])
     = normalizeQuorumSetReorder (SCPQuorumSet 2 [1, 3] [SCPQuorumSet 1 [4, 5] []])"
proof -
  have "same_qset (SCPQuorumSet 1 [5, 4] []) (SCPQuorumSet 1 [4, 5] [])"
    by (rule same_qset [where j = "[]"]) simp_all
  then have "same_qset (SCPQuorumSet 2 [3, 1] [SCPQuorumSet 1 [5, 4] []])
      (SCPQuorumSet 2 [1, 3] [SCPQuorumSet 1 [4, 5] []])"
    by (intro same_qset [where j = "[SCPQuorumSet 1 [4, 5] []]"]) simp_all
  from normalizeQuorumSetReorder_canonical [OF this] show ?thesis by blast
qed

end
