(* ===== verification/Numeric.thy ===== *)
theory Numeric
  imports Prelude
begin

text \<open>
  The 128-bit helper arithmetic of \<^verbatim>\<open>util/numeric.cpp\<close>: \<open>A * B / C\<close> with a 128-bit
  intermediate product and either rounding, the integer square root of a 128-bit product by the
  modified Babylonian iteration, and \<^verbatim>\<open>hugeDivide\<close>.  The C++ types keep their widths
  (\<^typ>\<open>uint64\<close>, \<^typ>\<open>uint128\<close>); an \<^verbatim>\<open>int64_t\<close> is an \<^typ>\<open>int\<close> in the range of 64-bit two's
  complement and is converted with \<^const>\<open>word_of_int\<close> where the code casts.  A function with a
  \<^verbatim>\<open>result\<close> reference and a \<^verbatim>\<open>bool\<close> return value gives the pair of both; a failed
  \<^verbatim>\<open>releaseAssertOrThrow\<close> or \<^verbatim>\<open>throw\<close> is \<open>Inl\<close>.
\<close>

section \<open>Definitions\<close>

datatype rounding = ROUND_DOWN | ROUND_UP

datatype num_error = AssertThrow | OverflowError | SqrtOverflow

definition INT32_MAX :: int where "INT32_MAX = 2 ^ 31 - 1"
definition INT64_MAX :: int where "INT64_MAX = 2 ^ 63 - 1"
definition INT64_MIN :: int where "INT64_MIN = - (2 ^ 63)"

definition bigDivideUnsigned ::
  "uint64 \<Rightarrow> uint64 \<Rightarrow> uint64 \<Rightarrow> rounding \<Rightarrow> num_error + (bool \<times> uint64)" where
  "bigDivideUnsigned A B C rounding =
     (if \<not> C > 0 then Inl AssertThrow
      else let a = (ucast A :: uint128); b = ucast B; c = ucast C;
               x = (if rounding = ROUND_DOWN then (a * b) div c else (a * b + c - 1) div c)
           in Inr (x \<le> ucast UINT64_MAX, ucast x))"

text \<open>\<^verbatim>\<open>result\<close> is only assigned when the unsigned division succeeds; before that it is
  whatever the caller passed, here the argument \<open>r0\<close>.\<close>

definition bigDivide ::
  "int \<Rightarrow> int \<Rightarrow> int \<Rightarrow> int \<Rightarrow> rounding \<Rightarrow> num_error + (bool \<times> int)" where
  "bigDivide r0 A B C rounding =
     (if \<not> (A \<ge> 0 \<and> B \<ge> 0 \<and> C > 0) then Inl AssertThrow
      else seq (bigDivideUnsigned (word_of_int A) (word_of_int B) (word_of_int C) rounding)
             (\<lambda>(res, r2). if res then Inr (r2 \<le> word_of_int INT64_MAX, sint r2)
                          else Inr (False, r0)))"

definition bigDivideOrThrow :: "int \<Rightarrow> int \<Rightarrow> int \<Rightarrow> rounding \<Rightarrow> num_error + int" where
  "bigDivideOrThrow A B C rounding =
     seq (bigDivide 0 A B C rounding)
       (\<lambda>(ok, r). if \<not> ok then Inl OverflowError else Inr r)"

definition bigDivideUnsigned128 ::
  "uint64 \<Rightarrow> uint128 \<Rightarrow> uint64 \<Rightarrow> rounding \<Rightarrow> num_error + (bool \<times> uint64)" where
  "bigDivideUnsigned128 r0 a B rounding =
     (if B = 0 then Inl AssertThrow
      else let b = (ucast B :: uint128) in
        if rounding = ROUND_UP \<and> a > - 1 - (b - 1) then Inr (False, r0)
        else let x = (if rounding = ROUND_DOWN then a div b else (a + b - 1) div b)
             in Inr (x \<le> ucast UINT64_MAX, ucast x))"

definition bigDivide128 ::
  "int \<Rightarrow> uint128 \<Rightarrow> int \<Rightarrow> rounding \<Rightarrow> num_error + (bool \<times> int)" where
  "bigDivide128 r0 a B rounding =
     (if \<not> B > 0 then Inl AssertThrow
      else seq (bigDivideUnsigned128 0 a (word_of_int B) rounding)
             (\<lambda>(res, r2). if res then Inr (r2 \<le> word_of_int INT64_MAX, sint r2)
                          else Inr (False, r0)))"

definition bigDivideOrThrow128 :: "uint128 \<Rightarrow> int \<Rightarrow> rounding \<Rightarrow> num_error + int" where
  "bigDivideOrThrow128 a B rounding =
     seq (bigDivide128 0 a B rounding)
       (\<lambda>(ok, r). if \<not> ok then Inl OverflowError else Inr r)"

definition bigMultiplyUnsigned :: "uint64 \<Rightarrow> uint64 \<Rightarrow> uint128" where
  "bigMultiplyUnsigned a b = ucast a * ucast b"

definition bigMultiply :: "int \<Rightarrow> int \<Rightarrow> num_error + uint128" where
  "bigMultiply a b =
     (if \<not> (a \<ge> 0 \<and> b \<ge> 0) then Inl AssertThrow
      else Inr (bigMultiplyUnsigned (word_of_int a) (word_of_int b)))"

text \<open>\<^verbatim>\<open>64 - __builtin_clzll(x)\<close> is the number of significant bits of \<open>x\<close>.\<close>

fun bit_length :: "nat \<Rightarrow> nat" where
  "bit_length n = (if n = 0 then 0 else Suc (bit_length (n div 2)))"

declare bit_length.simps [simp del]

definition uint128_bits :: "uint128 \<Rightarrow> nat" where
  "uint128_bits x =
     (let hi = (ucast (drop_bit 64 x) :: uint64) in
      if hi \<noteq> 0 then 64 + bit_length (unat hi)
      else let lo = (ucast x :: uint64) in
           if lo \<noteq> 0 then bit_length (unat lo) else 0)"

text \<open>The loop of \<^verbatim>\<open>bigSquareRootCeil\<close>; not returning would be \<open>None\<close>.\<close>

partial_function (option) sqrt_loop ::
  "uint128 \<Rightarrow> uint64 \<Rightarrow> uint64 \<Rightarrow> (num_error + uint64) option" where
  "sqrt_loop R x prev =
     (if x = prev then Some (Inr x)
      else case bigDivideUnsigned128 0 R x ROUND_UP of
             Inl e \<Rightarrow> Some (Inl e)
           | Inr (res, y) \<Rightarrow>
               if \<not> res then Some (Inl SqrtOverflow)
               else if UINT64_MAX - x \<le> y
                    then sqrt_loop R (ucast ((1 + ucast x + ucast y :: uint128) div 2)) x
                    else sqrt_loop R ((x + y + 1) div 2) x)"

definition bigSquareRootCeil :: "uint64 \<Rightarrow> uint64 \<Rightarrow> (num_error + uint64) option" where
  "bigSquareRootCeil a b =
     (if a = 0 \<or> b = 0 then Some (Inr 0)
      else let R = bigMultiplyUnsigned a b - 1;
               numBits = uint128_bits R div 2 + 1;
               x = (if numBits \<ge> 64 then UINT64_MAX else push_bit numBits 1)
           in sqrt_loop R x 0)"

definition bigSquareRoot :: "uint64 \<Rightarrow> uint64 \<Rightarrow> (num_error + uint64) option" where
  "bigSquareRoot a b =
     (case bigSquareRootCeil a b of
        None \<Rightarrow> None
      | Some (Inl e) \<Rightarrow> Some (Inl e)
      | Some (Inr sqrtCeil) \<Rightarrow>
          if bigMultiplyUnsigned sqrtCeil sqrtCeil \<le> bigMultiplyUnsigned a b
          then Some (Inr sqrtCeil)
          else Some (Inr (sqrtCeil - 1)))"

definition hugeDivide ::
  "int \<Rightarrow> int \<Rightarrow> uint128 \<Rightarrow> uint128 \<Rightarrow> rounding \<Rightarrow> num_error + (bool \<times> int)" where
  "hugeDivide r0 a B C rounding =
     (let i32_max = (word_of_int INT32_MAX :: uint128);
          i64_max = (word_of_int INT64_MAX :: uint128) in
      if \<not> a \<ge> 0 then Inl AssertThrow
      else if C = 0 then Inl AssertThrow
      else if \<not> C \<le> i32_max * i64_max then Inl AssertThrow
      else let Q = B div C; R = B mod C in
        if Q > i64_max then Inr (False, r0)
        else let A = (word_of_int a :: uint128);
                 res = (if rounding = ROUND_DOWN then A * Q + A * R div C
                        else A * Q + (A * R + C - 1) div C)
             in if res \<le> i64_max then Inr (True, sint (ucast res :: uint64))
                else Inr (False, r0))"

section \<open>Exactness of the divisions\<close>

text \<open>The mathematical quotient each routine is meant to compute.\<close>

definition div_round :: "rounding \<Rightarrow> nat \<Rightarrow> nat \<Rightarrow> nat" where
  "div_round r n d = (if r = ROUND_DOWN then n div d else (n + d - 1) div d)"

lemma unat_ucast_64_128 [simp]: "unat (ucast (x :: uint64) :: uint128) = unat x"
proof -
  have "unat x < 2 ^ 128"
    using unsigned_less [where 'a = nat, of x] by simp
  then show ?thesis
    by (simp add: unsigned_ucast_eq take_bit_eq_mod)
qed

lemma unat64_less: "unat (x :: uint64) < 2 ^ 64"
  using unsigned_less [where 'a = nat, of x] by simp

lemma unat128_less: "unat (x :: uint128) < 2 ^ 128"
  using unsigned_less [where 'a = nat, of x] by simp

lemma unat64_le: "unat (x :: uint64) \<le> 2 ^ 64 - 1"
  using unat64_less [of x] by linarith

lemma prod64_le: "unat (a :: uint64) * unat (b :: uint64) \<le> (2 ^ 64 - 1) * (2 ^ 64 - 1)"
  by (intro mult_le_mono unat64_le)

lemma unat_bigMultiplyUnsigned [simp]: "unat (bigMultiplyUnsigned a b) = unat a * unat b"
proof -
  have "unat a * unat b < 2 ^ 128"
    using prod64_le [of a b] by simp
  then show ?thesis
    by (simp add: bigMultiplyUnsigned_def unat_word_ariths)
qed

lemma unat_uint64_max: "unat UINT64_MAX = 2 ^ 64 - 1"
  by (simp add: unsigned_minus_1_eq_mask mask_eq_exp_minus_1)

lemma le_uint64_max_iff: "(x :: uint128) \<le> ucast UINT64_MAX \<longleftrightarrow> unat x < 2 ^ 64"
proof -
  have "unat x \<le> 2 ^ 64 - 1 \<longleftrightarrow> unat x < 2 ^ 64" by (rule iffI; simp)
  then show ?thesis by (simp only: word_le_nat_alt unat_ucast_64_128 unat_uint64_max)
qed

lemma unat_ucast_128_64: "unat (x :: uint128) < 2 ^ 64 \<Longrightarrow> unat (ucast x :: uint64) = unat x"
  by (simp add: unsigned_ucast_eq take_bit_eq_mod)

lemma ucast_128_64: "(ucast (x :: uint128) :: uint64) = of_nat (unat x)"
  by (rule word_unat_eq_iff [THEN iffD2])
    (simp add: unsigned_ucast_eq unat_of_nat take_bit_eq_mod)

text \<open>The 128-bit intermediate values never wrap.\<close>

lemma unat_ceil_numerator:
  assumes "unat n + unat c < 2 ^ 128" and "(c :: uint128) \<noteq> 0"
  shows "unat (n + c - 1) = unat n + unat c - 1"
proof -
  have c: "1 \<le> unat c"
    using assms(2) by (simp add: unat_gt_0 Suc_leI)
  have add: "unat (n + c) = unat n + unat c"
    using assms(1) by (simp add: unat_word_ariths)
  have "unat (n + c - 1) = unat (n + c) - 1"
    by (rule unat_minus_one) (use add c in \<open>auto simp flip: unat_gt_0\<close>)
  with add show ?thesis by simp
qed

lemma bigDivideUnsigned_spec:
  assumes "C > 0"
  shows "bigDivideUnsigned A B C r =
    Inr (div_round r (unat A * unat B) (unat C) < 2 ^ 64,
         of_nat (div_round r (unat A * unat B) (unat C)))"
proof -
  let ?p = "ucast A * ucast B :: uint128" and ?c = "ucast C :: uint128"
  have p: "unat ?p = unat A * unat B"
    using unat_bigMultiplyUnsigned [of A B] by (simp add: bigMultiplyUnsigned_def)
  have c: "?c \<noteq> 0"
    using assms unat_ucast_64_128 [of C] by (metis unat_0 unat_0_iff word_less_nat_alt less_irrefl)
  have "unat ?p + unat ?c < 2 ^ 128"
    using p prod64_le [of A B] unat64_less [of C] by simp
  then have up: "unat (?p + ?c - 1) = unat A * unat B + unat C - 1"
    using unat_ceil_numerator [OF _ c] p by simp
  have down: "unat (?p div ?c) = unat A * unat B div unat C"
    by (simp only: unat_div p unat_ucast_64_128)
  have "unat ((?p + ?c - 1) div ?c) = (unat A * unat B + unat C - 1) div unat C"
    by (simp only: unat_div up unat_ucast_64_128)
  with down show ?thesis
    using assms unfolding bigDivideUnsigned_def div_round_def Let_def
    by (cases r) (simp_all only: le_uint64_max_iff ucast_128_64 if_True if_False
        rounding.distinct simp_thms)
qed

lemma unat_word_of_int64:
  "0 \<le> A \<Longrightarrow> A < 2 ^ 64 \<Longrightarrow> unat (word_of_int A :: uint64) = nat A"
  by (simp add: unat_eq_nat_uint uint_word_of_int_eq take_bit_int_eq_self)

lemma unat_int64_max: "unat (word_of_int INT64_MAX :: uint64) = 2 ^ 63 - 1"
proof -
  have "unat (word_of_int INT64_MAX :: uint64) = nat INT64_MAX"
    by (rule unat_word_of_int64) (simp_all add: INT64_MAX_def)
  also have "\<dots> = 2 ^ 63 - 1"
    by (simp add: INT64_MAX_def)
  finally show ?thesis .
qed

lemma le_int64_max_iff:
  "(x :: uint64) \<le> word_of_int INT64_MAX \<longleftrightarrow> int (unat x) \<le> INT64_MAX"
proof -
  have "int (2 ^ 63 - 1) = INT64_MAX" by (simp add: INT64_MAX_def)
  then show ?thesis unfolding word_le_nat_alt unat_int64_max by (metis of_nat_le_iff)
qed

lemma sint_small:
  assumes "int (unat (x :: uint64)) \<le> INT64_MAX"
  shows "sint x = int (unat x)"
proof -
  have "uint x < 2 ^ 63"
    using assms unfolding INT64_MAX_def uint_nat by linarith
  moreover have "- (2 ^ 63) \<le> uint x"
    by (rule order_trans [OF _ uint_ge_0]) simp
  ultimately have "signed_take_bit 63 (uint x) = uint x"
    by (intro signed_take_bit_int_eq_self)
  moreover have "sint x = signed_take_bit 63 (uint x)"
    unfolding sint_uint by (simp only: len_of_numeral_defs) simp
  ultimately show ?thesis by (simp only: uint_nat)
qed

lemma unat_of_nat64: "n < 2 ^ 64 \<Longrightarrow> unat (of_nat n :: uint64) = n"
  unfolding unat_of_nat by (simp only: len_of_numeral_defs) simp

text \<open>A signed result is accepted exactly when the true quotient fits in 63 bits, and is then
  that quotient.\<close>

definition fits_int64 :: "nat \<Rightarrow> bool" where
  "fits_int64 q \<longleftrightarrow> int q \<le> INT64_MAX"

lemma fits_int64_64: "fits_int64 q \<Longrightarrow> q < 2 ^ 64"
  by (simp add: fits_int64_def INT64_MAX_def)

lemma signed_result:
  assumes "r = Inr (q < 2 ^ 64, of_nat q :: uint64)"
  shows "\<exists>v. seq r (\<lambda>(res, r2). if res then Inr (r2 \<le> word_of_int INT64_MAX, sint r2)
                               else Inr (False, r0)) = Inr (fits_int64 q, v)
             \<and> (fits_int64 q \<longrightarrow> v = int q)"
proof (cases "q < 2 ^ 64")
  case True
  have q: "unat (of_nat q :: uint64) = q" using True by (rule unat_of_nat64)
  have "(of_nat q :: uint64) \<le> word_of_int INT64_MAX \<longleftrightarrow> fits_int64 q"
    unfolding le_int64_max_iff fits_int64_def q ..
  moreover have "sint (of_nat q :: uint64) = int q" if "fits_int64 q"
    using sint_small [of "of_nat q"] that unfolding q fits_int64_def by simp
  ultimately show ?thesis using True assms by auto
next
  case False
  with fits_int64_64 [of q] assms show ?thesis by auto
qed

lemma bigDivide_spec:
  fixes r
  assumes "0 \<le> A" "A \<le> INT64_MAX" "0 \<le> B" "B \<le> INT64_MAX" "0 < C" "C \<le> INT64_MAX"
  defines "q \<equiv> div_round r (nat A * nat B) (nat C)"
  shows "\<exists>v. bigDivide r0 A B C r = Inr (fits_int64 q, v) \<and> (fits_int64 q \<longrightarrow> v = int q)"
proof -
  have u: "unat (word_of_int A :: uint64) = nat A" "unat (word_of_int B :: uint64) = nat B"
    "unat (word_of_int C :: uint64) = nat C"
    using assms by (simp_all add: unat_word_of_int64 INT64_MAX_def)
  have "(0 :: uint64) < word_of_int C"
    unfolding word_less_nat_alt u using assms by simp
  from bigDivideUnsigned_spec [OF this, of "word_of_int A" "word_of_int B" r]
  have "bigDivideUnsigned (word_of_int A) (word_of_int B) (word_of_int C) r
          = Inr (q < 2 ^ 64, of_nat q)"
    unfolding u q_def .
  from signed_result [OF this, of r0] show ?thesis
    using assms(1,3,5) unfolding bigDivide_def by simp
qed

lemma bigDivideUnsigned128_spec:
  fixes a :: uint128 and r
  assumes "B \<noteq> 0"
  defines "q \<equiv> div_round r (unat a) (unat B)"
  shows "\<exists>v. bigDivideUnsigned128 r0 a B r = Inr (q < 2 ^ 64, v) \<and> (q < 2 ^ 64 \<longrightarrow> v = of_nat q)"
proof -
  let ?b = "ucast B :: uint128"
  have b0: "?b \<noteq> 0" and B1: "1 \<le> unat B"
    using assms unat_ucast_64_128 [of B] by (metis unat_0 unat_0_iff, simp add: unat_gt_0 Suc_leI)
  have b1: "unat (?b - 1) = unat B - 1"
    using unat_minus_one [OF b0] by simp
  have m1: "unat (- 1 :: uint128) = 2 ^ 128 - 1"
    by (simp add: unsigned_minus_1_eq_mask mask_eq_exp_minus_1)
  have "?b - 1 \<le> - 1"
    by (rule word_order.extremum)
  from unat_sub [OF this] have lim: "unat (- 1 - (?b - 1)) = 2 ^ 128 - 1 - (unat B - 1)"
    by (simp only: b1 m1)
  show ?thesis
  proof (cases "r = ROUND_UP \<and> a > - 1 - (?b - 1)")
    case True
    then have big: "2 ^ 128 - 1 - (unat B - 1) < unat a"
      unfolding word_less_nat_alt lim by simp
    have "2 ^ 64 * unat B \<le> unat a + unat B - 1"
    proof -
      have "2 ^ 64 * unat B \<le> 2 ^ 64 * (2 ^ 64 - 1)"
        by (intro mult_le_mono2 unat64_le)
      also have "\<dots> \<le> unat a + unat B - 1"
        using big B1 by simp
      finally show ?thesis .
    qed
    then have "2 ^ 64 \<le> (unat a + unat B - 1) div unat B"
      using B1 by (simp add: less_eq_div_iff_mult_less_eq)
    with True assms(1) show ?thesis
      unfolding bigDivideUnsigned128_def q_def div_round_def Let_def by simp
  next
    case False
    have up: "unat (a + ?b - 1) = unat a + unat B - 1" if "r = ROUND_UP"
    proof -
      have "unat a \<le> 2 ^ 128 - 1 - (unat B - 1)"
        using False that unfolding word_less_nat_alt lim by simp
      then have "unat a + unat (?b - 1) < 2 ^ 128"
        unfolding b1 using B1 unat64_less [of B] by simp
      then have "unat (a + (?b - 1)) = unat a + (unat B - 1)"
        using b1 by (simp add: unat_word_ariths)
      moreover have "a + ?b - 1 = a + (?b - 1)" by (rule add_diff_eq [symmetric])
      ultimately show ?thesis using B1 by (simp only: add_diff_assoc)
    qed
    have "bigDivideUnsigned128 r0 a B r = Inr (q < 2 ^ 64, of_nat q)"
    proof (cases r)
      case ROUND_DOWN
      have "unat (a div ?b) = q"
        by (simp only: unat_div q_def div_round_def ROUND_DOWN unat_ucast_64_128 simp_thms if_True)
      then show ?thesis
        using assms(1) False ROUND_DOWN unfolding bigDivideUnsigned128_def Let_def
        by (simp only: le_uint64_max_iff ucast_128_64 simp_thms if_False if_True rounding.distinct)
    next
      case ROUND_UP
      have "unat ((a + ?b - 1) div ?b) = q"
        using up [OF ROUND_UP]
        by (simp only: unat_div q_def div_round_def ROUND_UP unat_ucast_64_128 simp_thms if_False
            rounding.distinct)
      then show ?thesis
        using assms(1) False ROUND_UP unfolding bigDivideUnsigned128_def Let_def
        by (simp only: le_uint64_max_iff ucast_128_64 simp_thms if_False if_True rounding.distinct)
    qed
    then show ?thesis by blast
  qed
qed

section \<open>The integer square root\<close>

text \<open>One Babylonian step on natural numbers.\<close>

definition sqrt_step :: "nat \<Rightarrow> nat \<Rightarrow> nat" where
  "sqrt_step R x = (x + (R + x - 1) div x + 1) div 2"

lemma ceil_div_mult:
  assumes "0 < (x :: nat)"
  shows "R \<le> x * ((R + x - 1) div x)"
proof -
  have "R + x - 1 < x * ((R + x - 1) div x) + x"
    using assms by (metis div_mult_mod_eq mod_less_divisor mult.commute nat_add_left_cancel_less)
  then show ?thesis using assms by linarith
qed

lemma ceil_div_le:
  assumes "0 < (x :: nat)" and "R \<le> x * k"
  shows "(R + x - 1) div x \<le> k"
proof -
  have "R + x - 1 < (k + 1) * x"
    using assms by (simp add: algebra_simps)
  then have "(R + x - 1) div x < k + 1"
    by (rule less_mult_imp_div_less)
  then show ?thesis by simp
qed

lemma ceil_div_ge:
  assumes "0 < (x :: nat)" and "k \<le> (R + x - 1) div x"
  shows "x * k \<le> R + x - 1"
  using assms by (metis div_mult_mod_eq le_add1 le_trans mult.commute mult_le_mono2)

lemma sqrt_step_lower:
  assumes x: "0 < x" and R: "R < x * x"
  shows "R < sqrt_step R x * sqrt_step R x"
proof -
  define y where "y = (R + x - 1) div x"
  define z where "z = sqrt_step R x"
  have xy: "R \<le> x * y" unfolding y_def using x by (rule ceil_div_mult)
  have z: "x + y \<le> 2 * z" unfolding z_def sqrt_step_def y_def by linarith
  show ?thesis
  proof (cases "x = y")
    case True
    then have "x * x \<le> z * z" using z by (intro mult_le_mono) auto
    with R show ?thesis unfolding z_def by simp
  next
    case False
    have "0 < (int x - int y) * (int x - int y)" using False by (auto simp: zero_less_mult_iff)
    then have "int (4 * (x * y)) < int ((x + y) * (x + y))"
      by (simp add: algebra_simps)
    then have "4 * (x * y) < (x + y) * (x + y)" by (simp only: of_nat_less_iff)
    also have "\<dots> \<le> (2 * z) * (2 * z)" using z by (intro mult_le_mono)
    finally show ?thesis using xy unfolding z_def by simp
  qed
qed

lemma sqrt_step_upper:
  assumes x: "0 < x" and R: "R < x * x"
  shows "(R + x - 1) div x \<le> x" and "sqrt_step R x \<le> x"
proof -
  show y: "(R + x - 1) div x \<le> x" using x R by (intro ceil_div_le) auto
  then show "sqrt_step R x \<le> x" unfolding sqrt_step_def by linarith
qed

lemma sqrt_step_fix:
  assumes x: "0 < x" and fp: "sqrt_step R x = x"
  shows "(x - 1) * (x - 1) \<le> R"
proof -
  have "x - 1 \<le> (R + x - 1) div x" using fp unfolding sqrt_step_def by linarith
  from ceil_div_ge [OF x this] have le: "x * (x - 1) \<le> R + x - 1" .
  obtain k where k: "x = Suc k" using x by (cases x) auto
  show ?thesis using le unfolding k by simp
qed

lemma unat_2_128: "unat (2 :: uint128) = 2"
  by simp

lemma sqrt_loop_step:
  assumes x: "0 < unat x" and R: "unat R < unat x * unat x" and ne: "x \<noteq> prev"
  shows "\<exists>x'. sqrt_loop R x prev = sqrt_loop R x' x \<and> unat x' = sqrt_step (unat R) (unat x)"
proof -
  define y where "y = (unat R + unat x - 1) div unat x"
  have yx: "y \<le> unat x" unfolding y_def using x R by (rule sqrt_step_upper)
  then have y64: "y < 2 ^ 64" using unat64_less [of x] by linarith
  have x0: "x \<noteq> 0" using x by (simp add: unat_gt_0)
  have "div_round ROUND_UP (unat R) (unat x) = y"
    unfolding div_round_def y_def by simp
  with bigDivideUnsigned128_spec [OF x0, of 0 R ROUND_UP] y64
  have q: "bigDivideUnsigned128 0 R x ROUND_UP = Inr (True, of_nat y)" by auto
  let ?y = "of_nat y :: uint64"
  have uy: "unat ?y = y" using y64 by (rule unat_of_nat64)
  have sum: "sqrt_step (unat R) (unat x) = (unat x + y + 1) div 2"
    unfolding sqrt_step_def y_def ..
  have "?y \<le> - 1" "x \<le> - 1" by (rule word_order.extremum)+
  then have gap: "UINT64_MAX - x \<le> ?y \<longleftrightarrow> 2 ^ 64 - 1 - unat x \<le> y"
    by (simp only: word_le_nat_alt unat_sub unat_uint64_max uy)
  show ?thesis
  proof (cases "UINT64_MAX - x \<le> ?y")
    case True
    let ?t = "1 + ucast x + ucast ?y :: uint128"
    have "unat ?t = 1 + unat x + y"
      using unat64_less [of x] y64
      by (simp add: unat_word_ariths uy del: unat_of_nat)
    then have t: "unat (?t div 2) = (unat x + y + 1) div 2"
      by (simp only: unat_div unat_2_128 ac_simps)
    have "unat (?t div 2) < 2 ^ 64"
      unfolding t using unat64_less [of x] y64 by simp
    then have "unat (ucast (?t div 2) :: uint64) = sqrt_step (unat R) (unat x)"
      unfolding sum by (subst unat_ucast_128_64) (use t in simp_all)
    with q True ne show ?thesis
      by (subst sqrt_loop.simps) auto
  next
    case False
    then have lt: "unat x + y + 1 < 2 ^ 64" unfolding gap by linarith
    have "unat (x + ?y + 1) = unat x + y + 1"
      using lt by (simp add: unat_word_ariths uy del: unat_of_nat)
    then have "unat ((x + ?y + 1) div 2) = sqrt_step (unat R) (unat x)"
      unfolding sum by (simp add: unat_div)
    with q False ne show ?thesis
      by (subst sqrt_loop.simps) auto
  qed
qed

text \<open>The loop returns: from any seed at or above the root the iterates decrease strictly until
  they stop at the least \<open>z\<close> with \<open>R < z * z\<close>.\<close>

lemma sqrt_loop_returns:
  assumes "0 < unat x" and "unat R < unat x * unat x"
    and "x = prev \<Longrightarrow> (unat x - 1) * (unat x - 1) \<le> unat R"
  shows "\<exists>z. sqrt_loop R x prev = Some (Inr z)
     \<and> (unat z - 1) * (unat z - 1) \<le> unat R \<and> unat R < unat z * unat z"
  using assms
proof (induction "unat x" arbitrary: x prev rule: less_induct)
  case less
  show ?case
  proof (cases "x = prev")
    case True
    with less.prems show ?thesis by (subst sqrt_loop.simps) auto
  next
    case False
    obtain x' where x': "sqrt_loop R x prev = sqrt_loop R x' x"
      and ux: "unat x' = sqrt_step (unat R) (unat x)"
      using sqrt_loop_step [OF less.prems(1,2) False] by blast
    have le: "unat x' \<le> unat x"
      unfolding ux using less.prems(1,2) by (rule sqrt_step_upper)
    have lower: "unat R < unat x' * unat x'"
      unfolding ux using less.prems(1,2) by (rule sqrt_step_lower)
    show ?thesis
    proof (cases "unat x' = unat x")
      case True
      then have eq: "x' = x" by (simp add: word_unat_eq_iff)
      have "(unat x - 1) * (unat x - 1) \<le> unat R"
        by (rule sqrt_step_fix [OF less.prems(1)]) (use ux True in simp)
      with less.prems(2) show ?thesis
        unfolding x' eq by (subst sqrt_loop.simps) auto
    next
      case False
      with le have "unat x' < unat x" by simp
      moreover have "0 < unat x'" using lower by (cases "unat x'") auto
      ultimately show ?thesis
        unfolding x' using lower False by (intro less.hyps) auto
    qed
  qed
qed

lemma bit_length_bound: "n < 2 ^ bit_length n"
proof (induction n rule: bit_length.induct)
  case (1 n)
  show ?case
  proof (cases "n = 0")
    case False
    with 1 have "n div 2 < 2 ^ bit_length (n div 2)" by simp
    then have "n < 2 * 2 ^ bit_length (n div 2)" by linarith
    with False show ?thesis by (subst bit_length.simps) simp
  qed (simp add: bit_length.simps)
qed

lemma uint128_bits_bound: "unat x < 2 ^ uint128_bits x"
proof -
  define hi where "hi = (ucast (drop_bit 64 x) :: uint64)"
  define lo where "lo = (ucast x :: uint64)"
  have "unat (drop_bit 64 x) = unat x div 2 ^ 64"
    unfolding unat_drop_bit_eq by (rule drop_bit_eq_div)
  moreover have "unat x div 2 ^ 64 < 2 ^ 64"
    by (rule less_mult_imp_div_less) (use unat128_less [of x] in simp)
  ultimately have hi: "unat hi = unat x div 2 ^ 64"
    unfolding hi_def by (subst unat_ucast_128_64) auto
  have lo: "unat lo = unat x mod 2 ^ 64"
    unfolding lo_def ucast_128_64 unat_of_nat by (simp only: len_of_numeral_defs) simp
  have split: "unat x = 2 ^ 64 * unat hi + unat lo"
    unfolding hi lo by (rule mult_div_mod_eq [symmetric])
  show ?thesis
  proof (cases "hi = 0")
    case True
    then have eq: "unat x = unat lo" using split by simp
    show ?thesis
    proof (cases "lo = 0")
      case False
      with True show ?thesis
        unfolding uint128_bits_def Let_def hi_def [symmetric] lo_def [symmetric] eq
        using bit_length_bound [of "unat lo"] by simp
    qed (use eq in simp)
  next
    case False
    have "unat x < 2 ^ 64 * (unat hi + 1)"
      unfolding split using unat64_less [of lo] by simp
    also have "\<dots> \<le> 2 ^ 64 * 2 ^ bit_length (unat hi)"
      by (intro mult_le_mono2) (use bit_length_bound [of "unat hi"] in simp)
    also have "\<dots> = 2 ^ (64 + bit_length (unat hi))" by (rule power_add [symmetric])
    finally show ?thesis
      using False unfolding uint128_bits_def Let_def hi_def [symmetric] by simp
  qed
qed

lemma bigSquareRootCeil_exact:
  assumes "a \<noteq> 0" "b \<noteq> 0"
  shows "\<exists>z. bigSquareRootCeil a b = Some (Inr z)
     \<and> (unat z - 1) * (unat z - 1) < unat a * unat b \<and> unat a * unat b \<le> unat z * unat z"
proof -
  define R where "R = bigMultiplyUnsigned a b - 1"
  have ab: "0 < unat a * unat b" using assms by (simp add: unat_gt_0)
  have "bigMultiplyUnsigned a b \<noteq> 0"
    using ab unat_bigMultiplyUnsigned [of a b] by (metis less_irrefl unat_0)
  from unat_minus_one [OF this] have R: "unat R = unat a * unat b - 1"
    unfolding R_def by (simp only: unat_bigMultiplyUnsigned)
  define n where "n = uint128_bits R div 2 + 1"
  define x where "x = (if n \<ge> 64 then UINT64_MAX else push_bit n 1 :: uint64)"
  have seed: "0 < unat x \<and> unat R < unat x * unat x"
  proof (cases "n \<ge> 64")
    case True
    then have "unat x = 2 ^ 64 - 1" unfolding x_def by (simp only: if_True unat_uint64_max)
    moreover have "unat R < (2 ^ 64 - 1) * (2 ^ 64 - 1)"
      using R ab prod64_le [of a b] by linarith
    ultimately show ?thesis by simp
  next
    case False
    have "(2 :: nat) ^ n < 2 ^ 64" by (rule power_strict_increasing) (use False in simp_all)
    then have x: "unat x = 2 ^ n"
      using False unat_of_nat64 [of "2 ^ n"] unfolding x_def by (simp add: push_bit_eq_mult)
    have "unat R < 2 ^ uint128_bits R" by (rule uint128_bits_bound)
    also have "\<dots> \<le> 2 ^ (n + n)" by (rule power_increasing) (auto simp: n_def)
    finally show ?thesis unfolding x by (simp add: power_add)
  qed
  then have "x \<noteq> 0" by auto
  with seed have "\<exists>z. sqrt_loop R x 0 = Some (Inr z)
     \<and> (unat z - 1) * (unat z - 1) \<le> unat R \<and> unat R < unat z * unat z"
    by (intro sqrt_loop_returns) simp_all
  then obtain z where z: "sqrt_loop R x 0 = Some (Inr z)"
      "(unat z - 1) * (unat z - 1) \<le> unat R" "unat R < unat z * unat z"
    by blast
  have "bigSquareRootCeil a b = sqrt_loop R x 0"
    using assms unfolding bigSquareRootCeil_def Let_def R_def [symmetric] n_def [symmetric]
      x_def [symmetric] by simp
  with z(1) have "bigSquareRootCeil a b = Some (Inr z)" by simp
  moreover have "(unat z - 1) * (unat z - 1) < unat a * unat b" "unat a * unat b \<le> unat z * unat z"
    using z(2,3) R ab by linarith+
  ultimately show ?thesis by auto
qed

lemma bigSquareRoot_spec:
  "\<exists>x. bigSquareRoot a b = Some (Inr x)
     \<and> unat x * unat x \<le> unat a * unat b
     \<and> unat a * unat b < (unat x + 1) * (unat x + 1)"
proof (cases "a = 0 \<or> b = 0")
  case True
  then have "bigSquareRootCeil a b = Some (Inr 0)" by (simp add: bigSquareRootCeil_def)
  moreover have "bigMultiplyUnsigned 0 0 \<le> bigMultiplyUnsigned a b"
    by (simp add: word_le_nat_alt)
  ultimately show ?thesis using True by (auto simp: bigSquareRoot_def)
next
  case False
  then obtain z where z: "bigSquareRootCeil a b = Some (Inr z)"
    and lo: "(unat z - 1) * (unat z - 1) < unat a * unat b"
    and hi: "unat a * unat b \<le> unat z * unat z"
    using bigSquareRootCeil_exact [of a b] by auto
  show ?thesis
  proof (cases "unat z * unat z \<le> unat a * unat b")
    case True
    with z hi show ?thesis by (auto simp: bigSquareRoot_def word_le_nat_alt)
  next
    case F: False
    then have "z \<noteq> 0" by auto
    then have pred: "unat (z - 1) = unat z - 1" and "0 < unat z"
      by (simp_all add: unat_minus_one unat_gt_0)
    then have "unat z - 1 + 1 = unat z" by simp
    with lo hi F have "unat (z - 1) * unat (z - 1) \<le> unat a * unat b"
      "unat a * unat b < (unat (z - 1) + 1) * (unat (z - 1) + 1)"
      unfolding pred by simp_all
    moreover have "bigSquareRoot a b = Some (Inr (z - 1))"
      using z F by (simp add: bigSquareRoot_def word_le_nat_alt)
    ultimately show ?thesis by blast
  qed
qed

section \<open>hugeDivide\<close>

lemma unat_word_of_int128:
  "0 \<le> A \<Longrightarrow> A < 2 ^ 128 \<Longrightarrow> unat (word_of_int A :: uint128) = nat A"
  by (simp add: unat_eq_nat_uint uint_word_of_int_eq take_bit_int_eq_self)

lemma unat_i64_max_128: "unat (word_of_int INT64_MAX :: uint128) = 2 ^ 63 - 1"
  using unat_word_of_int128 [of INT64_MAX] by (simp add: INT64_MAX_def)

lemma unat_i32_max_128: "unat (word_of_int INT32_MAX :: uint128) = 2 ^ 31 - 1"
  using unat_word_of_int128 [of INT32_MAX] by (simp add: INT32_MAX_def)

lemma unat_huge_limit:
  "unat (word_of_int INT32_MAX * word_of_int INT64_MAX :: uint128) = (2 ^ 31 - 1) * (2 ^ 63 - 1)"
  by (simp add: unat_word_ariths unat_i32_max_128 unat_i64_max_128)

lemma div_round_remainder:
  assumes "0 < (c :: nat)"
  shows "div_round r (a * b) c = a * (b div c) + div_round r (a * (b mod c)) c"
proof -
  have "a * b = a * (b mod c) + (a * (b div c)) * c"
    by (metis add.commute div_mult_mod_eq distrib_left mult.assoc)
  moreover have "(a * (b mod c) + (a * (b div c)) * c) + c - 1
      = (a * (b mod c) + c - 1) + (a * (b div c)) * c"
    using assms by simp
  ultimately show ?thesis
    using assms unfolding div_round_def by (simp only: div_mult_self1 if_distrib) auto
qed

lemma fits_int64_nat: "fits_int64 q \<longleftrightarrow> q \<le> 2 ^ 63 - 1"
proof -
  have "int (2 ^ 63 - 1) = INT64_MAX" by (simp add: INT64_MAX_def)
  then show ?thesis unfolding fits_int64_def by (metis of_nat_le_iff)
qed

lemma unat_huge_result:
  assumes a: "unat A \<le> 2 ^ 31 - 1" and q: "unat Q \<le> 2 ^ 63 - 1"
    and c: "(C :: uint128) \<noteq> 0" "unat C \<le> (2 ^ 31 - 1) * (2 ^ 63 - 1)" and r: "unat R < unat C"
  shows "unat (if rnd = ROUND_DOWN then A * Q + A * R div C else A * Q + (A * R + C - 1) div C)
    = unat A * unat Q + div_round rnd (unat A * unat R) (unat C)"
proof -
  have aq: "unat A * unat Q \<le> (2 ^ 31 - 1) * (2 ^ 63 - 1)" using a q by (intro mult_le_mono)
  have ar: "unat A * unat R \<le> (2 ^ 31 - 1) * ((2 ^ 31 - 1) * (2 ^ 63 - 1))"
    using a c r by (intro mult_le_mono) auto
  have AQ: "unat (A * Q) = unat A * unat Q" and AR: "unat (A * R) = unat A * unat R"
    using aq ar by (simp_all add: unat_word_ariths)
  have n: "unat (A * R + C - 1) = unat A * unat R + unat C - 1"
    using unat_ceil_numerator [of "A * R" C] c ar unfolding AR by simp
  have d: "unat (A * R div C) = div_round ROUND_DOWN (unat A * unat R) (unat C)"
    "unat ((A * R + C - 1) div C) = div_round ROUND_UP (unat A * unat R) (unat C)"
    by (simp_all only: unat_div AR n div_round_def rounding.distinct if_True if_False simp_thms)
  have "x div unat C \<le> y" if "x \<le> y" for x y
    using order_trans [OF div_le_dividend that] .
  then have "div_round rnd (unat A * unat R) (unat C) \<le> unat A * unat R + unat C"
    unfolding div_round_def by (simp split: if_split)
  then have sum: "unat A * unat Q + div_round rnd (unat A * unat R) (unat C) < 2 ^ 128"
    using aq ar c(2) by simp
  show ?thesis
  proof (cases rnd)
    case ROUND_DOWN
    with sum AQ d show ?thesis by (simp add: unat_word_ariths)
  next
    case ROUND_UP
    with sum AQ d show ?thesis by (simp add: unat_word_ariths)
  qed
qed

lemma hugeDivide_spec:
  fixes r and B :: uint128
  assumes a: "0 < a" "a \<le> INT32_MAX"
    and C: "C \<noteq> 0" "C \<le> word_of_int INT32_MAX * word_of_int INT64_MAX"
  defines "q \<equiv> div_round r (nat a * unat B) (unat C)"
  shows "\<exists>v. hugeDivide r0 a B C r = Inr (fits_int64 q, v) \<and> (fits_int64 q \<longrightarrow> v = int q)"
proof -
  define A where "A = (word_of_int a :: uint128)"
  have A: "unat A = nat a"
    unfolding A_def using a by (intro unat_word_of_int128) (auto simp: INT32_MAX_def)
  have a31: "unat A \<le> 2 ^ 31 - 1" unfolding A using a by (simp add: INT32_MAX_def)
  have c: "0 < unat C" "unat C \<le> (2 ^ 31 - 1) * (2 ^ 63 - 1)"
    using C by (simp_all only: word_le_nat_alt unat_huge_limit unat_gt_0 not_False_eq_True)
  have q: "q = nat a * (unat B div unat C) + div_round r (nat a * (unat B mod unat C)) (unat C)"
    unfolding q_def using c(1) by (rule div_round_remainder)
  have Q: "B div C > word_of_int INT64_MAX \<longleftrightarrow> 2 ^ 63 - 1 < unat B div unat C"
    by (simp only: word_less_nat_alt unat_i64_max_128 unat_div)
  show ?thesis
  proof (cases "B div C > word_of_int INT64_MAX")
    case True
    have "1 * (unat B div unat C) \<le> nat a * (unat B div unat C)"
      using a by (intro mult_le_mono1) simp
    then have "2 ^ 63 - 1 < q" unfolding q using True unfolding Q by linarith
    then have "\<not> fits_int64 q" unfolding fits_int64_nat by simp
    with True a C show ?thesis unfolding hugeDivide_def Let_def by simp
  next
    case False
    define res where "res = (if r = ROUND_DOWN then A * (B div C) + A * (B mod C) div C
       else A * (B div C) + (A * (B mod C) + C - 1) div C)"
    have "unat res = q"
      unfolding res_def q A [symmetric] unat_div [symmetric] unat_mod [symmetric]
    proof (rule unat_huge_result [OF a31 _ C(1) c(2)])
      show "unat (B div C) \<le> 2 ^ 63 - 1" using False unfolding Q unat_div by simp
      show "unat (B mod C) < unat C" using c(1) by (simp add: unat_mod)
    qed
    then have fit: "res \<le> word_of_int INT64_MAX \<longleftrightarrow> fits_int64 q"
      and low: "(ucast res :: uint64) = of_nat q"
      by (simp_all only: word_le_nat_alt unat_i64_max_128 fits_int64_nat ucast_128_64)
    have "sint (of_nat q :: uint64) = int q" if "fits_int64 q"
      using sint_small [of "of_nat q"] unat_of_nat64 [OF fits_int64_64 [OF that]] that
      unfolding fits_int64_def by simp
    moreover have "hugeDivide r0 a B C r =
       (if res \<le> word_of_int INT64_MAX then Inr (True, sint (ucast res :: uint64)) else Inr (False, r0))"
      using a C False unfolding hugeDivide_def Let_def res_def A_def by simp
    ultimately show ?thesis unfolding fit low by auto
  qed
qed

section \<open>Properties\<close>

text \<open>C34: \<^verbatim>\<open>bigDivide\<close> on non-negative 64-bit inputs never wraps: it reports success exactly
  when the true quotient \<open>A * B / C\<close>, rounded as asked, fits in an \<^verbatim>\<open>int64_t\<close>, and the result
  it stores is then that quotient.\<close>

theorem bigDivide_exact:
  assumes "0 \<le> A" "A \<le> INT64_MAX" "0 \<le> B" "B \<le> INT64_MAX" "0 < C" "C \<le> INT64_MAX"
  shows "\<exists>v. bigDivide r0 A B C r = Inr (fits_int64 (div_round r (nat A * nat B) (nat C)), v)
    \<and> (fits_int64 (div_round r (nat A * nat B) (nat C)) \<longrightarrow>
         v = int (div_round r (nat A * nat B) (nat C)))"
  using assms by (rule bigDivide_spec)

theorem bigDivide_exact_witness:
  "\<exists>v. bigDivide 0 (2 ^ 40) (2 ^ 40) (2 ^ 20) ROUND_UP = Inr (True, v) \<and> v = 2 ^ 60"
  using bigDivide_exact [of "2 ^ 40" "2 ^ 40" "2 ^ 20" 0 ROUND_UP]
  by (simp add: INT64_MAX_def fits_int64_def div_round_def)

text \<open>C35: \<^verbatim>\<open>bigSquareRoot\<close> always returns, without an error, the integer square root of the
  128-bit product: the largest \<open>x\<close> with \<open>x * x \<le> a * b\<close>.\<close>

theorem bigSquareRoot_correct:
  "\<exists>x. bigSquareRoot a b = Some (Inr x)
     \<and> unat x * unat x \<le> unat a * unat b
     \<and> unat a * unat b < (unat x + 1) * (unat x + 1)"
  by (rule bigSquareRoot_spec)

text \<open>C36: for a positive 32-bit factor \<^verbatim>\<open>hugeDivide\<close> computes \<open>a * B / C\<close> exactly although the
  product may need more than 128 bits: it succeeds exactly when the rounded quotient fits in an
  \<^verbatim>\<open>int64_t\<close> and then stores it.\<close>

theorem hugeDivide_exact:
  assumes "0 < a" "a \<le> INT32_MAX" "C \<noteq> 0" "C \<le> word_of_int INT32_MAX * word_of_int INT64_MAX"
  shows "\<exists>v. hugeDivide r0 a B C r = Inr (fits_int64 (div_round r (nat a * unat B) (unat C)), v)
    \<and> (fits_int64 (div_round r (nat a * unat B) (unat C)) \<longrightarrow>
         v = int (div_round r (nat a * unat B) (unat C)))"
  using assms by (rule hugeDivide_spec)

theorem hugeDivide_exact_witness:
  "\<exists>v. hugeDivide 0 3 (2 ^ 100) (2 ^ 90) ROUND_UP = Inr (True, v) \<and> v = 3072"
  using hugeDivide_exact [of 3 "2 ^ 90" 0 "2 ^ 100" ROUND_UP]
  by (simp add: INT32_MAX_def INT64_MAX_def fits_int64_def div_round_def word_le_nat_alt)



end
