(* ===== verification/Local_Node.thy ===== *)
theory Local_Node
  imports Quorum_Sets Numeric
begin

text \<open>
  Quorum slices, v-blocking sets and quorums, \<^verbatim>\<open>scp/LocalNode.cpp\<close>.  The loops count their
  thresholds down in the code's own integer types: \<^typ>\<open>uint32\<close> in the slice test, an \<^verbatim>\<open>int\<close>
  in the v-blocking test, a \<^verbatim>\<open>size_t\<close> in \<^verbatim>\<open>findClosestVBlocking\<close>.
\<close>

section \<open>The local node object\<close>

definition buildSingletonQSet :: "node_id \<Rightarrow> scp_quorum_set" where
  "buildSingletonQSet n = SCPQuorumSet 1 [n] []"

definition getSingletonQSet :: "node_id \<Rightarrow> scp_quorum_set" where
  "getSingletonQSet n = buildSingletonQSet n"

text \<open>\<open>hashOf\<close> stands for \<^verbatim>\<open>driver.getHashOf({xdr::xdr_to_opaque(qSet)})\<close>.\<close>

definition new_LocalNode ::
  "(scp_quorum_set \<Rightarrow> hash) \<Rightarrow> node_id \<Rightarrow> bool \<Rightarrow> scp_quorum_set \<Rightarrow> local_node" where
  "new_LocalNode hashOf nodeID isValidator qSet =
     (let q = normalizeQSet qSet None; sq = buildSingletonQSet nodeID in
      \<lparr>mNodeID = nodeID, mIsValidator = isValidator, mQSet = q, mQSetHash = hashOf q,
       gSingleQSetHash = hashOf sq, mSingleQSet = sq\<rparr>)"

definition updateQuorumSet ::
  "(scp_quorum_set \<Rightarrow> hash) \<Rightarrow> scp_quorum_set \<Rightarrow> local_node \<Rightarrow> local_node" where
  "updateQuorumSet hashOf qSet ln = ln\<lparr>mQSetHash := hashOf qSet, mQSet := qSet\<rparr>"

section \<open>Visiting the nodes of a quorum set\<close>

text \<open>The callback may keep state (it captures by reference) and stops the walk by returning
  false.\<close>

fun forValidators :: "(node_id \<Rightarrow> 's \<Rightarrow> bool \<times> 's) \<Rightarrow> node_id list \<Rightarrow> 's \<Rightarrow> bool \<times> 's" where
  "forValidators proc [] s = (True, s)"
| "forValidators proc (n # ns) s =
     (let (ok, s') = proc n s in if \<not> ok then (False, s') else forValidators proc ns s')"

fun forAllNodes :: "(node_id \<Rightarrow> 's \<Rightarrow> bool \<times> 's) \<Rightarrow> scp_quorum_set \<Rightarrow> 's \<Rightarrow> bool \<times> 's"
  and forAllInner :: "(node_id \<Rightarrow> 's \<Rightarrow> bool \<times> 's) \<Rightarrow> scp_quorum_set list \<Rightarrow> 's \<Rightarrow> bool \<times> 's"
where
  "forAllNodes proc (SCPQuorumSet t v i) s =
     (let (ok, s') = forValidators proc v s in
      if \<not> ok then (False, s') else forAllInner proc i s')"
| "forAllInner proc [] s = (True, s)"
| "forAllInner proc (q # qs) s =
     (let (ok, s') = forAllNodes proc q s in
      if \<not> ok then (False, s') else forAllInner proc qs s')"

section \<open>Node weights\<close>

definition computeWeight :: "uint64 \<Rightarrow> uint64 \<Rightarrow> uint64 \<Rightarrow> num_error + uint64" where
  "computeWeight m tot thr =
     (if \<not> thr \<le> tot then Inl AssertThrow
      else seq (bigDivideUnsigned m thr tot ROUND_UP)
             (\<lambda>(noOverflow, res). if noOverflow then Inr res else Inl AssertThrow))"

fun getNodeWeight :: "node_id \<Rightarrow> scp_quorum_set \<Rightarrow> num_error + uint64"
  and getInnerWeight ::
    "node_id \<Rightarrow> scp_quorum_set list \<Rightarrow> uint64 \<Rightarrow> uint64 \<Rightarrow> num_error + uint64"
where
  "getNodeWeight nodeID (SCPQuorumSet t v i) =
     (let n = ucast t; d = of_nat (length i + length v) in
      if nodeID \<in> set v then computeWeight UINT64_MAX d n
      else getInnerWeight nodeID i d n)"
| "getInnerWeight nodeID [] d n = Inr 0"
| "getInnerWeight nodeID (q # qs) d n =
     seq (getNodeWeight nodeID q)
       (\<lambda>leafW. if leafW \<noteq> 0 then computeWeight leafW d n else getInnerWeight nodeID qs d n)"

section \<open>Quorum slices\<close>

text \<open>\<open>None\<close>: the loop returned true; \<open>Some t\<close>: it fell through with \<open>thresholdLeft = t\<close>.\<close>

fun sliceValidators :: "node_id list \<Rightarrow> node_id list \<Rightarrow> uint32 \<Rightarrow> uint32 option" where
  "sliceValidators nodeSet [] thresholdLeft = Some thresholdLeft"
| "sliceValidators nodeSet (v # vs) thresholdLeft =
     (if v \<in> set nodeSet
      then let t = thresholdLeft - 1 in if t \<le> 0 then None else sliceValidators nodeSet vs t
      else sliceValidators nodeSet vs thresholdLeft)"

fun isQuorumSliceInternal :: "node_id list \<Rightarrow> scp_quorum_set \<Rightarrow> bool"
  and sliceInner :: "node_id list \<Rightarrow> scp_quorum_set list \<Rightarrow> uint32 \<Rightarrow> bool"
where
  "isQuorumSliceInternal nodeSet (SCPQuorumSet t v i) =
     (case sliceValidators nodeSet v t of
        None \<Rightarrow> True
      | Some thresholdLeft \<Rightarrow> sliceInner nodeSet i thresholdLeft)"
| "sliceInner nodeSet [] thresholdLeft = False"
| "sliceInner nodeSet (q # qs) thresholdLeft =
     (if isQuorumSliceInternal nodeSet q
      then let t = thresholdLeft - 1 in if t \<le> 0 then True else sliceInner nodeSet qs t
      else sliceInner nodeSet qs thresholdLeft)"

definition isQuorumSlice :: "scp_quorum_set \<Rightarrow> node_id list \<Rightarrow> bool" where
  "isQuorumSlice qSet nodeSet = isQuorumSliceInternal nodeSet qSet"

section \<open>V-blocking sets\<close>

text \<open>\<^verbatim>\<open>(int)((1 + validators.size() + innerSets.size()) - threshold)\<close>: computed in 64-bit
  unsigned arithmetic, then truncated to a 32-bit \<^verbatim>\<open>int\<close>.\<close>

definition initialLeftTillBlock :: "uint32 \<Rightarrow> node_id list \<Rightarrow> scp_quorum_set list \<Rightarrow> int" where
  "initialLeftTillBlock t v i =
     sint (ucast ((1 + of_nat (length v) + of_nat (length i)) - ucast t :: uint64) :: uint32)"

fun blockValidators :: "node_id list \<Rightarrow> node_id list \<Rightarrow> int \<Rightarrow> int option" where
  "blockValidators nodeSet [] left = Some left"
| "blockValidators nodeSet (v # vs) left =
     (if v \<in> set nodeSet
      then let l = left - 1 in if l \<le> 0 then None else blockValidators nodeSet vs l
      else blockValidators nodeSet vs left)"

fun isVBlockingInternal :: "node_id list \<Rightarrow> scp_quorum_set \<Rightarrow> bool"
  and blockInner :: "node_id list \<Rightarrow> scp_quorum_set list \<Rightarrow> int \<Rightarrow> bool"
where
  "isVBlockingInternal nodeSet (SCPQuorumSet t v i) =
     (if t = 0 then False
      else case blockValidators nodeSet v (initialLeftTillBlock t v i) of
             None \<Rightarrow> True
           | Some left \<Rightarrow> blockInner nodeSet i left)"
| "blockInner nodeSet [] left = False"
| "blockInner nodeSet (q # qs) left =
     (if isVBlockingInternal nodeSet q
      then let l = left - 1 in if l \<le> 0 then True else blockInner nodeSet qs l
      else blockInner nodeSet qs left)"

definition isVBlocking :: "scp_quorum_set \<Rightarrow> node_id list \<Rightarrow> bool" where
  "isVBlocking qSet nodeSet = isVBlockingInternal nodeSet qSet"

section \<open>Tests over a map of envelopes\<close>

type_synonym 'p env_map = "(node_id, 'p envelope_of) smap"

definition filterNodes :: "'p env_map \<Rightarrow> ('p statement_of \<Rightarrow> bool) \<Rightarrow> node_id list" where
  "filterNodes m flt = map fst (filter (\<lambda>(n, e). flt (env_statement e)) m)"

definition isVBlocking_map ::
  "scp_quorum_set \<Rightarrow> 'p env_map \<Rightarrow> ('p statement_of \<Rightarrow> bool) \<Rightarrow> bool" where
  "isVBlocking_map qSet m flt = isVBlocking qSet (filterNodes m flt)"

text \<open>One pass of the do-while loop of \<^verbatim>\<open>isQuorum\<close> keeps the nodes whose own quorum set has a
  slice among the nodes still there.\<close>

definition quorumFilter ::
  "'p env_map \<Rightarrow> ('p statement_of \<Rightarrow> scp_quorum_set option) \<Rightarrow> node_id list \<Rightarrow> node_id \<Rightarrow> bool" where
  "quorumFilter m qfun pNodes nodeID =
     (case map_of m nodeID of
        None \<Rightarrow> False
      | Some e \<Rightarrow>
          (case qfun (env_statement e) of
             Some qSet \<Rightarrow> isQuorumSlice qSet pNodes
           | None \<Rightarrow> False))"

function quorumLoop ::
  "'p env_map \<Rightarrow> ('p statement_of \<Rightarrow> scp_quorum_set option) \<Rightarrow> node_id list \<Rightarrow> node_id list" where
  "quorumLoop m qfun pNodes =
     (let fNodes = filter (quorumFilter m qfun pNodes) pNodes in
      if length pNodes \<noteq> length fNodes then quorumLoop m qfun fNodes else fNodes)"
  by pat_completeness auto
termination
  by (relation "measure (\<lambda>(m, qfun, pNodes). length pNodes)")
    (auto simp: le_neq_implies_less)

declare quorumLoop.simps [simp del]

definition isQuorum ::
  "scp_quorum_set \<Rightarrow> 'p env_map \<Rightarrow> ('p statement_of \<Rightarrow> scp_quorum_set option) \<Rightarrow>
   ('p statement_of \<Rightarrow> bool) \<Rightarrow> bool" where
  "isQuorum qSet m qfun flt = isQuorumSlice qSet (quorumLoop m qfun (filterNodes m flt))"

section \<open>Distance to a v-blocking set\<close>

text \<open>The loop over the top-level validators: \<open>None\<close> when already blocked, otherwise the
  remaining count and the saved candidates.\<close>

fun closestValidators ::
  "node_id list \<Rightarrow> node_id option \<Rightarrow> node_id list \<Rightarrow> uint64 \<Rightarrow> node_id list \<Rightarrow>
   (uint64 \<times> node_id list) option" where
  "closestValidators nodes excluded [] left res = Some (left, res)"
| "closestValidators nodes excluded (v # vs) left res =
     (if excluded = Some v then closestValidators nodes excluded vs left res
      else if v \<notin> set nodes
           then let l = left - 1 in
                if l = 0 then None else closestValidators nodes excluded vs l res
           else closestValidators nodes excluded vs left (res @ [v]))"

text \<open>\<^verbatim>\<open>std::multiset<vector, orderBySize>::emplace\<close>: after the elements of the same size.\<close>

fun emplaceBySize :: "'a list \<Rightarrow> 'a list list \<Rightarrow> 'a list list" where
  "emplaceBySize v [] = [v]"
| "emplaceBySize v (w # ws) = (if length v < length w then v # w # ws else w # emplaceBySize v ws)"

fun takeClosest :: "uint64 \<Rightarrow> node_id list list \<Rightarrow> node_id list \<Rightarrow> node_id list" where
  "takeClosest left [] res = res"
| "takeClosest left (v # vs) res =
     (if left = 0 then res else takeClosest (left - 1) vs (res @ v))"

fun findClosestVBlocking ::
    "node_id list \<Rightarrow> node_id option \<Rightarrow> scp_quorum_set \<Rightarrow> node_id list"
  and closestInner ::
    "node_id list \<Rightarrow> node_id option \<Rightarrow> scp_quorum_set list \<Rightarrow> uint64 \<Rightarrow> node_id list list \<Rightarrow>
     (uint64 \<times> node_id list list) option"
where
  "findClosestVBlocking nodes excluded (SCPQuorumSet t v i) =
     (let left0 = (1 + of_nat (length v) + of_nat (length i)) - ucast t in
      case closestValidators nodes excluded v left0 [] of
        None \<Rightarrow> []
      | Some (left1, res) \<Rightarrow>
          (case closestInner nodes excluded i left1 [] of
             None \<Rightarrow> []
           | Some (left2, resInternals) \<Rightarrow>
               let res' = (if of_nat (length res) > left2 then take (unat left2) res else res)
               in takeClosest (left2 - of_nat (length res')) resInternals res'))"
| "closestInner nodes excluded [] left resInternals = Some (left, resInternals)"
| "closestInner nodes excluded (q # qs) left resInternals =
     (let v = findClosestVBlocking nodes excluded q in
      if length v = 0
      then let l = left - 1 in
           if l = 0 then None else closestInner nodes excluded qs l resInternals
      else closestInner nodes excluded qs left (emplaceBySize v resInternals))"

definition findClosestVBlocking_map ::
  "scp_quorum_set \<Rightarrow> 'p env_map \<Rightarrow> ('p statement_of \<Rightarrow> bool) \<Rightarrow> node_id option \<Rightarrow> node_id list" where
  "findClosestVBlocking_map qset m flt excluded =
     findClosestVBlocking (filterNodes m flt) excluded qset"

section \<open>What a slice is\<close>

text \<open>The threshold as the countdown sees it: counting 0 down wraps, so only \<open>2 ^ 32\<close> hits would
  bring it back to 0.\<close>

definition eff :: "uint32 \<Rightarrow> nat" where
  "eff t = (if t = 0 then 2 ^ 32 else unat t)"

text \<open>Abstract specification: a set of nodes satisfies a quorum set if it hits at least
  \<open>threshold\<close> of its entries.\<close>

fun sat :: "node_id set \<Rightarrow> scp_quorum_set \<Rightarrow> bool" where
  "sat N (SCPQuorumSet t v i) \<longleftrightarrow>
     eff t \<le> length (filter (\<lambda>n. n \<in> N) v) + length (filter (sat N) i)"

lemma eff_pos: "0 < eff t"
  by (simp add: eff_def unat_gt_0)

lemma unat_eq_1_iff: "unat t = 1 \<longleftrightarrow> t = 1" for t :: uint32
  by (simp add: word_unat_eq_iff)

lemma eff_dec: "t - 1 = 0 \<longleftrightarrow> eff t = 1" "t - 1 \<noteq> 0 \<Longrightarrow> eff (t - 1) = eff t - 1"
proof -
  show "t - 1 = 0 \<longleftrightarrow> eff t = 1"
    using unat_eq_1_iff [of t] by (auto simp: eff_def)
  show "eff (t - 1) = eff t - 1" if "t - 1 \<noteq> 0"
  proof (cases "t = 0")
    case True
    have "unat (- 1 :: uint32) = 2 ^ 32 - 1"
      by (simp add: unsigned_minus_1_eq_mask mask_eq_exp_minus_1)
    with True show ?thesis by (simp add: eff_def)
  next
    case False
    then have "unat (t - 1) = unat t - 1" by (rule unat_minus_one)
    with False that show ?thesis by (simp add: eff_def)
  qed
qed

lemma sliceValidators_eff:
  "sliceValidators N vs t =
     (if eff t \<le> length (filter (\<lambda>v. v \<in> set N) vs) then None
      else Some (t - of_nat (length (filter (\<lambda>v. v \<in> set N) vs))))
   \<and> (\<not> eff t \<le> length (filter (\<lambda>v. v \<in> set N) vs) \<longrightarrow>
       eff (t - of_nat (length (filter (\<lambda>v. v \<in> set N) vs)))
         = eff t - length (filter (\<lambda>v. v \<in> set N) vs))"
proof (induction N vs t rule: sliceValidators.induct)
  case (1 N t)
  then show ?case using eff_pos [of t] by simp
next
  case (2 N v vs t)
  show ?case
  proof (cases "v \<in> set N")
    case True
    show ?thesis
    proof (cases "t - 1 = 0")
      case t0: True
      then have "eff t = 1" using eff_dec by blast
      with True t0 show ?thesis by simp
    next
      case False
      then have e: "eff (t - 1) = eff t - 1" "eff t \<noteq> 1" using eff_dec by blast+
      have d: "t - (1 + x) = t - 1 - x" for x by simp
      from e(2) eff_pos [of t] have "eff t - 1 \<le> k \<longleftrightarrow> eff t \<le> Suc k" for k by linarith
      with 2(1) True False e show ?thesis by (simp add: Let_def d)
    qed
  qed (use 2 in simp)
qed

lemma sliceInner_eff:
  "sliceInner N qs t \<longleftrightarrow> eff t \<le> length (filter (isQuorumSliceInternal N) qs)"
proof (induction qs arbitrary: t)
  case Nil
  then show ?case using eff_pos [of t] by simp
next
  case (Cons q qs)
  show ?case
  proof (cases "isQuorumSliceInternal N q \<and> t - 1 \<noteq> 0")
    case True
    then have "eff (t - 1) = eff t - 1" "eff t \<noteq> 1" using eff_dec by blast+
    with Cons True eff_pos [of t] show ?thesis by (auto simp: Let_def)
  next
    case False
    then show ?thesis using Cons eff_dec(1) [of t] by (auto simp: Let_def)
  qed
qed

lemma isQuorumSliceInternal_sat: "isQuorumSliceInternal N q \<longleftrightarrow> sat (set N) q"
proof (induction q)
  case (SCPQuorumSet t v i)
  let ?c = "length (filter (\<lambda>v. v \<in> set N) v)"
  have i: "filter (isQuorumSliceInternal N) i = filter (sat (set N)) i"
    using SCPQuorumSet by (intro filter_cong) auto
  show ?case
  proof (cases "eff t \<le> ?c")
    case True
    then show ?thesis using sliceValidators_eff [of N v t] by simp
  next
    case False
    with sliceValidators_eff [of N v t]
    have "isQuorumSliceInternal N (SCPQuorumSet t v i) = sliceInner N i (t - of_nat ?c)"
      and "eff (t - of_nat ?c) = eff t - ?c" by simp_all
    with False show ?thesis by (auto simp: sliceInner_eff i)
  qed
qed

lemma isQuorumSlice_sat: "isQuorumSlice q N \<longleftrightarrow> sat (set N) q"
  by (simp add: isQuorumSlice_def isQuorumSliceInternal_sat)

lemma length_filter_mono:
  "(\<And>x. x \<in> set xs \<Longrightarrow> P x \<Longrightarrow> Q x) \<Longrightarrow> length (filter P xs) \<le> length (filter Q xs)"
  by (induction xs) (auto simp: le_SucI)

lemma sat_mono: "sat N q \<Longrightarrow> N \<subseteq> M \<Longrightarrow> sat M q"
proof (induction q)
  case (SCPQuorumSet t v i)
  have "length (filter (\<lambda>n. n \<in> N) v) \<le> length (filter (\<lambda>n. n \<in> M) v)"
    using SCPQuorumSet.prems by (intro length_filter_mono) auto
  moreover have "length (filter (sat N) i) \<le> length (filter (sat M) i)"
    using SCPQuorumSet by (intro length_filter_mono) auto
  ultimately show ?case using SCPQuorumSet.prems(1) by simp
qed

lemma sat_restrict: "sat (N \<inter> M) q \<longleftrightarrow> sat N q" if "set (qset_nodes q) \<subseteq> M"
  using that
proof (induction q)
  case (SCPQuorumSet t v i)
  have "filter (\<lambda>n. n \<in> N \<inter> M) v = filter (\<lambda>n. n \<in> N) v"
    using SCPQuorumSet.prems by (intro filter_cong) auto
  moreover have "filter (sat (N \<inter> M)) i = filter (sat N) i"
    using SCPQuorumSet by (intro filter_cong) auto
  ultimately show ?case by simp
qed

section \<open>V-blocking is the dual of being a slice\<close>

text \<open>Well-formed quorum sets: thresholds within range and sizes that fit an \<^verbatim>\<open>int\<close>.\<close>

fun wf_qset :: "scp_quorum_set \<Rightarrow> bool" where
  "wf_qset (SCPQuorumSet t v i) \<longleftrightarrow>
     0 < unat t \<and> unat t \<le> length v + length i \<and> length v + length i < 2 ^ 31 - 1 \<and>
     list_all wf_qset i"

lemma ucast_64_32: "(ucast (x :: uint64) :: uint32) = of_nat (unat x)"
  by (rule word_unat_eq_iff [THEN iffD2])
    (simp add: unsigned_ucast_eq unat_of_nat take_bit_eq_mod)

lemma sint32_of_nat: "k < 2 ^ 31 \<Longrightarrow> sint (of_nat k :: uint32) = int k"
proof -
  assume k: "k < 2 ^ 31"
  have "int k < 2 ^ 31" using k by (metis of_nat_less_iff of_nat_numeral of_nat_power)
  then have s: "signed_take_bit 31 (int k) = int k"
    by (intro signed_take_bit_int_eq_self) simp_all
  have "sint (of_nat k :: uint32) = signed_take_bit 31 (int k)"
    unfolding signed_of_nat by (simp only: len_of_numeral_defs of_int_eq_id id_apply) simp
  with s show ?thesis by simp
qed

lemma initialLeftTillBlock_wf:
  assumes "wf_qset (SCPQuorumSet t v i)"
  shows "initialLeftTillBlock t v i = 1 + int (length v) + int (length i) - int (unat t)"
proof -
  let ?n = "1 + length v + length i"
  let ?k = "?n - unat t"
  have le: "unat t \<le> ?n" and k: "?k < 2 ^ 31" using assms by auto
  have t: "(ucast t :: uint64) = of_nat (unat t)" by simp
  have "(1 + of_nat (length v) + of_nat (length i)) - ucast t = (of_nat ?k :: uint64)"
    unfolding t of_nat_diff [OF le] by simp
  then have "initialLeftTillBlock t v i = sint (ucast (of_nat ?k :: uint64) :: uint32)"
    by (simp only: initialLeftTillBlock_def)
  also have "(ucast (of_nat ?k :: uint64) :: uint32) = of_nat ?k"
    unfolding ucast_64_32 using k by (subst unat_of_nat64) simp_all
  also have "sint (of_nat ?k :: uint32) = int ?k"
    using k by (rule sint32_of_nat)
  finally show ?thesis using le by simp
qed

lemma blockValidators_count:
  "blockValidators N vs l =
     (let c = int (length (filter (\<lambda>v. v \<in> set N) vs)) in
      if 0 < c \<and> l \<le> c then None else Some (l - c))"
proof (induction vs arbitrary: l)
  case (Cons v vs)
  show ?case
  proof (cases "v \<in> set N \<and> 0 < l - 1")
    case True
    then show ?thesis using Cons.IH [of "l - 1"] by (auto simp: Let_def)
  next
    case False
    then show ?thesis using Cons.IH [of l] by (auto simp: Let_def)
  qed
qed simp

lemma blockInner_count:
  "blockInner N qs l \<longleftrightarrow>
     0 < length (filter (isVBlockingInternal N) qs) \<and>
     l \<le> int (length (filter (isVBlockingInternal N) qs))"
proof (induction qs arbitrary: l)
  case (Cons q qs)
  show ?case
  proof (cases "isVBlockingInternal N q \<and> 0 < l - 1")
    case True
    then show ?thesis using Cons.IH [of "l - 1"] by (auto simp: Let_def)
  next
    case False
    then show ?thesis using Cons.IH [of l] by (auto simp: Let_def)
  qed
qed simp

abbreviation block_count :: "node_id list \<Rightarrow> node_id list \<Rightarrow> scp_quorum_set list \<Rightarrow> nat" where
  "block_count N v i \<equiv>
     length (filter (\<lambda>n. n \<in> set N) v) + length (filter (isVBlockingInternal N) i)"

lemma isVBlockingInternal_count:
  "isVBlockingInternal N (SCPQuorumSet t v i) \<longleftrightarrow>
     t \<noteq> 0 \<and> 0 < block_count N v i \<and> initialLeftTillBlock t v i \<le> int (block_count N v i)"
  by (auto simp: blockValidators_count blockInner_count Let_def)

lemma isVBlockingInternal_mono:
  "isVBlockingInternal N q \<Longrightarrow> set N \<subseteq> set M \<Longrightarrow> isVBlockingInternal M q"
proof (induction q)
  case (SCPQuorumSet t v i)
  have "block_count N v i \<le> block_count M v i"
    using SCPQuorumSet by (intro add_mono length_filter_mono) auto
  with SCPQuorumSet.prems(1) show ?case
    unfolding isVBlockingInternal_count by linarith
qed

lemma isVBlocking_mono: "isVBlocking q N \<Longrightarrow> set N \<subseteq> set M \<Longrightarrow> isVBlocking q M"
  unfolding isVBlocking_def by (rule isVBlockingInternal_mono)

lemma isVBlocking_nonempty: "isVBlocking q N \<Longrightarrow> N \<noteq> []"
  unfolding isVBlocking_def
proof (induction q)
  case (SCPQuorumSet t v i)
  show ?case
  proof
    assume "N = []"
    with SCPQuorumSet show False
      unfolding isVBlockingInternal_count by (auto simp: filter_empty_conv)
  qed
qed

lemma sat_nonempty: "sat N q \<Longrightarrow> N \<noteq> {}"
proof (induction q)
  case (SCPQuorumSet t v i)
  show ?case
  proof
    assume "N = {}"
    with SCPQuorumSet have "filter (sat N) i = []" by (auto simp: filter_empty_conv)
    with \<open>N = {}\<close> SCPQuorumSet.prems eff_pos [of t] show False by simp
  qed
qed

lemma isVBlockingInternal_dual:
  assumes "wf_qset q"
  shows "isVBlockingInternal N q \<longleftrightarrow> \<not> sat (- set N) q"
  using assms
proof (induction q)
  case (SCPQuorumSet t v i)
  let ?l = "initialLeftTillBlock t v i"
  let ?cv = "length (filter (\<lambda>v. v \<in> set N) v)"
  let ?ci = "length (filter (isVBlockingInternal N) i)"
  note wf = SCPQuorumSet.prems
  have l: "?l = 1 + int (length v) + int (length i) - int (unat t)"
    using wf by (rule initialLeftTillBlock_wf)
  have t: "t \<noteq> 0" "eff t = unat t" "unat t \<le> length v + length i"
    using wf by (auto simp: eff_def)
  have l0: "0 < ?l" unfolding l using t(3) by linarith
  have "isVBlockingInternal N (SCPQuorumSet t v i) \<longleftrightarrow> ?l \<le> int ?cv + int ?ci"
    unfolding isVBlockingInternal_count using t(1) l0 by auto
  also have "\<dots> \<longleftrightarrow> length v + length i < unat t + ?cv + ?ci"
    unfolding l by linarith
  also have "\<dots> \<longleftrightarrow> \<not> (unat t \<le> (length v - ?cv) + (length i - ?ci))"
    using length_filter_le [of "\<lambda>v. v \<in> set N" v] length_filter_le [of "isVBlockingInternal N" i]
    by linarith
  also have "length v - ?cv = length (filter (\<lambda>n. n \<in> - set N) v)"
    using sum_length_filter_compl [of "\<lambda>v. v \<in> set N" v] by simp
  also have "length i - ?ci = length (filter (\<lambda>q. \<not> isVBlockingInternal N q) i)"
    using sum_length_filter_compl [of "isVBlockingInternal N" i] by simp
  also have "filter (\<lambda>q. \<not> isVBlockingInternal N q) i = filter (sat (- set N)) i"
    using SCPQuorumSet by (intro filter_cong) (auto simp: list_all_iff)
  finally show ?case by (simp add: t(2))
qed

lemma isVBlocking_dual: "wf_qset q \<Longrightarrow> isVBlocking q N \<longleftrightarrow> \<not> sat (- set N) q"
  by (simp add: isVBlocking_def isVBlockingInternal_dual)

lemma isVBlocking_intersects:
  assumes "wf_qset q"
  shows "isVBlocking q N \<longleftrightarrow> (\<forall>S. isQuorumSlice q S \<longrightarrow> set S \<inter> set N \<noteq> {})"
proof -
  have "(\<exists>S. isQuorumSlice q S \<and> set S \<inter> set N = {}) \<longleftrightarrow> sat (- set N) q"
  proof
    assume "\<exists>S. isQuorumSlice q S \<and> set S \<inter> set N = {}"
    then obtain S where S: "isQuorumSlice q S" "set S \<subseteq> - set N" by auto
    then show "sat (- set N) q" unfolding isQuorumSlice_sat by (rule sat_mono)
  next
    assume "sat (- set N) q"
    then have "sat (- set N \<inter> set (qset_nodes q)) q" using sat_restrict by blast
    also have "- set N \<inter> set (qset_nodes q) = set (filter (\<lambda>n. n \<notin> set N) (qset_nodes q))" by auto
    finally show "\<exists>S. isQuorumSlice q S \<and> set S \<inter> set N = {}"
      by (intro exI [of _ "filter (\<lambda>n. n \<notin> set N) (qset_nodes q)"]) (auto simp: isQuorumSlice_sat)
  qed
  then show ?thesis using isVBlocking_dual [OF assms, of N] by blast
qed

section \<open>Quorums: the loop computes the greatest one\<close>

lemma quorumFilter_mono:
  "quorumFilter m qf W n \<Longrightarrow> set W \<subseteq> set P \<Longrightarrow> quorumFilter m qf P n"
  by (auto simp: quorumFilter_def isQuorumSlice_sat intro: sat_mono split: option.splits)

lemma quorumLoop_subset: "set (quorumLoop m qf P) \<subseteq> set P"
proof (induction m qf P rule: quorumLoop.induct)
  case (1 m qf P)
  then show ?case by (subst quorumLoop.simps) (auto simp: Let_def)
qed

lemma quorumLoop_closed: "n \<in> set (quorumLoop m qf P) \<Longrightarrow> quorumFilter m qf (quorumLoop m qf P) n"
proof (induction m qf P rule: quorumLoop.induct)
  case (1 m qf P)
  let ?F = "filter (quorumFilter m qf P) P"
  show ?case
  proof (cases "length P = length ?F")
    case True
    then have eq: "?F = P" by (metis length_filter_less filter_True less_irrefl)
    then have "quorumLoop m qf P = P" using True by (subst quorumLoop.simps) (simp add: Let_def)
    with 1(2) eq show ?thesis by (metis filter_id_conv)
  next
    case False
    then have "quorumLoop m qf P = quorumLoop m qf ?F"
      by (subst quorumLoop.simps) (simp add: Let_def)
    with 1 False show ?thesis by simp
  qed
qed

lemma quorumLoop_greatest:
  assumes "set W \<subseteq> set P" and "\<And>w. w \<in> set W \<Longrightarrow> quorumFilter m qf W w"
  shows "set W \<subseteq> set (quorumLoop m qf P)"
  using assms
proof (induction m qf P rule: quorumLoop.induct)
  case (1 m qf P)
  let ?F = "filter (quorumFilter m qf P) P"
  have "set W \<subseteq> set ?F" using 1(2,3) quorumFilter_mono by fastforce
  with 1(1) [OF refl _ _ 1(3)] 1(2) show ?case
    by (cases "length P = length ?F") (simp_all add: quorumLoop.simps [of m qf P] Let_def)
qed

lemma isQuorum_iff:
  "isQuorum q m qf flt \<longleftrightarrow>
     (\<exists>W. set W \<subseteq> set (filterNodes m flt) \<and> (\<forall>w \<in> set W. quorumFilter m qf W w)
        \<and> isQuorumSlice q W)" (is "_ \<longleftrightarrow> (\<exists>W. ?Q W)")
proof
  let ?U = "quorumLoop m qf (filterNodes m flt)"
  assume "isQuorum q m qf flt"
  then have "?Q ?U" by (simp add: isQuorum_def quorumLoop_subset quorumLoop_closed)
  then show "\<exists>W. ?Q W" by (rule exI)
next
  let ?U = "quorumLoop m qf (filterNodes m flt)"
  assume "\<exists>W. ?Q W"
  then obtain W where W: "?Q W" by (rule exE)
  then have "set W \<subseteq> set ?U" by (intro quorumLoop_greatest) auto
  with W show "isQuorum q m qf flt"
    unfolding isQuorum_def isQuorumSlice_sat by (auto intro: sat_mono)
qed

lemma thresholds_ok_wf_qset: "thresholds_ok ex q \<Longrightarrow> length (qset_nodes q) < 2 ^ 31 - 1 \<Longrightarrow> wf_qset q"
proof (induction q)
  case (SCPQuorumSet t v i)
  have le: "length v + length i \<le> length (qset_nodes (SCPQuorumSet t v i))"
    using thresholds_ok_nodes [OF SCPQuorumSet.prems(1)] by simp
  have "wf_qset q" if q: "q \<in> set i" for q
  proof (rule SCPQuorumSet.IH [OF q])
    show "thresholds_ok ex q" using SCPQuorumSet.prems(1) q by (simp add: list_all_iff)
    have "length (qset_nodes q) \<le> length (concat (map qset_nodes i))"
      using q by (simp add: length_concat member_le_sum_list)
    then show "length (qset_nodes q) < 2 ^ 31 - 1" using SCPQuorumSet.prems(2) by simp
  qed
  with le SCPQuorumSet.prems show ?case by (simp add: list_all_iff)
qed

lemma sane_wf_qset: "isQuorumSetSane q ex \<Longrightarrow> wf_qset q"
  unfolding isQuorumSetSane_spec by (rule thresholds_ok_wf_qset) auto

section \<open>Normalisation does not change the slices\<close>

abbreviation sat_count :: "node_id set \<Rightarrow> node_id list \<Rightarrow> scp_quorum_set list \<Rightarrow> nat" where
  "sat_count N v i \<equiv> length (filter (\<lambda>n. n \<in> N) v) + length (filter (sat N) i)"

lemma eff_1 [simp]: "eff 1 = 1"
  by (simp add: eff_def)

lemma sat_singleton: "isSingletonQSet q \<Longrightarrow> sat N q \<longleftrightarrow> hd (validators q) \<in> N"
  by (cases q) (auto simp: isSingletonQSet_def length_Suc_conv split: if_splits)

lemma simplifyInner_sat:
  assumes "\<And>q. q \<in> set qs \<Longrightarrow> sat N (normalizeQSetSimplify None q) \<longleftrightarrow> sat N q"
    and "simplifyInner None qs v = (v', qs')"
  shows "sat_count N v' qs' = sat_count N v qs"
  using assms
proof (induction qs arbitrary: v v' qs')
  case (Cons q qs)
  let ?q = "normalizeQSetSimplify None q"
  have q: "sat N ?q \<longleftrightarrow> sat N q" and IH: "\<And>v v' qs'. simplifyInner None qs v = (v', qs') \<Longrightarrow>
      sat_count N v' qs' = sat_count N v qs"
    using Cons.prems(1) Cons.IH by simp_all
  show ?case
  proof (cases "isSingletonQSet ?q")
    case True
    then have "simplifyInner None qs (v @ [hd (validators ?q)]) = (v', qs')"
      using Cons.prems(2) by simp
    from IH [OF this] sat_singleton [OF True, of N] q show ?thesis by simp
  next
    case False
    then obtain ws where "simplifyInner None qs v = (v', ws)" "qs' = ?q # ws"
      using Cons.prems(2) by (auto simp: Let_def split: prod.splits)
    with IH q show ?thesis by auto
  qed
qed simp

lemma normalizeQSetSimplify_sat: "sat N (normalizeQSetSimplify None q) \<longleftrightarrow> sat N q"
proof (induction q)
  case (SCPQuorumSet t v i)
  obtain v' i' where s: "simplifyInner None i v = (v', i')" by fastforce
  have "sat N (normalizeQSetSimplify None (SCPQuorumSet t v i)) \<longleftrightarrow> sat N (SCPQuorumSet t v' i')"
  proof (cases "t = 1 \<and> length v' = 0 \<and> length i' = 1")
    case True
    then obtain q where "i' = [q]" by (auto simp: length_Suc_conv)
    with True s show ?thesis by (simp add: removeNode_def)
  next
    case False
    then show ?thesis using s by (auto simp: removeNode_def)
  qed
  with simplifyInner_sat [OF SCPQuorumSet s] show ?case by simp
qed

lemma length_filter_mset: "length (filter P xs) = size (filter_mset P (mset xs))"
  by (metis mset_filter size_mset)

lemma normalizeQuorumSetReorder_sat: "sat N (normalizeQuorumSetReorder q) \<longleftrightarrow> sat N q"
proof (induction q)
  case (SCPQuorumSet t v i)
  have "length (filter (sat N) (map normalizeQuorumSetReorder i)) = length (filter (sat N) i)"
    using SCPQuorumSet by (auto simp: filter_map comp_def intro!: arg_cong [where f = length] filter_cong)
  then show ?case by (simp add: sortQSets_sort length_filter_mset)
qed

lemma normalizeQSet_sat: "sat N (normalizeQSet q None) \<longleftrightarrow> sat N q"
  by (simp add: normalizeQSet_def normalizeQuorumSetReorder_sat normalizeQSetSimplify_sat)

section \<open>Node weights\<close>

lemma ceil_div_bounds:
  assumes "0 < (a :: nat)" "0 < n" "n \<le> d"
  shows "0 < (a * n + d - 1) div d" "(a * n + d - 1) div d \<le> a"
proof -
  have "1 \<le> a * n" using assms by simp
  then have "d \<le> a * n + d - 1" by linarith
  then show "0 < (a * n + d - 1) div d" using assms by (simp add: div_greater_zero_iff)
  have "a * n \<le> a * d" using assms by simp
  then have "a * n + d - 1 < Suc a * d" unfolding mult_Suc using assms by linarith
  then have "(a * n + d - 1) div d < Suc a" by (rule less_mult_imp_div_less)
  then show "(a * n + d - 1) div d \<le> a" by simp
qed

lemma computeWeight_ok:
  assumes "0 < unat thr" "unat thr \<le> unat tot" "m \<noteq> 0"
  shows "\<exists>w. computeWeight m tot thr = Inr w \<and> w \<noteq> 0
     \<and> unat w = (unat m * unat thr + unat tot - 1) div unat tot"
proof -
  let ?q = "div_round ROUND_UP (unat m * unat thr) (unat tot)"
  have q: "?q = (unat m * unat thr + unat tot - 1) div unat tot" by (simp add: div_round_def)
  have m: "0 < unat m" using assms(3) by (simp add: unat_gt_0)
  have "0 < ?q" "?q \<le> unat m"
    unfolding q using ceil_div_bounds [OF m assms(1,2)] by simp_all
  then have lt: "?q < 2 ^ 64" using unat64_less [of m] by linarith
  have t: "0 < tot" unfolding word_less_nat_alt using assms(1,2) by simp
  have "computeWeight m tot thr = Inr (of_nat ?q)"
    using assms(2) lt bigDivideUnsigned_spec [OF t, of m thr ROUND_UP]
    by (simp add: computeWeight_def word_le_nat_alt)
  moreover have u: "unat (of_nat ?q :: uint64) = ?q" using lt by (rule unat_of_nat64)
  moreover have "(of_nat ?q :: uint64) \<noteq> 0"
  proof
    assume "(of_nat ?q :: uint64) = 0"
    then have "unat (of_nat ?q :: uint64) = 0" by (simp only: unsigned_0)
    with u \<open>0 < ?q\<close> show False by simp
  qed
  ultimately show ?thesis unfolding q by blast
qed

lemma getInnerWeight_ok:
  assumes "\<And>q. q \<in> set qs \<Longrightarrow> \<exists>w. getNodeWeight n q = Inr w \<and> (w \<noteq> 0 \<longleftrightarrow> n \<in> set (qset_nodes q))"
    and "0 < unat thr" "unat thr \<le> unat tot"
  shows "\<exists>w. getInnerWeight n qs tot thr = Inr w \<and> (w \<noteq> 0 \<longleftrightarrow> n \<in> set (concat (map qset_nodes qs)))"
  using assms(1)
proof (induction qs)
  case (Cons q qs)
  from Cons.prems obtain w where w: "getNodeWeight n q = Inr w" "w \<noteq> 0 \<longleftrightarrow> n \<in> set (qset_nodes q)"
    by (meson list.set_intros(1))
  show ?case
  proof (cases "w = 0")
    case True
    then show ?thesis using w Cons by simp
  next
    case False
    with computeWeight_ok [OF assms(2,3) False] w show ?thesis by auto
  qed
qed simp

lemma getNodeWeight_ok:
  assumes "wf_qset q"
  shows "\<exists>w. getNodeWeight n q = Inr w \<and> (w \<noteq> 0 \<longleftrightarrow> n \<in> set (qset_nodes q))"
  using assms
proof (induction q)
  case (SCPQuorumSet t v i)
  let ?d = "of_nat (length i + length v) :: uint64" and ?n = "ucast t :: uint64"
  have d: "unat ?d = length i + length v"
    by (rule unat_of_nat64) (use SCPQuorumSet.prems in simp)
  have "unat t < 2 ^ 64" using unsigned_less [where 'a = nat, of t] by simp
  then have n: "unat ?n = unat t" by (simp add: unsigned_ucast_eq take_bit_eq_mod)
  have le: "0 < unat ?n" "unat ?n \<le> unat ?d" unfolding d n using SCPQuorumSet.prems by auto
  have i: "\<exists>w. getInnerWeight n i ?d ?n = Inr w \<and> (w \<noteq> 0 \<longleftrightarrow> n \<in> set (concat (map qset_nodes i)))"
    by (rule getInnerWeight_ok [OF _ le]) (use SCPQuorumSet in \<open>auto simp: list_all_iff\<close>)
  have "\<exists>w. computeWeight UINT64_MAX ?d ?n = Inr w \<and> w \<noteq> 0"
    using computeWeight_ok [OF le, of UINT64_MAX] by auto
  with i show ?case by (auto simp: Let_def)
qed

section \<open>The closest v-blocking set\<close>

text \<open>Each walk counts its missing entries down from \<open>left\<close> and keeps the others as candidates.\<close>

lemma unat_dec: "0 < unat l \<Longrightarrow> unat (l - 1) = unat l - 1" for l :: uint64
  by (metis unat_minus_one unat_0 less_irrefl)

lemma unat_dec_0: "0 < unat l \<Longrightarrow> l - 1 = 0 \<longleftrightarrow> unat l = 1" for l :: uint64
  using unat_dec [of l] by (metis One_nat_def Suc_pred diff_self unat_eq_0 unsigned_1 word_unat_eq_iff)

lemma closestValidators_count:
  assumes "0 < unat l"
  shows "case closestValidators N None vs l res of
      None \<Rightarrow> unat l \<le> length (filter (\<lambda>v. v \<notin> set N) vs)
    | Some (l', res') \<Rightarrow> res' = res @ filter (\<lambda>v. v \<in> set N) vs \<and> 0 < unat l' \<and>
        unat l = unat l' + length (filter (\<lambda>v. v \<notin> set N) vs)"
  using assms
proof (induction vs arbitrary: l res)
  case (Cons v vs)
  consider "v \<in> set N" | "v \<notin> set N" "unat l = 1" | "v \<notin> set N" "unat l \<noteq> 1" by blast
  then show ?case
  proof cases
    case 1
    then show ?thesis using Cons.IH [OF Cons.prems, of "res @ [v]"]
      by (simp split: option.splits prod.splits)
  next
    case 2
    then show ?thesis using unat_dec_0 [OF Cons.prems] by simp
  next
    case 3
    then have l: "0 < unat (l - 1)" "l - 1 \<noteq> 0" "unat l = Suc (unat (l - 1))"
      using Cons.prems unat_dec_0 [of l] unat_dec [of l] by auto
    then show ?thesis
      using 3 Cons.IH [OF l(1), of res] by (simp add: Let_def split: option.splits prod.splits)
  qed
qed simp

lemma mset_emplaceBySize [simp]: "mset (emplaceBySize v ws) = add_mset v (mset ws)"
  by (induction ws) auto

lemma closestInner_count:
  assumes "0 < unat l"
  shows "case closestInner N None qs l rs of
      None \<Rightarrow> unat l \<le> length (filter (\<lambda>q. findClosestVBlocking N None q = []) qs)
    | Some (l', rs') \<Rightarrow>
        mset rs' = mset rs + mset (filter (\<lambda>r. r \<noteq> []) (map (findClosestVBlocking N None) qs)) \<and>
        0 < unat l' \<and> unat l = unat l' + length (filter (\<lambda>q. findClosestVBlocking N None q = []) qs)"
  using assms
proof (induction qs arbitrary: l rs)
  case (Cons q qs)
  let ?v = "findClosestVBlocking N None q"
  consider "?v \<noteq> []" | "?v = []" "unat l = 1" | "?v = []" "unat l \<noteq> 1" by blast
  then show ?case
  proof cases
    case 1
    then show ?thesis using Cons.IH [OF Cons.prems, of "emplaceBySize ?v rs"]
      by (simp add: Let_def split: option.splits prod.splits)
  next
    case 2
    then show ?thesis using unat_dec_0 [OF Cons.prems] by (simp add: Let_def)
  next
    case 3
    then have l: "0 < unat (l - 1)" "l - 1 \<noteq> 0" "unat l = Suc (unat (l - 1))"
      using Cons.prems unat_dec_0 [of l] unat_dec [of l] by auto
    then show ?thesis
      using 3 Cons.IH [OF l(1), of rs] by (simp add: Let_def split: option.splits prod.splits)
  qed
qed simp

lemma takeClosest_eq: "takeClosest l rs res = res @ concat (take (unat l) rs)"
proof (induction l rs res rule: takeClosest.induct)
  case (2 l v vs res)
  show ?case
  proof (cases "l = 0")
    case False
    then have "0 < unat l" by (simp add: unat_gt_0)
    then have "unat l = Suc (unat (l - 1))" using unat_dec [of l] by simp
    with False 2 show ?thesis by simp
  qed simp
qed simp

lemma taken_inner_count:
  assumes m: "mset rs = mset (filter (\<lambda>r. r \<noteq> []) (map F i))"
    and R: "set (concat (take k rs)) \<subseteq> R"
  shows "length (filter (\<lambda>q. \<not> set (F q) \<subseteq> R) i) \<le> length rs - k"
proof -
  let ?P = "\<lambda>r. \<not> set r \<subseteq> R"
  have "length (filter (\<lambda>q. \<not> set (F q) \<subseteq> R) i) = length (filter ?P (map F i))"
    by (simp add: filter_map comp_def)
  also have "filter ?P (map F i) = filter ?P (filter (\<lambda>r. r \<noteq> []) (map F i))"
    unfolding filter_filter by (rule filter_cong) auto
  also have "length \<dots> = length (filter ?P rs)"
    unfolding length_filter_mset m ..
  also have "filter ?P rs = filter ?P (take k rs) @ filter ?P (drop k rs)"
    by (metis append_take_drop_id filter_append)
  also have "filter ?P (take k rs) = []"
    using R by (auto simp: filter_empty_conv)
  finally show ?thesis using length_filter_le [of ?P "drop k rs"] by simp
qed

lemma taken_validators_count:
  assumes "set (take k (filter (\<lambda>n. n \<in> N) v)) \<subseteq> R"
  shows "length (filter (\<lambda>n. n \<in> N - R) v) \<le> length (filter (\<lambda>n. n \<in> N) v) - k"
proof -
  let ?c = "filter (\<lambda>n. n \<in> N) v"
  have "filter (\<lambda>n. n \<in> N - R) v = filter (\<lambda>n. n \<notin> R) ?c"
    unfolding filter_filter by (rule filter_cong) auto
  also have "\<dots> = filter (\<lambda>n. n \<notin> R) (take k ?c) @ filter (\<lambda>n. n \<notin> R) (drop k ?c)"
    by (metis append_take_drop_id filter_append)
  also have "filter (\<lambda>n. n \<notin> R) (take k ?c) = []"
    using assms by (auto simp: filter_empty_conv)
  finally show ?thesis using length_filter_le [of "\<lambda>n. n \<notin> R" "drop k ?c"] by simp
qed

text \<open>The choice made from the candidates takes \<open>left\<close> of them: validators first, then the
  smallest inner results.\<close>

lemma chosen_count:
  assumes rs: "mset rs = mset (filter (\<lambda>r. r \<noteq> []) (map F i))"
    and res: "res = filter (\<lambda>n. n \<in> N) v" "length res < 2 ^ 64"
    and res': "res' = (if of_nat (length res) > left then take (unat left) res else res)"
    and R: "R = set (takeClosest (left - of_nat (length res')) rs res')"
    and le: "unat left \<le> length res + length rs"
  shows "length (filter (\<lambda>n. n \<in> N - R) v) + length (filter (\<lambda>q. \<not> set (F q) \<subseteq> R) i) + unat left
           \<le> length res + length rs"
proof -
  have u: "unat (of_nat (length res) :: uint64) = length res" using res(2) by (rule unat_of_nat64)
  have sR: "set res' \<union> set (concat (take (unat (left - of_nat (length res'))) rs)) \<subseteq> R"
    unfolding R takeClosest_eq by simp
  have i: "length (filter (\<lambda>q. \<not> set (F q) \<subseteq> R) i) \<le> length rs - unat (left - of_nat (length res'))"
    using sR by (intro taken_inner_count [OF rs]) simp
  show ?thesis
  proof (cases "unat left < length res")
    case True
    then have r': "res' = take (unat left) res" by (simp add: res' word_less_nat_alt u)
    then have "length (filter (\<lambda>n. n \<in> N - R) v) \<le> length res - unat left"
      unfolding res(1) using sR res(1) by (intro taken_validators_count) auto
    with True i show ?thesis by simp
  next
    case False
    then have r': "res' = res" by (simp add: res' word_less_nat_alt u)
    then have "length (filter (\<lambda>n. n \<in> N - R) v) \<le> length res - length res"
      unfolding res(1) using sR res(1) by (intro taken_validators_count) auto
    moreover have "unat (left - of_nat (length res')) = unat left - length res"
      using False u r' by (simp add: unat_sub word_le_nat_alt)
    ultimately show ?thesis using i le False by simp
  qed
qed

lemma findClosestVBlocking_blocks:
  assumes "wf_qset q"
  shows "\<not> sat (set N - set (findClosestVBlocking N None q)) q"
  using assms
proof (induction q)
  case (SCPQuorumSet t v i)
  let ?F = "findClosestVBlocking N None"
  let ?R = "set (?F (SCPQuorumSet t v i))"
  let ?left0 = "(1 + of_nat (length v) + of_nat (length i)) - ucast t :: uint64"
  let ?mv = "length (filter (\<lambda>v. v \<notin> set N) v)" and ?mi = "length (filter (\<lambda>q. ?F q = []) i)"
  let ?cv = "filter (\<lambda>v. v \<in> set N) v"
  let ?n = "1 + length v + length i"
  have t: "0 < unat t" "unat t < ?n" "t \<noteq> 0" and lt: "?n < 2 ^ 64" using SCPQuorumSet.prems by auto
  have "?left0 = of_nat (?n - unat t)"
    unfolding of_nat_diff [OF less_imp_le [OF t(2)]] by simp
  then have left0: "unat ?left0 = ?n - unat t"
    using lt by (simp only: unat_of_nat64)
  with t(2) have pos: "0 < unat ?left0" by simp
  have lv: "length v = length ?cv + ?mv" using sum_length_filter_compl [of "\<lambda>v. v \<in> set N" v] by simp
  have li: "length i = length (filter (\<lambda>q. ?F q \<noteq> []) i) + ?mi"
    using sum_length_filter_compl [of "\<lambda>q. ?F q = []" i] by simp
  have bi: "set (?F q) \<subseteq> M \<Longrightarrow> \<not> sat (set N - M) q" if "q \<in> set i" for q M
  proof -
    assume "set (?F q) \<subseteq> M"
    then have "set N - M \<subseteq> set N - set (?F q)" by auto
    moreover have "\<not> sat (set N - set (?F q)) q"
      using SCPQuorumSet.prems that by (intro SCPQuorumSet.IH) (auto simp: list_all_iff)
    ultimately show ?thesis using sat_mono by blast
  qed
  have ci: "length (filter (sat (set N - ?R)) i) \<le> length (filter (\<lambda>q. \<not> set (?F q) \<subseteq> ?R) i)"
    using bi by (intro length_filter_mono) auto
  have ci': "length (filter (\<lambda>q. \<not> set (?F q) \<subseteq> ?R) i) \<le> length (filter (\<lambda>q. ?F q \<noteq> []) i)"
    by (intro length_filter_mono) auto
  have cv: "length (filter (\<lambda>n. n \<in> set N - ?R) v) \<le> length ?cv"
    by (intro length_filter_mono) auto
  have "length (filter (\<lambda>n. n \<in> set N - ?R) v) + length (filter (sat (set N - ?R)) i) < unat t"
  proof (cases "closestValidators N None v ?left0 []")
    case None
    then have "unat ?left0 \<le> ?mv" using closestValidators_count [OF pos, of N v "[]"] by simp
    with ci ci' cv lv li left0 t show ?thesis by linarith
  next
    case (Some p)
    then obtain left1 where cV: "closestValidators N None v ?left0 [] = Some (left1, ?cv)"
      and left1: "0 < unat left1" "unat ?left0 = unat left1 + ?mv"
      using closestValidators_count [OF pos, of N v "[]"] by (cases p) auto
    show ?thesis
    proof (cases "closestInner N None i left1 []")
      case None
      then have "unat left1 \<le> ?mi" using closestInner_count [OF left1(1), of N i "[]"] by simp
      with ci ci' cv lv li left0 left1 t show ?thesis by linarith
    next
      case (Some p)
      then obtain left2 rs where cI: "closestInner N None i left1 [] = Some (left2, rs)"
        and left2: "0 < unat left2" "unat left1 = unat left2 + ?mi"
        and rs: "mset rs = mset (filter (\<lambda>r. r \<noteq> []) (map ?F i))"
        using closestInner_count [OF left1(1), of N i "[]"] by (cases p) auto
      from rs have lrs: "length rs = length (filter (\<lambda>q. ?F q \<noteq> []) i)"
        by (metis (no_types, lifting) comp_apply filter_cong filter_map length_map size_mset)
      have "length (filter (\<lambda>n. n \<in> set N - ?R) v) + length (filter (\<lambda>q. \<not> set (?F q) \<subseteq> ?R) i)
          + unat left2 \<le> length ?cv + length rs"
      proof (rule chosen_count [OF rs refl])
        show "length ?cv < 2 ^ 64" using lt length_filter_le [of "\<lambda>v. v \<in> set N" v] by linarith
        show "unat left2 \<le> length ?cv + length rs"
          using lrs lv li left0 left1 left2 t by linarith
      qed (use cV cI in \<open>simp_all add: Let_def\<close>)
      with ci lrs lv li left0 left1 left2 t show ?thesis by linarith
    qed
  qed
  with t show ?case by (simp add: eff_def)
qed
lemma closestValidators_subset:
  "closestValidators N ex vs l res = Some (l', res') \<Longrightarrow> set res' \<subseteq> set res \<union> set N"
  by (induction N ex vs l res rule: closestValidators.induct)
    (fastforce simp: Let_def split: if_splits)+

lemma set_emplaceBySize [simp]: "set (emplaceBySize v ws) = insert v (set ws)"
  by (induction ws) auto

lemma closestInner_subset:
  assumes "\<And>q. q \<in> set qs \<Longrightarrow> set (findClosestVBlocking N ex q) \<subseteq> set N"
    and "\<Union> (set ` set rs) \<subseteq> set N" and "closestInner N ex qs l rs = Some (l', rs')"
  shows "\<Union> (set ` set rs') \<subseteq> set N"
  using assms
proof (induction qs arbitrary: l rs)
  case (Cons q qs)
  let ?v = "findClosestVBlocking N ex q"
  have v: "set ?v \<subseteq> set N" and IH: "\<And>l rs. \<Union> (set ` set rs) \<subseteq> set N \<Longrightarrow>
      closestInner N ex qs l rs = Some (l', rs') \<Longrightarrow> ?case"
    using Cons.prems(1) Cons.IH by simp_all
  from Cons.prems(3) consider "closestInner N ex qs (l - 1) rs = Some (l', rs')"
    | "closestInner N ex qs l (emplaceBySize ?v rs) = Some (l', rs')"
    by (auto simp: Let_def split: if_splits)
  then show ?case
  proof cases
    case 1
    then show ?thesis by (rule IH [OF Cons.prems(2)])
  next
    case 2
    show ?thesis using Cons.prems(2) v by (intro IH [OF _ 2]) simp
  qed
qed simp

lemma findClosestVBlocking_subset: "set (findClosestVBlocking N ex q) \<subseteq> set N"
proof (induction q)
  case (SCPQuorumSet t v i)
  let ?l = "(1 + of_nat (length v) + of_nat (length i)) - ucast t :: uint64"
  show ?case
  proof (cases "findClosestVBlocking N ex (SCPQuorumSet t v i) = []")
    case False
    then obtain l1 res l2 rs where c: "closestValidators N ex v ?l [] = Some (l1, res)"
      "closestInner N ex i l1 [] = Some (l2, rs)"
      by (auto simp: Let_def split: option.splits)
    have "set res \<subseteq> set N" using closestValidators_subset [OF c(1)] by simp
    moreover have "\<Union> (set ` set rs) \<subseteq> set N"
      using closestInner_subset [OF SCPQuorumSet _ c(2)] by simp
    ultimately show ?thesis
      using c by (auto simp: Let_def takeClosest_eq dest!: in_set_takeD)
  qed simp
qed

section \<open>Properties\<close>

text \<open>C23: The v-blocking test of the code is the definition of the protocol: for a quorum set that
  passes the sanity check, a set of nodes is v-blocking exactly if it intersects every slice.\<close>

theorem isVBlocking_meets_slices:
  assumes "isQuorumSetSane q extraChecks"
  shows "isVBlocking q N \<longleftrightarrow> (\<forall>S. isQuorumSlice q S \<longrightarrow> set S \<inter> set N \<noteq> {})"
  using isVBlocking_intersects [OF sane_wf_qset [OF assms]] .

theorem isVBlocking_meets_slices_witness:
  "isVBlocking (SCPQuorumSet 2 [1, 2] [SCPQuorumSet 1 [3, 4] []]) [1, 3, 4] \<and>
   \<not> isQuorumSlice (SCPQuorumSet 2 [1, 2] [SCPQuorumSet 1 [3, 4] []]) [2, 5]"
proof -
  have s: "isQuorumSetSane (SCPQuorumSet 2 [1, 2] [SCPQuorumSet 1 [3, 4] []]) False"
    by code_simp
  have b: "isVBlocking (SCPQuorumSet 2 [1, 2] [SCPQuorumSet 1 [3, 4] []]) [1, 3, 4]"
    by code_simp
  from isVBlocking_meets_slices [OF s, of "[1, 3, 4]"] b
  have "isQuorumSlice (SCPQuorumSet 2 [1, 2] [SCPQuorumSet 1 [3, 4] []]) [2, 5]
      \<longrightarrow> set [2, 5] \<inter> set [1, 3, 4 :: node_id] \<noteq> {}" by blast
  with b show ?thesis by simp
qed

text \<open>C24: The quorum test is exact: it succeeds if and only if some set of the nodes whose
  statements pass the filter contains a slice of every one of its members, according to the
  quorum set each member's statement refers to, and a slice of the local quorum set.\<close>

theorem isQuorum_exact:
  "isQuorum q m qf flt \<longleftrightarrow>
     (\<exists>W. set W \<subseteq> set (filterNodes m flt) \<and> list_all (quorumFilter m qf W) W \<and> isQuorumSlice q W)"
  unfolding isQuorum_iff list_all_iff ..

text \<open>C25: Normalisation keeps the slices: whatever is simplified and reordered, a set of nodes
  contains a slice of the normalised quorum set exactly if it contains one of the original.\<close>

theorem normalizeQSet_same_slices:
  "isQuorumSlice (normalizeQSet q None) N \<longleftrightarrow> isQuorumSlice q N"
  by (simp add: isQuorumSlice_sat normalizeQSet_sat)

text \<open>C31: On a sane quorum set the weight computation never fails an assertion, and the weight is
  positive exactly for the nodes that occur in the quorum set.\<close>

theorem getNodeWeight_sane:
  assumes "isQuorumSetSane q extraChecks"
  shows "\<exists>w. getNodeWeight n q = Inr w \<and> (w \<noteq> 0 \<longleftrightarrow> n \<in> set (qset_nodes q))"
  using getNodeWeight_ok [OF sane_wf_qset [OF assms]] .

theorem getNodeWeight_sane_witness:
  "\<exists>w. getNodeWeight 3 (SCPQuorumSet 2 [1, 2] [SCPQuorumSet 1 [3, 4] []]) = Inr w \<and> w \<noteq> 0"
proof -
  have s: "isQuorumSetSane (SCPQuorumSet 2 [1, 2] [SCPQuorumSet 1 [3, 4] []]) False"
    by code_simp
  show ?thesis using getNodeWeight_sane [OF s, of 3] by simp
qed

text \<open>C32: On a sane quorum set, the nodes returned by the search for the closest v-blocking set are
  among the given ones, and without them the given nodes contain no slice any more.\<close>

theorem findClosestVBlocking_blocks_slices:
  assumes "isQuorumSetSane q extraChecks"
  shows "set (findClosestVBlocking nodes None q) \<subseteq> set nodes \<and>
     \<not> isQuorumSlice q (filter (\<lambda>n. n \<notin> set (findClosestVBlocking nodes None q)) nodes)"
proof -
  let ?R = "set (findClosestVBlocking nodes None q)"
  have "set (filter (\<lambda>n. n \<notin> ?R) nodes) = set nodes - ?R" by auto
  then show ?thesis
    using findClosestVBlocking_subset [of nodes None q]
      findClosestVBlocking_blocks [OF sane_wf_qset [OF assms], of nodes]
    by (simp add: isQuorumSlice_sat)
qed

theorem findClosestVBlocking_blocks_slices_witness:
  "findClosestVBlocking [1, 2, 3, 4] None (SCPQuorumSet 2 [1, 2] [SCPQuorumSet 1 [3, 4] []]) = [1, 2] \<and>
   \<not> isQuorumSlice (SCPQuorumSet 2 [1, 2] [SCPQuorumSet 1 [3, 4] []]) [3, 4]"
proof -
  let ?q = "SCPQuorumSet 2 [1, 2] [SCPQuorumSet 1 [3, 4] []]"
  have s: "isQuorumSetSane ?q False" by code_simp
  have f: "findClosestVBlocking [1, 2, 3, 4] None ?q = [1, 2]" by code_simp
  show ?thesis
    using findClosestVBlocking_blocks_slices [OF s, of "[1, 2, 3, 4]"] unfolding f by simp
qed

end
