(* ===== verification/Ballot_Statements.thy ===== *)
theory Ballot_Statements
  imports Local_Node
begin

text \<open>
  The static part of \<^verbatim>\<open>scp/BallotProtocol.cpp\<close>: comparison and compatibility of ballots, the
  order on statements that decides which of two is newer, and the predicates that read what a
  statement votes for or accepts.
\<close>

section \<open>Ballots\<close>

definition compareBallots :: "scp_ballot \<Rightarrow> scp_ballot \<Rightarrow> int" where
  "compareBallots b1 b2 =
     (if counter b1 < counter b2 then - 1
      else if counter b2 < counter b1 then 1
      else if bvalue b1 < bvalue b2 then - 1
      else if bvalue b2 < bvalue b1 then 1
      else 0)"

fun compareBallots_ptr :: "scp_ballot option \<Rightarrow> scp_ballot option \<Rightarrow> int" where
  "compareBallots_ptr (Some b1) (Some b2) = compareBallots b1 b2"
| "compareBallots_ptr (Some b1) None = 1"
| "compareBallots_ptr None (Some b2) = - 1"
| "compareBallots_ptr None None = 0"

definition areBallotsCompatible :: "scp_ballot \<Rightarrow> scp_ballot \<Rightarrow> bool" where
  "areBallotsCompatible b1 b2 \<longleftrightarrow> bvalue b1 = bvalue b2"

definition areBallotsLessAndIncompatible :: "scp_ballot \<Rightarrow> scp_ballot \<Rightarrow> bool" where
  "areBallotsLessAndIncompatible b1 b2 \<longleftrightarrow>
     compareBallots b1 b2 \<le> 0 \<and> \<not> areBallotsCompatible b1 b2"

definition areBallotsLessAndCompatible :: "scp_ballot \<Rightarrow> scp_ballot \<Rightarrow> bool" where
  "areBallotsLessAndCompatible b1 b2 \<longleftrightarrow>
     compareBallots b1 b2 \<le> 0 \<and> areBallotsCompatible b1 b2"

section \<open>Which statement is newer\<close>

text \<open>The numeric values of \<^verbatim>\<open>SCPStatementType\<close>.\<close>

fun statement_type :: "ballot_pledges \<Rightarrow> nat" where
  "statement_type (PREPARE p) = 0"
| "statement_type (CONFIRM c) = 1"
| "statement_type (EXTERNALIZE e) = 2"

fun isNewerPledges :: "ballot_pledges \<Rightarrow> ballot_pledges \<Rightarrow> bool" where
  "isNewerPledges (EXTERNALIZE oldE) (EXTERNALIZE e) = False"
| "isNewerPledges (CONFIRM oldC) (CONFIRM c) =
     (let compBallot = compareBallots (conf_ballot oldC) (conf_ballot c) in
      if compBallot < 0 then True
      else if compBallot = 0
           then if conf_nPrepared oldC = conf_nPrepared c then conf_nH oldC < conf_nH c
                else conf_nPrepared oldC < conf_nPrepared c
           else False)"
| "isNewerPledges (PREPARE oldPrep) (PREPARE prep) =
     (let compBallot = compareBallots (prep_ballot oldPrep) (prep_ballot prep) in
      if compBallot < 0 then True
      else if compBallot = 0
           then let compBallot = compareBallots_ptr (prep_prepared oldPrep) (prep_prepared prep) in
             if compBallot < 0 then True
             else if compBallot = 0
                  then let compBallot =
                         compareBallots_ptr (prep_preparedPrime oldPrep) (prep_preparedPrime prep) in
                    if compBallot < 0 then True
                    else if compBallot = 0 then prep_nH oldPrep < prep_nH prep
                         else False
                  else False
           else False)"
| "isNewerPledges old new = (statement_type old < statement_type new)"

definition isNewerStatement :: "ballot_statement \<Rightarrow> ballot_statement \<Rightarrow> bool" where
  "isNewerStatement oldst st = isNewerPledges (st_pledges oldst) (st_pledges st)"

section \<open>Reading a statement\<close>

definition hasPreparedBallot :: "scp_ballot \<Rightarrow> ballot_statement \<Rightarrow> bool" where
  "hasPreparedBallot ballot st =
     (case st_pledges st of
        PREPARE p \<Rightarrow>
          (case prep_prepared p of Some q \<Rightarrow> areBallotsLessAndCompatible ballot q | None \<Rightarrow> False) \<or>
          (case prep_preparedPrime p of Some q \<Rightarrow> areBallotsLessAndCompatible ballot q | None \<Rightarrow> False)
      | CONFIRM c \<Rightarrow>
          areBallotsLessAndCompatible ballot (SCPBallot (conf_nPrepared c) (bvalue (conf_ballot c)))
      | EXTERNALIZE e \<Rightarrow> areBallotsCompatible ballot (ext_commit e))"

text \<open>The lambda of \<^verbatim>\<open>attemptAcceptPrepared\<close>: does the statement vote to prepare the ballot.\<close>

definition votesPrepare :: "scp_ballot \<Rightarrow> ballot_statement \<Rightarrow> bool" where
  "votesPrepare ballot st =
     (case st_pledges st of
        PREPARE p \<Rightarrow> areBallotsLessAndCompatible ballot (prep_ballot p)
      | CONFIRM c \<Rightarrow> areBallotsCompatible ballot (conf_ballot c)
      | EXTERNALIZE e \<Rightarrow> areBallotsCompatible ballot (ext_commit e))"

type_synonym interval = "uint32 \<times> uint32"

definition commitPredicate :: "scp_ballot \<Rightarrow> interval \<Rightarrow> ballot_statement \<Rightarrow> bool" where
  "commitPredicate ballot check st =
     (case st_pledges st of
        PREPARE p \<Rightarrow> False
      | CONFIRM c \<Rightarrow>
          areBallotsCompatible ballot (conf_ballot c) \<and>
          conf_nCommit c \<le> fst check \<and> snd check \<le> conf_nH c
      | EXTERNALIZE e \<Rightarrow>
          areBallotsCompatible ballot (ext_commit e) \<and> counter (ext_commit e) \<le> fst check)"

text \<open>The lambda of \<^verbatim>\<open>attemptAcceptCommit\<close>: does the statement vote to commit the interval.\<close>

definition votesCommit :: "scp_ballot \<Rightarrow> interval \<Rightarrow> ballot_statement \<Rightarrow> bool" where
  "votesCommit ballot cur st =
     (case st_pledges st of
        PREPARE p \<Rightarrow>
          areBallotsCompatible ballot (prep_ballot p) \<and> prep_nC p \<noteq> 0 \<and>
          prep_nC p \<le> fst cur \<and> snd cur \<le> prep_nH p
      | CONFIRM c \<Rightarrow> areBallotsCompatible ballot (conf_ballot c) \<and> conf_nCommit c \<le> fst cur
      | EXTERNALIZE e \<Rightarrow>
          areBallotsCompatible ballot (ext_commit e) \<and> counter (ext_commit e) \<le> fst cur)"

definition getCompanionQuorumSetHash :: "ballot_statement \<Rightarrow> hash" where
  "getCompanionQuorumSetHash st =
     (case st_pledges st of
        PREPARE p \<Rightarrow> prep_quorumSetHash p
      | CONFIRM c \<Rightarrow> conf_quorumSetHash c
      | EXTERNALIZE e \<Rightarrow> ext_commitQuorumSetHash e)"

definition getWorkingBallot :: "ballot_statement \<Rightarrow> scp_ballot" where
  "getWorkingBallot st =
     (case st_pledges st of
        PREPARE p \<Rightarrow> prep_ballot p
      | CONFIRM c \<Rightarrow> SCPBallot (conf_nCommit c) (bvalue (conf_ballot c))
      | EXTERNALIZE e \<Rightarrow> ext_commit e)"

definition statementBallotCounter :: "ballot_statement \<Rightarrow> uint32" where
  "statementBallotCounter st =
     (case st_pledges st of
        PREPARE p \<Rightarrow> counter (prep_ballot p)
      | CONFIRM c \<Rightarrow> counter (conf_ballot c)
      | EXTERNALIZE e \<Rightarrow> UINT32_MAX)"

definition getStatementValues :: "ballot_statement \<Rightarrow> scp_value list" where
  "getStatementValues st =
     (case st_pledges st of
        PREPARE p \<Rightarrow>
          let vs0 = (if counter (prep_ballot p) \<noteq> 0 then [bvalue (prep_ballot p)] else []);
              vs1 = (case prep_prepared p of Some q \<Rightarrow> sset_insert (bvalue q) vs0 | None \<Rightarrow> vs0)
          in (case prep_preparedPrime p of Some q \<Rightarrow> sset_insert (bvalue q) vs1 | None \<Rightarrow> vs1)
      | CONFIRM c \<Rightarrow> [bvalue (conf_ballot c)]
      | EXTERNALIZE e \<Rightarrow> [bvalue (ext_commit e)])"

section \<open>Lemmas\<close>

lemma compareBallots_iff:
  "compareBallots b1 b2 < 0 \<longleftrightarrow> b1 < b2"
  "compareBallots b1 b2 \<le> 0 \<longleftrightarrow> b1 \<le> b2"
  "compareBallots b1 b2 = 0 \<longleftrightarrow> b1 = b2"
  "0 < compareBallots b1 b2 \<longleftrightarrow> b2 < b1"
  "0 \<le> compareBallots b1 b2 \<longleftrightarrow> b2 \<le> b1"
  by (cases b1; cases b2; force simp: compareBallots_def less_scp_ballot_def less_eq_scp_ballot_def)+

lemma lessAndCompatible_iff:
  "areBallotsLessAndCompatible b1 b2 \<longleftrightarrow> counter b1 \<le> counter b2 \<and> bvalue b1 = bvalue b2"
  by (auto simp: areBallotsLessAndCompatible_def areBallotsCompatible_def compareBallots_iff
      less_eq_scp_ballot_def)

lemma lessAndIncompatible_iff:
  "areBallotsLessAndIncompatible b1 b2 \<longleftrightarrow> b1 \<le> b2 \<and> bvalue b1 \<noteq> bvalue b2"
  by (auto simp: areBallotsLessAndIncompatible_def areBallotsCompatible_def compareBallots_iff)

lemma compareBallots_ptr_iff:
  "compareBallots_ptr x y = 0 \<longleftrightarrow> x = y"
  "compareBallots_ptr x y < 0 \<longleftrightarrow> (case y of None \<Rightarrow> False | Some b \<Rightarrow> (case x of None \<Rightarrow> True | Some a \<Rightarrow> a < b))"
  by (cases x; cases y; simp add: compareBallots_iff)+

lemmas ballot_iffs = compareBallots_iff lessAndCompatible_iff lessAndIncompatible_iff
  areBallotsCompatible_def

end
