(* ===== verification/Slot_Base.thy ===== *)
theory Slot_Base
  imports Ballot_Statements
begin

text \<open>
  The services \<^verbatim>\<open>scp/Slot.cpp\<close> offers to the two protocols: federated voting over a map of
  envelopes, signing and recording of statements, lookup of the latest message of a node.
\<close>

section \<open>Construction and small accessors\<close>

definition new_Slot :: "uint64 \<Rightarrow> local_node \<Rightarrow> slot" where
  "new_Slot slotIndex ln =
     \<lparr>mSlotIndex = slotIndex, mStatementsHistory = [], mFullyValidated = mIsValidator ln,
      mGotVBlocking = False, mEvents = [],
      mRoundNumber = 0, mVotes = [], mAccepted = [], mCandidates = [], mLatestNominations = [],
      mNomLastEnvelope = None, mRoundLeaders = [], mNominationStarted = False,
      mLatestCompositeCandidate = None, mPreviousValue = [], mNomTimerExpCount = 0,
      mHeardFromQuorum = False, mCurrentBallot = None, mPrepared = None, mPreparedPrime = None,
      mHighBallot = None, mCommit = None, mLatestEnvelopes = [], mPhase = SCP_PHASE_PREPARE,
      mValueOverride = None, mCurrentMessageLevel = 0, mTimerExpCount = 0,
      mLastEnvelope = None, mLastEnvelopeEmit = None\<rparr>"

definition setFullyValidated :: "bool \<Rightarrow> slot \<Rightarrow> slot" where
  "setFullyValidated b s = s\<lparr>mFullyValidated := b\<rparr>"

definition stopNomination :: "slot \<Rightarrow> slot" where
  "stopNomination s = s\<lparr>mNominationStarted := False\<rparr>"

definition recordStatement :: "scp_statement \<Rightarrow> slot \<Rightarrow> slot" where
  "recordStatement st s =
     s\<lparr>mStatementsHistory := mStatementsHistory s @ [(st, mFullyValidated s)]\<rparr>"

text \<open>\<^verbatim>\<open>createEnvelope\<close> fills in the node and the slot and signs; \<open>inj\<close> is the arm of the XDR
  union the pledges belong to.\<close>

definition createEnvelope ::
  "scp_ctx \<Rightarrow> ('p \<Rightarrow> scp_pledges) \<Rightarrow> 'p \<Rightarrow> slot \<Rightarrow> 'p envelope_of" where
  "createEnvelope ctx arm pl s =
     (let st = \<lparr>st_nodeID = mNodeID (ctx_local ctx), st_slotIndex = mSlotIndex s, st_pledges = pl\<rparr>
      in \<lparr>env_statement = st, env_signature = signEnvelope (ctx_driver ctx) (map_statement arm st)\<rparr>)"

section \<open>Quorum sets of statements\<close>

definition getCompanionQuorumSetHashFromStatement :: "scp_statement \<Rightarrow> hash" where
  "getCompanionQuorumSetHashFromStatement st =
     (case st_pledges st of
        BALLOT (PREPARE p) \<Rightarrow> prep_quorumSetHash p
      | BALLOT (CONFIRM c) \<Rightarrow> conf_quorumSetHash c
      | BALLOT (EXTERNALIZE e) \<Rightarrow> ext_commitQuorumSetHash e
      | NOMINATE n \<Rightarrow> nom_quorumSetHash n)"

definition getQuorumSetFromStatement :: "scp_ctx \<Rightarrow> scp_statement \<Rightarrow> scp_quorum_set option" where
  "getQuorumSetFromStatement ctx st =
     (case st_pledges st of
        BALLOT (EXTERNALIZE e) \<Rightarrow> Some (getSingletonQSet (st_nodeID st))
      | BALLOT (PREPARE p) \<Rightarrow> getQSet (ctx_driver ctx) (prep_quorumSetHash p)
      | BALLOT (CONFIRM c) \<Rightarrow> getQSet (ctx_driver ctx) (conf_quorumSetHash c)
      | NOMINATE n \<Rightarrow> getQSet (ctx_driver ctx) (nom_quorumSetHash n))"

section \<open>Federated voting\<close>

definition Slot_federatedAccept ::
  "scp_ctx \<Rightarrow> ('p \<Rightarrow> scp_pledges) \<Rightarrow> ('p statement_of \<Rightarrow> bool) \<Rightarrow> ('p statement_of \<Rightarrow> bool) \<Rightarrow>
   'p env_map \<Rightarrow> bool" where
  "Slot_federatedAccept ctx arm voted accepted envs =
     (if isVBlocking_map (mQSet (ctx_local ctx)) envs accepted then True
      else if isQuorum (mQSet (ctx_local ctx)) envs
                (\<lambda>st. getQuorumSetFromStatement ctx (map_statement arm st))
                (\<lambda>st. accepted st \<or> voted st)
           then True
           else False)"

definition Slot_federatedRatify ::
  "scp_ctx \<Rightarrow> ('p \<Rightarrow> scp_pledges) \<Rightarrow> ('p statement_of \<Rightarrow> bool) \<Rightarrow> 'p env_map \<Rightarrow> bool" where
  "Slot_federatedRatify ctx arm voted envs =
     isQuorum (mQSet (ctx_local ctx)) envs
       (\<lambda>st. getQuorumSetFromStatement ctx (map_statement arm st)) voted"

section \<open>Latest messages\<close>

definition BallotProtocol_getLatestMessage :: "node_id \<Rightarrow> slot \<Rightarrow> scp_envelope option" where
  "BallotProtocol_getLatestMessage n s =
     map_option (map_envelope BALLOT) (map_of (mLatestEnvelopes s) n)"

definition NominationProtocol_getLatestMessage :: "node_id \<Rightarrow> slot \<Rightarrow> scp_envelope option" where
  "NominationProtocol_getLatestMessage n s =
     map_option (map_envelope NOMINATE) (map_of (mLatestNominations s) n)"

definition getLatestMessage :: "node_id \<Rightarrow> slot \<Rightarrow> scp_envelope option" where
  "getLatestMessage n s =
     (case BallotProtocol_getLatestMessage n s of
        None \<Rightarrow> NominationProtocol_getLatestMessage n s
      | Some m \<Rightarrow> Some m)"

definition maybeSetGotVBlocking :: "scp_ctx \<Rightarrow> slot \<Rightarrow> slot" where
  "maybeSetGotVBlocking ctx s =
     (if mGotVBlocking s then s
      else let qSet = mQSet (ctx_local ctx);
               nodes = snd (forAllNodes
                 (\<lambda>n ns. (True, if getLatestMessage n s \<noteq> None then ns @ [n] else ns)) qSet [])
           in s\<lparr>mGotVBlocking := isVBlocking qSet nodes\<rparr>)"

section \<open>Lemmas\<close>

lemma Slot_federatedAccept_iff:
  "Slot_federatedAccept ctx arm voted accepted envs \<longleftrightarrow>
     isVBlocking_map (mQSet (ctx_local ctx)) envs accepted \<or>
     Slot_federatedRatify ctx arm (\<lambda>st. accepted st \<or> voted st) envs"
  by (simp add: Slot_federatedAccept_def Slot_federatedRatify_def)

lemma filterNodes_mono:
  "(\<And>n e. (n, e) \<in> set m \<Longrightarrow> flt (env_statement e) \<Longrightarrow> flt' (env_statement e)) \<Longrightarrow>
   set (filterNodes m flt) \<subseteq> set (filterNodes m flt')"
  by (force simp: filterNodes_def)

lemma isQuorum_mono:
  assumes "isQuorum q m qf flt"
    and "\<And>n e. (n, e) \<in> set m \<Longrightarrow> flt (env_statement e) \<Longrightarrow> flt' (env_statement e)"
  shows "isQuorum q m qf flt'"
  using assms(1) filterNodes_mono [of m flt flt'] assms(2) unfolding isQuorum_iff by (meson subset_trans)

lemma Slot_federatedRatify_mono:
  assumes "Slot_federatedRatify ctx arm flt m"
    and "\<And>n e. (n, e) \<in> set m \<Longrightarrow> flt (env_statement e) \<Longrightarrow> flt' (env_statement e)"
  shows "Slot_federatedRatify ctx arm flt' m"
  using assms unfolding Slot_federatedRatify_def by (rule isQuorum_mono)

lemma isVBlocking_map_mono:
  assumes "isVBlocking_map q m flt"
    and "\<And>n e. (n, e) \<in> set m \<Longrightarrow> flt (env_statement e) \<Longrightarrow> flt' (env_statement e)"
  shows "isVBlocking_map q m flt'"
  using assms(1) unfolding isVBlocking_map_def
  by (rule isVBlocking_mono) (rule filterNodes_mono, rule assms(2))

lemma federatedAccept_mono:
  assumes "Slot_federatedAccept ctx arm voted accepted m"
    and "\<And>n e. (n, e) \<in> set m \<Longrightarrow> accepted (env_statement e) \<Longrightarrow> accepted' (env_statement e)"
    and "\<And>n e. (n, e) \<in> set m \<Longrightarrow> voted (env_statement e) \<Longrightarrow> accepted' (env_statement e) \<or> voted' (env_statement e)"
  shows "Slot_federatedAccept ctx arm voted' accepted' m"
  using assms(1) unfolding Slot_federatedAccept_iff
proof
  assume "isVBlocking_map (mQSet (ctx_local ctx)) m accepted"
  then have "isVBlocking_map (mQSet (ctx_local ctx)) m accepted'"
    by (rule isVBlocking_map_mono) (rule assms(2))
  then show "isVBlocking_map (mQSet (ctx_local ctx)) m accepted' \<or>
     Slot_federatedRatify ctx arm (\<lambda>st. accepted' st \<or> voted' st) m" ..
next
  assume "Slot_federatedRatify ctx arm (\<lambda>st. accepted st \<or> voted st) m"
  then have "Slot_federatedRatify ctx arm (\<lambda>st. accepted' st \<or> voted' st) m"
    by (rule Slot_federatedRatify_mono) (use assms(2,3) in blast)
  then show "isVBlocking_map (mQSet (ctx_local ctx)) m accepted' \<or>
     Slot_federatedRatify ctx arm (\<lambda>st. accepted' st \<or> voted' st) m" ..
qed

lemma federatedRatify_accept:
  "Slot_federatedRatify ctx arm accepted m \<Longrightarrow> Slot_federatedAccept ctx arm voted accepted m"
  unfolding Slot_federatedAccept_iff by (metis (mono_tags, lifting) Slot_federatedRatify_mono)

end
