(* ===== verification/Ballot_Protocol.thy ===== *)
theory Ballot_Protocol
  imports Slot_Base
begin

text \<open>
  The ballot protocol of a slot, \<^verbatim>\<open>scp/BallotProtocol.cpp\<close>: one definition per method, over the
  slot state, in the order in which they call each other.

  The code is recursive through \<^verbatim>\<open>emitCurrentStateStatement\<close>: emitting a statement feeds it
  back to \<^verbatim>\<open>Slot::processEnvelope\<close>, whose \<^verbatim>\<open>advanceSlot\<close> may take further steps and emit
  again.  The methods below take the emitter as an argument \<open>emit\<close>; the last section closes the
  recursion.  A result is an error (exception, failed assertion, null dereference) or the new
  state; an error ends the call, and the half-updated object it leaves behind is not modelled.

  Logging and the tracing macros are left out, \<^verbatim>\<open>wrapValue\<close> and \<^verbatim>\<open>wrapEnvelope\<close> only wrap.
\<close>

abbreviation ok :: "'a \<Rightarrow> slot \<Rightarrow> ('a \<times> slot) scp_result" where
  "ok r s \<equiv> Inr (r, s)"

definition dbgAssert :: "bool \<Rightarrow> scp_assert \<Rightarrow> unit scp_result" where
  "dbgAssert b a = (if b then Inr () else Inl (DbgAssert a))"

text \<open>Dereference of a pointer.\<close>

definition deref :: "'a option \<Rightarrow> 'a scp_result" where
  "deref x = (case x of None \<Rightarrow> Inl NullPointer | Some y \<Rightarrow> Inr y)"

definition MAX_ADVANCE_SLOT_RECURSION :: nat where
  "MAX_ADVANCE_SLOT_RECURSION = 50"

section \<open>Recording and validating statements\<close>

definition isNewerStatement_for :: "node_id \<Rightarrow> ballot_statement \<Rightarrow> slot \<Rightarrow> bool" where
  "isNewerStatement_for nodeID st s =
     (case map_of (mLatestEnvelopes s) nodeID of
        None \<Rightarrow> True
      | Some old \<Rightarrow> isNewerStatement (env_statement old) st)"

definition recordEnvelope :: "ballot_envelope \<Rightarrow> slot \<Rightarrow> slot" where
  "recordEnvelope env s =
     recordStatement (map_statement BALLOT (env_statement env))
       (s\<lparr>mLatestEnvelopes := smap_upd (st_nodeID (env_statement env)) env (mLatestEnvelopes s)\<rparr>)"

definition isPledgesSane :: "ballot_pledges \<Rightarrow> bool \<Rightarrow> bool" where
  "isPledgesSane pl self =
     (case pl of
        PREPARE p \<Rightarrow>
          (self \<or> counter (prep_ballot p) > 0) \<and>
          (case (prep_preparedPrime p, prep_prepared p) of
             (Some p', Some q) \<Rightarrow> areBallotsLessAndIncompatible p' q
           | _ \<Rightarrow> True) \<and>
          (prep_nH p = 0 \<or>
            (case prep_prepared p of Some q \<Rightarrow> prep_nH p \<le> counter q | None \<Rightarrow> False)) \<and>
          (prep_nC p = 0 \<or>
            prep_nH p \<noteq> 0 \<and> counter (prep_ballot p) \<ge> prep_nH p \<and> prep_nH p \<ge> prep_nC p)
      | CONFIRM c \<Rightarrow>
          counter (conf_ballot c) > 0 \<and> conf_nH c \<le> counter (conf_ballot c) \<and>
          conf_nCommit c \<le> conf_nH c
      | EXTERNALIZE e \<Rightarrow>
          counter (ext_commit e) > 0 \<and> ext_nH e \<ge> counter (ext_commit e))"

definition isStatementSane :: "scp_ctx \<Rightarrow> ballot_statement \<Rightarrow> bool \<Rightarrow> bool" where
  "isStatementSane ctx st self =
     (case getQuorumSetFromStatement ctx (map_statement BALLOT st) of
        None \<Rightarrow> False
      | Some qSet \<Rightarrow> isQuorumSetSane qSet False \<and> isPledgesSane (st_pledges st) self)"

definition validateValues :: "scp_ctx \<Rightarrow> ballot_statement \<Rightarrow> slot \<Rightarrow> validation_level" where
  "validateValues ctx st s =
     (let values = getStatementValues st in
      if values = [] then kInvalidValue
      else fold (\<lambda>v lv. if level_num lv > level_num kInvalidValue
                         then level_min (validateValue (ctx_driver ctx) (mSlotIndex s) v False) lv
                         else lv)
             values kFullyValidatedValue)"

definition sendLatestEnvelope :: "slot \<Rightarrow> slot" where
  "sendLatestEnvelope s =
     (case mLastEnvelope s of
        None \<Rightarrow> s
      | Some env \<Rightarrow>
          if mCurrentMessageLevel s = 0 \<and> mFullyValidated s
             \<and> (mLastEnvelopeEmit s = None \<or> mLastEnvelope s \<noteq> mLastEnvelopeEmit s)
          then log_event (EmitEnvelope (map_envelope BALLOT env))
                 (s\<lparr>mLastEnvelopeEmit := mLastEnvelope s\<rparr>)
          else s)"

section \<open>Federated voting over the latest envelopes\<close>

definition federatedAccept ::
  "scp_ctx \<Rightarrow> (ballot_statement \<Rightarrow> bool) \<Rightarrow> (ballot_statement \<Rightarrow> bool) \<Rightarrow> slot \<Rightarrow> bool" where
  "federatedAccept ctx voted accepted s =
     Slot_federatedAccept ctx BALLOT voted accepted (mLatestEnvelopes s)"

definition federatedRatify :: "scp_ctx \<Rightarrow> (ballot_statement \<Rightarrow> bool) \<Rightarrow> slot \<Rightarrow> bool" where
  "federatedRatify ctx voted s = Slot_federatedRatify ctx BALLOT voted (mLatestEnvelopes s)"

section \<open>Invariants and moving the current ballot\<close>

definition checkInvariants :: "slot \<Rightarrow> unit scp_result" where
  "checkInvariants s =
     seq (case mCurrentBallot s of
            Some b \<Rightarrow> dbgAssert (counter b \<noteq> 0) AssertCounterNonZero | None \<Rightarrow> Inr ())
    (\<lambda>_. seq (case (mPrepared s, mPreparedPrime s) of
            (Some p, Some p') \<Rightarrow> dbgAssert (areBallotsLessAndIncompatible p' p) AssertPreparedPair
          | _ \<Rightarrow> Inr ())
    (\<lambda>_. seq (case mHighBallot s of
            Some h \<Rightarrow>
              (case mCurrentBallot s of
                 None \<Rightarrow> Inl (DbgAssert AssertHighBallot)
               | Some b \<Rightarrow> dbgAssert (areBallotsLessAndCompatible h b) AssertHighBallot)
          | None \<Rightarrow> Inr ())
    (\<lambda>_. seq (case mCommit s of
            Some c \<Rightarrow>
              (case mCurrentBallot s of
                 None \<Rightarrow> Inl (DbgAssert AssertCommit)
               | Some b \<Rightarrow>
                   seq (deref (mHighBallot s)) (\<lambda>h.
                   seq (dbgAssert (areBallotsLessAndCompatible c h) AssertCommit)
                     (\<lambda>_. dbgAssert (areBallotsLessAndCompatible h b) AssertCommit)))
          | None \<Rightarrow> Inr ())
    (\<lambda>_. case mPhase s of
            SCP_PHASE_PREPARE \<Rightarrow> Inr ()
          | SCP_PHASE_CONFIRM \<Rightarrow> dbgAssert (mCommit s \<noteq> None) AssertPhase
          | SCP_PHASE_EXTERNALIZE \<Rightarrow>
              dbgAssert (mCommit s \<noteq> None \<and> mHighBallot s \<noteq> None) AssertPhase))))"

definition bumpToBallot :: "scp_ballot \<Rightarrow> bool \<Rightarrow> slot \<Rightarrow> slot scp_result" where
  "bumpToBallot ballot check s =
     seq (dbgAssert (mPhase s \<noteq> SCP_PHASE_EXTERNALIZE) AssertNotExternalized)
    (\<lambda>_. seq (if check
              then dbgAssert (case mCurrentBallot s of
                                None \<Rightarrow> True | Some b \<Rightarrow> compareBallots ballot b \<ge> 0)
                     AssertMonotoneBallot
              else Inr ())
    (\<lambda>_.
      let gotBumped = (case mCurrentBallot s of
                         None \<Rightarrow> True | Some b \<Rightarrow> counter b \<noteq> counter ballot);
          s1 = (if mCurrentBallot s = None
                then log_event (StartedBallotProtocol (mSlotIndex s) ballot) s else s);
          s2 = s1\<lparr>mCurrentBallot := Some ballot\<rparr>;
          s3 = (case mHighBallot s2 of
                  Some h \<Rightarrow> if \<not> areBallotsCompatible ballot h
                            then s2\<lparr>mHighBallot := None, mCommit := None\<rparr> else s2
                | None \<Rightarrow> s2)
      in Inr (if gotBumped then s3\<lparr>mHeardFromQuorum := False\<rparr> else s3)))"

definition updateCurrentValue :: "scp_ballot \<Rightarrow> slot \<Rightarrow> (bool \<times> slot) scp_result" where
  "updateCurrentValue ballot s =
     (if mPhase s \<noteq> SCP_PHASE_PREPARE \<and> mPhase s \<noteq> SCP_PHASE_CONFIRM then ok False s
      else case mCurrentBallot s of
        None \<Rightarrow>
          seq (bumpToBallot ballot True s) (\<lambda>s1. seq (checkInvariants s1) (\<lambda>_. ok True s1))
      | Some b \<Rightarrow>
          seq (dbgAssert (compareBallots b ballot \<le> 0) AssertCurrentLeBallot) (\<lambda>_.
          if (case mCommit s of Some c \<Rightarrow> \<not> areBallotsCompatible c ballot | None \<Rightarrow> False)
          then ok False s
          else if compareBallots b ballot < 0
               then seq (bumpToBallot ballot True s)
                      (\<lambda>s1. seq (checkInvariants s1) (\<lambda>_. ok True s1))
               else if compareBallots b ballot > 0 then ok False s
               else seq (checkInvariants s) (\<lambda>_. ok False s)))"

definition updateCurrentIfNeeded :: "scp_ballot \<Rightarrow> slot \<Rightarrow> (bool \<times> slot) scp_result" where
  "updateCurrentIfNeeded h s =
     (if (case mCurrentBallot s of None \<Rightarrow> True | Some b \<Rightarrow> compareBallots b h < 0)
      then seq (bumpToBallot h True s) (\<lambda>s1. ok True s1)
      else ok False s)"

section \<open>Timers\<close>

definition startBallotProtocolTimer :: "scp_ctx \<Rightarrow> slot \<Rightarrow> slot scp_result" where
  "startBallotProtocolTimer ctx s =
     seq (deref (mCurrentBallot s)) (\<lambda>b.
       Inr (log_event
         (SetupTimer BALLOT_PROTOCOL_TIMER (computeTimeout (ctx_driver ctx) (counter b))) s))"

definition stopBallotProtocolTimer :: "slot \<Rightarrow> slot" where
  "stopBallotProtocolTimer s = log_event (CancelTimer BALLOT_PROTOCOL_TIMER) s"

definition heardFilter :: "scp_ballot \<Rightarrow> ballot_statement \<Rightarrow> bool" where
  "heardFilter b st =
     (case st_pledges st of
        PREPARE p \<Rightarrow> counter b \<le> counter (prep_ballot p)
      | _ \<Rightarrow> True)"

definition checkHeardFromQuorum :: "scp_ctx \<Rightarrow> slot \<Rightarrow> slot scp_result" where
  "checkHeardFromQuorum ctx s =
     (case mCurrentBallot s of
        None \<Rightarrow> Inr s
      | Some b \<Rightarrow>
          if isQuorum (mQSet (ctx_local ctx)) (mLatestEnvelopes s)
               (\<lambda>st. getQuorumSetFromStatement ctx (map_statement BALLOT st)) (heardFilter b)
          then let oldHQ = mHeardFromQuorum s;
                   s1 = s\<lparr>mHeardFromQuorum := True\<rparr> in
               seq (if \<not> oldHQ
                    then let s2 = log_event (BallotDidHearFromQuorum (mSlotIndex s1) b) s1 in
                         if mPhase s2 \<noteq> SCP_PHASE_EXTERNALIZE
                         then startBallotProtocolTimer ctx s2 else Inr s2
                    else Inr s1)
                 (\<lambda>s3. Inr (if mPhase s3 = SCP_PHASE_EXTERNALIZE
                            then stopBallotProtocolTimer s3 else s3))
          else Inr (stopBallotProtocolTimer (s\<lparr>mHeardFromQuorum := False\<rparr>)))"

section \<open>Bumping the ballot\<close>

definition bumpState_to ::
  "(slot \<Rightarrow> slot scp_result) \<Rightarrow> scp_ctx \<Rightarrow> scp_value \<Rightarrow> uint32 \<Rightarrow> slot \<Rightarrow> (bool \<times> slot) scp_result"
where
  "bumpState_to emit ctx v n s =
     (if mPhase s \<noteq> SCP_PHASE_PREPARE \<and> mPhase s \<noteq> SCP_PHASE_CONFIRM then ok False s
      else
        let newb = SCPBallot n (case mValueOverride s of Some z \<Rightarrow> z | None \<Rightarrow> v) in
        seq (updateCurrentValue newb s) (\<lambda>(updated, s1).
          if updated
          then seq (emit s1) (\<lambda>s2. seq (checkHeardFromQuorum ctx s2) (\<lambda>s3. ok True s3))
          else ok False s1))"

definition bumpState ::
  "(slot \<Rightarrow> slot scp_result) \<Rightarrow> scp_ctx \<Rightarrow> scp_value \<Rightarrow> bool \<Rightarrow> slot \<Rightarrow> (bool \<times> slot) scp_result"
where
  "bumpState emit ctx v force s =
     (if \<not> force \<and> mCurrentBallot s \<noteq> None then ok False s
      else let n = (case mCurrentBallot s of Some b \<Rightarrow> counter b + 1 | None \<Rightarrow> 1)
           in bumpState_to emit ctx v n s)"

definition abandonBallot ::
  "(slot \<Rightarrow> slot scp_result) \<Rightarrow> scp_ctx \<Rightarrow> uint32 \<Rightarrow> slot \<Rightarrow> (bool \<times> slot) scp_result" where
  "abandonBallot emit ctx n s =
     (let v0 = mLatestCompositeCandidate s;
          v = (if v0 = None \<or> v0 = Some []
               then (case mCurrentBallot s of Some b \<Rightarrow> Some (bvalue b) | None \<Rightarrow> v0)
               else v0)
      in case v of
           None \<Rightarrow> ok False s
         | Some w \<Rightarrow>
             if w = [] then ok False s
             else if n = 0 then bumpState emit ctx w True s
             else bumpState_to emit ctx w n s)"

definition ballotProtocolTimerExpired ::
  "(slot \<Rightarrow> slot scp_result) \<Rightarrow> scp_ctx \<Rightarrow> slot \<Rightarrow> slot scp_result" where
  "ballotProtocolTimerExpired emit ctx s =
     seq (abandonBallot emit ctx 0 (s\<lparr>mTimerExpCount := mTimerExpCount s + 1\<rparr>)) (\<lambda>(_, s1). Inr s1)"

section \<open>Step 1 and 5: accept ballots as prepared\<close>

definition hintBallots :: "ballot_statement \<Rightarrow> scp_ballot list" where
  "hintBallots hint =
     (case st_pledges hint of
        PREPARE prep \<Rightarrow>
          let hb0 = [prep_ballot prep];
              hb1 = (case prep_prepared prep of Some p \<Rightarrow> sset_insert p hb0 | None \<Rightarrow> hb0)
          in (case prep_preparedPrime prep of Some p \<Rightarrow> sset_insert p hb1 | None \<Rightarrow> hb1)
      | CONFIRM con \<Rightarrow>
          sset_insert (SCPBallot UINT32_MAX (bvalue (conf_ballot con)))
            [SCPBallot (conf_nPrepared con) (bvalue (conf_ballot con))]
      | EXTERNALIZE ext \<Rightarrow> [SCPBallot UINT32_MAX (bvalue (ext_commit ext))])"

definition addCandidates :: "scp_ballot \<Rightarrow> ballot_statement \<Rightarrow> scp_ballot list \<Rightarrow> scp_ballot list" where
  "addCandidates topVote st cs =
     (case st_pledges st of
        PREPARE prep \<Rightarrow>
          let cs0 = (if areBallotsLessAndCompatible (prep_ballot prep) topVote
                     then sset_insert (prep_ballot prep) cs else cs);
              cs1 = (case prep_prepared prep of
                       Some p \<Rightarrow> if areBallotsLessAndCompatible p topVote
                                 then sset_insert p cs0 else cs0
                     | None \<Rightarrow> cs0)
          in (case prep_preparedPrime prep of
                Some p \<Rightarrow> if areBallotsLessAndCompatible p topVote then sset_insert p cs1 else cs1
              | None \<Rightarrow> cs1)
      | CONFIRM con \<Rightarrow>
          if areBallotsCompatible topVote (conf_ballot con)
          then let cs0 = sset_insert topVote cs in
               if conf_nPrepared con < counter topVote
               then sset_insert (SCPBallot (conf_nPrepared con) (bvalue topVote)) cs0 else cs0
          else cs
      | EXTERNALIZE ext \<Rightarrow>
          if areBallotsCompatible topVote (ext_commit ext) then sset_insert topVote cs else cs)"

text \<open>The while loop takes the hint ballots from the highest down.\<close>

definition getPrepareCandidates :: "ballot_statement \<Rightarrow> slot \<Rightarrow> scp_ballot list" where
  "getPrepareCandidates hint s =
     fold (\<lambda>topVote cs. fold (\<lambda>(n, e) cs'. addCandidates topVote (env_statement e) cs')
                          (mLatestEnvelopes s) cs)
       (rev (hintBallots hint)) []"

definition setPrepared :: "scp_ballot \<Rightarrow> slot \<Rightarrow> bool \<times> slot" where
  "setPrepared ballot s =
     (case mPrepared s of
        Some p \<Rightarrow>
          let cmp = compareBallots p ballot in
          if cmp < 0
          then let s1 = (if \<not> areBallotsCompatible p ballot
                         then s\<lparr>mPreparedPrime := Some p\<rparr> else s)
               in (True, s1\<lparr>mPrepared := Some ballot\<rparr>)
          else if cmp > 0
          then if (case mPreparedPrime s of
                     None \<Rightarrow> True
                   | Some p' \<Rightarrow> compareBallots p' ballot < 0 \<and> \<not> areBallotsCompatible p ballot)
               then (True, s\<lparr>mPreparedPrime := Some ballot\<rparr>)
               else (False, s)
          else (False, s)
      | None \<Rightarrow> (True, s\<lparr>mPrepared := Some ballot\<rparr>))"

text \<open>The condition under which \<^verbatim>\<open>setAcceptPrepared\<close> clears \<open>c\<close>.\<close>

definition abortsHigh :: "slot \<Rightarrow> scp_ballot \<Rightarrow> bool" where
  "abortsHigh s h \<longleftrightarrow>
     (case mPrepared s of Some p \<Rightarrow> areBallotsLessAndIncompatible h p | None \<Rightarrow> False) \<or>
     (case mPreparedPrime s of Some p' \<Rightarrow> areBallotsLessAndIncompatible h p' | None \<Rightarrow> False)"

definition setAcceptPrepared ::
  "(slot \<Rightarrow> slot scp_result) \<Rightarrow> scp_ballot \<Rightarrow> slot \<Rightarrow> (bool \<times> slot) scp_result" where
  "setAcceptPrepared emit ballot s =
     (let (didWork, s1) = setPrepared ballot s in
      seq (case (mCommit s1, mHighBallot s1) of
             (Some c, Some h) \<Rightarrow>
               if abortsHigh s1 h
               then seq (dbgAssert (mPhase s1 = SCP_PHASE_PREPARE) AssertPreparePhase)
                      (\<lambda>_. ok True (s1\<lparr>mCommit := None\<rparr>))
               else ok didWork s1
           | _ \<Rightarrow> ok didWork s1)
        (\<lambda>(didWork', s2).
           if didWork'
           then seq (emit (log_event (AcceptedBallotPrepared (mSlotIndex s2) ballot) s2))
                  (\<lambda>s3. ok True s3)
           else ok False s2))"

text \<open>The loop over the candidates, highest first.\<close>

fun acceptPreparedLoop ::
  "(slot \<Rightarrow> slot scp_result) \<Rightarrow> scp_ctx \<Rightarrow> scp_ballot list \<Rightarrow> slot \<Rightarrow> (bool \<times> slot) scp_result"
where
  "acceptPreparedLoop emit ctx [] s = ok False s"
| "acceptPreparedLoop emit ctx (ballot # bs) s =
     seq (if mPhase s = SCP_PHASE_CONFIRM
          then seq (deref (mPrepared s)) (\<lambda>p.
                 if \<not> areBallotsLessAndCompatible p ballot then Inr True
                 else seq (deref (mCommit s)) (\<lambda>c.
                      seq (dbgAssert (areBallotsCompatible c ballot) AssertCommitCompatible)
                        (\<lambda>_. Inr False)))
          else Inr False)
       (\<lambda>skip.
          if skip then acceptPreparedLoop emit ctx bs s
          else if (case mPreparedPrime s of
                     Some p' \<Rightarrow> compareBallots ballot p' \<le> 0 | None \<Rightarrow> False)
               then acceptPreparedLoop emit ctx bs s
          else if (case mPrepared s of
                     Some p \<Rightarrow> areBallotsLessAndCompatible ballot p | None \<Rightarrow> False)
               then acceptPreparedLoop emit ctx bs s
          else if federatedAccept ctx (votesPrepare ballot) (hasPreparedBallot ballot) s
               then setAcceptPrepared emit ballot s
               else acceptPreparedLoop emit ctx bs s)"

definition attemptAcceptPrepared ::
  "(slot \<Rightarrow> slot scp_result) \<Rightarrow> scp_ctx \<Rightarrow> ballot_statement \<Rightarrow> slot \<Rightarrow> (bool \<times> slot) scp_result"
where
  "attemptAcceptPrepared emit ctx hint s =
     (if mPhase s \<noteq> SCP_PHASE_PREPARE \<and> mPhase s \<noteq> SCP_PHASE_CONFIRM then ok False s
      else acceptPreparedLoop emit ctx (rev (getPrepareCandidates hint s)) s)"

section \<open>Step 2, 3 and 8: confirm ballots as prepared\<close>

text \<open>First loop: the highest candidate above \<open>h\<close> that is ratified, with the rest of the
  candidates from there on.\<close>

fun findNewH :: "scp_ctx \<Rightarrow> slot \<Rightarrow> scp_ballot list \<Rightarrow> (scp_ballot \<times> scp_ballot list) option" where
  "findNewH ctx s [] = None"
| "findNewH ctx s (ballot # bs) =
     (if (case mHighBallot s of Some h \<Rightarrow> compareBallots h ballot \<ge> 0 | None \<Rightarrow> False) then None
      else if federatedRatify ctx (hasPreparedBallot ballot) s then Some (ballot, ballot # bs)
      else findNewH ctx s bs)"

text \<open>Second loop: the lowest ratified candidate compatible with \<open>newH\<close> and not below \<open>b\<close>.\<close>

fun findNewC ::
  "scp_ctx \<Rightarrow> slot \<Rightarrow> scp_ballot \<Rightarrow> scp_ballot \<Rightarrow> scp_ballot list \<Rightarrow> scp_ballot \<Rightarrow> scp_ballot" where
  "findNewC ctx s b newH [] newC = newC"
| "findNewC ctx s b newH (ballot # bs) newC =
     (if compareBallots ballot b < 0 then newC
      else if \<not> areBallotsLessAndCompatible ballot newH then findNewC ctx s b newH bs newC
      else if federatedRatify ctx (hasPreparedBallot ballot) s
           then findNewC ctx s b newH bs ballot
           else newC)"

definition setConfirmPrepared ::
  "(slot \<Rightarrow> slot scp_result) \<Rightarrow> scp_ballot \<Rightarrow> scp_ballot \<Rightarrow> slot \<Rightarrow> (bool \<times> slot) scp_result" where
  "setConfirmPrepared emit newC newH s =
     (let s1 = s\<lparr>mValueOverride := Some (bvalue newH)\<rparr> in
      seq (if (case mCurrentBallot s1 of None \<Rightarrow> True | Some b \<Rightarrow> areBallotsCompatible b newH)
           then let (didWork1, s2) =
                      (if (case mHighBallot s1 of
                             None \<Rightarrow> True | Some h \<Rightarrow> compareBallots newH h > 0)
                       then (True, s1\<lparr>mHighBallot := Some newH\<rparr>) else (False, s1)) in
                seq (if counter newC \<noteq> 0
                     then seq (dbgAssert (mCommit s2 = None) AssertNoCommit)
                            (\<lambda>_. ok True (s2\<lparr>mCommit := Some newC\<rparr>))
                     else ok didWork1 s2)
                  (\<lambda>(didWork2, s3).
                     ok didWork2 (if didWork2
                                  then log_event (ConfirmedBallotPrepared (mSlotIndex s3) newH) s3
                                  else s3))
           else ok False s1)
        (\<lambda>(didWork, s4).
           seq (updateCurrentIfNeeded newH s4) (\<lambda>(updated, s5).
             if updated \<or> didWork then seq (emit s5) (\<lambda>s6. ok True s6) else ok False s5)))"

definition attemptConfirmPrepared ::
  "(slot \<Rightarrow> slot scp_result) \<Rightarrow> scp_ctx \<Rightarrow> ballot_statement \<Rightarrow> slot \<Rightarrow> (bool \<times> slot) scp_result"
where
  "attemptConfirmPrepared emit ctx hint s =
     (if mPhase s \<noteq> SCP_PHASE_PREPARE then ok False s
      else if mPrepared s = None then ok False s
      else case findNewH ctx s (rev (getPrepareCandidates hint s)) of
             None \<Rightarrow> ok False s
           | Some (newH, cur) \<Rightarrow>
               let b = (case mCurrentBallot s of Some b \<Rightarrow> b | None \<Rightarrow> zero_ballot);
                   newC = (if mCommit s = None \<and> \<not> abortsHigh s newH
                           then findNewC ctx s b newH cur zero_ballot else zero_ballot)
               in setConfirmPrepared emit newC newH s)"

section \<open>Steps 4 and 6: accept a commit interval\<close>

text \<open>The boundaries are given from the highest down.\<close>

fun findExtendedInterval :: "interval \<Rightarrow> uint32 list \<Rightarrow> (interval \<Rightarrow> bool) \<Rightarrow> interval" where
  "findExtendedInterval candidate [] pred = candidate"
| "findExtendedInterval candidate (b # bs) pred =
     (if fst candidate \<noteq> 0 \<and> b > snd candidate then findExtendedInterval candidate bs pred
      else let cur = (if fst candidate = 0 then (b, b) else (b, snd candidate)) in
           if pred cur then findExtendedInterval cur bs pred
           else if fst candidate \<noteq> 0 then candidate
           else findExtendedInterval candidate bs pred)"

definition addBoundaries :: "scp_ballot \<Rightarrow> ballot_statement \<Rightarrow> uint32 list \<Rightarrow> uint32 list" where
  "addBoundaries ballot st res =
     (case st_pledges st of
        PREPARE p \<Rightarrow>
          if areBallotsCompatible ballot (prep_ballot p) \<and> prep_nC p \<noteq> 0
          then sset_insert (prep_nH p) (sset_insert (prep_nC p) res) else res
      | CONFIRM c \<Rightarrow>
          if areBallotsCompatible ballot (conf_ballot c)
          then sset_insert (conf_nH c) (sset_insert (conf_nCommit c) res) else res
      | EXTERNALIZE e \<Rightarrow>
          if areBallotsCompatible ballot (ext_commit e)
          then sset_insert UINT32_MAX
                 (sset_insert (ext_nH e) (sset_insert (counter (ext_commit e)) res))
          else res)"

definition getCommitBoundariesFromStatements :: "scp_ballot \<Rightarrow> slot \<Rightarrow> uint32 list" where
  "getCommitBoundariesFromStatements ballot s =
     fold (\<lambda>(n, e) res. addBoundaries ballot (env_statement e) res) (mLatestEnvelopes s) []"

definition setAcceptCommit ::
  "(slot \<Rightarrow> slot scp_result) \<Rightarrow> scp_ballot \<Rightarrow> scp_ballot \<Rightarrow> slot \<Rightarrow> (bool \<times> slot) scp_result" where
  "setAcceptCommit emit c h s =
     (let s1 = s\<lparr>mValueOverride := Some (bvalue h)\<rparr>;
          (didWork1, s2) =
            (if (case (mHighBallot s1, mCommit s1) of
                   (Some oldH, Some oldC) \<Rightarrow> compareBallots oldH h \<noteq> 0 \<or> compareBallots oldC c \<noteq> 0
                 | _ \<Rightarrow> True)
             then (True, s1\<lparr>mCommit := Some c, mHighBallot := Some h\<rparr>) else (False, s1)) in
      seq (if mPhase s2 = SCP_PHASE_PREPARE
           then let s3 = s2\<lparr>mPhase := SCP_PHASE_CONFIRM\<rparr> in
                seq (case mCurrentBallot s3 of
                       Some b \<Rightarrow> if \<not> areBallotsLessAndCompatible h b
                                 then bumpToBallot h False s3 else Inr s3
                     | None \<Rightarrow> Inr s3)
                  (\<lambda>s4. ok True (s4\<lparr>mPreparedPrime := None\<rparr>))
           else ok didWork1 s2)
        (\<lambda>(didWork, s5).
           if didWork
           then seq (deref (mHighBallot s5)) (\<lambda>newH.
                seq (updateCurrentIfNeeded newH s5) (\<lambda>(_, s6).
                seq (emit (log_event (AcceptedCommit (mSlotIndex s6) h) s6)) (\<lambda>s7. ok True s7)))
           else ok False s5))"

text \<open>The ballot whose value a hint may help to commit.\<close>

definition hintCommitBallot :: "ballot_statement \<Rightarrow> scp_ballot option" where
  "hintCommitBallot hint =
     (case st_pledges hint of
        PREPARE prep \<Rightarrow>
          if prep_nC prep \<noteq> 0 then Some (SCPBallot (prep_nH prep) (bvalue (prep_ballot prep)))
          else None
      | CONFIRM con \<Rightarrow> Some (SCPBallot (conf_nH con) (bvalue (conf_ballot con)))
      | EXTERNALIZE ext \<Rightarrow> Some (SCPBallot (ext_nH ext) (bvalue (ext_commit ext))))"

definition acceptCommitPred :: "scp_ctx \<Rightarrow> slot \<Rightarrow> scp_ballot \<Rightarrow> interval \<Rightarrow> bool" where
  "acceptCommitPred ctx s ballot cur =
     federatedAccept ctx (votesCommit ballot cur) (commitPredicate ballot cur) s"

definition attemptAcceptCommit ::
  "(slot \<Rightarrow> slot scp_result) \<Rightarrow> scp_ctx \<Rightarrow> ballot_statement \<Rightarrow> slot \<Rightarrow> (bool \<times> slot) scp_result"
where
  "attemptAcceptCommit emit ctx hint s =
     (if mPhase s \<noteq> SCP_PHASE_PREPARE \<and> mPhase s \<noteq> SCP_PHASE_CONFIRM then ok False s
      else case hintCommitBallot hint of
        None \<Rightarrow> ok False s
      | Some ballot \<Rightarrow>
          seq (if mPhase s = SCP_PHASE_CONFIRM
               then seq (deref (mHighBallot s)) (\<lambda>h. Inr (\<not> areBallotsCompatible ballot h))
               else Inr False)
            (\<lambda>ret.
              if ret then ok False s
              else let boundaries = getCommitBoundariesFromStatements ballot s in
                if boundaries = [] then ok False s
                else let candidate =
                           findExtendedInterval (0, 0) (rev boundaries) (acceptCommitPred ctx s ballot) in
                  if fst candidate = 0 then ok False s
                  else seq (if mPhase s \<noteq> SCP_PHASE_CONFIRM then Inr True
                            else seq (deref (mHighBallot s)) (\<lambda>h. Inr (snd candidate > counter h)))
                         (\<lambda>better.
                            if better
                            then setAcceptCommit emit (SCPBallot (fst candidate) (bvalue ballot))
                                   (SCPBallot (snd candidate) (bvalue ballot)) s
                            else ok False s)))"

section \<open>Step 7: confirm a commit and externalize\<close>

definition setConfirmCommit ::
  "(slot \<Rightarrow> slot scp_result) \<Rightarrow> scp_ballot \<Rightarrow> scp_ballot \<Rightarrow> slot \<Rightarrow> (bool \<times> slot) scp_result" where
  "setConfirmCommit emit c h s =
     (let s1 = s\<lparr>mCommit := Some c, mHighBallot := Some h\<rparr> in
      seq (updateCurrentIfNeeded h s1) (\<lambda>(_, s2).
      let s3 = s2\<lparr>mPhase := SCP_PHASE_EXTERNALIZE\<rparr> in
      seq (emit s3) (\<lambda>s4.
      let s5 = stopNomination s4 in
      seq (deref (mCommit s5)) (\<lambda>commit.
        ok True (log_event (ValueExternalized (mSlotIndex s5) (bvalue commit)) s5)))))"

definition confirmCommitPred :: "scp_ctx \<Rightarrow> slot \<Rightarrow> scp_ballot \<Rightarrow> interval \<Rightarrow> bool" where
  "confirmCommitPred ctx s ballot cur = federatedRatify ctx (commitPredicate ballot cur) s"

definition attemptConfirmCommit ::
  "(slot \<Rightarrow> slot scp_result) \<Rightarrow> scp_ctx \<Rightarrow> ballot_statement \<Rightarrow> slot \<Rightarrow> (bool \<times> slot) scp_result"
where
  "attemptConfirmCommit emit ctx hint s =
     (if mPhase s \<noteq> SCP_PHASE_CONFIRM then ok False s
      else case (mHighBallot s, mCommit s) of
        (Some h, Some c) \<Rightarrow>
          (case st_pledges hint of
             PREPARE prep \<Rightarrow> ok False s
           | _ \<Rightarrow>
               (case hintCommitBallot hint of
                  None \<Rightarrow> ok False s
                | Some ballot \<Rightarrow>
                    if \<not> areBallotsCompatible ballot c then ok False s
                    else let boundaries = getCommitBoundariesFromStatements ballot s;
                             candidate = findExtendedInterval (0, 0) (rev boundaries)
                                           (confirmCommitPred ctx s ballot) in
                      if fst candidate \<noteq> 0
                      then setConfirmCommit emit (SCPBallot (fst candidate) (bvalue ballot))
                             (SCPBallot (snd candidate) (bvalue ballot)) s
                      else ok False s))
      | _ \<Rightarrow> ok False s)"

section \<open>Step 9: catch up with a v-blocking set\<close>

definition hasVBlockingSubsetStrictlyAheadOf :: "scp_ctx \<Rightarrow> ballot_pledges env_map \<Rightarrow> uint32 \<Rightarrow> bool" where
  "hasVBlockingSubsetStrictlyAheadOf ctx m n =
     isVBlocking_map (mQSet (ctx_local ctx)) m (\<lambda>st. statementBallotCounter st > n)"

definition allCounters :: "ballot_pledges env_map \<Rightarrow> uint32 \<Rightarrow> uint32 list" where
  "allCounters m localCounter =
     fold (\<lambda>(n, e) cs. let c = statementBallotCounter (env_statement e) in
             if c > localCounter then sset_insert c cs else cs) m []"

definition localCounter :: "slot \<Rightarrow> uint32" where
  "localCounter s = (case mCurrentBallot s of Some b \<Rightarrow> counter b | None \<Rightarrow> 0)"

definition attemptBump ::
  "(slot \<Rightarrow> slot scp_result) \<Rightarrow> scp_ctx \<Rightarrow> slot \<Rightarrow> (bool \<times> slot) scp_result" where
  "attemptBump emit ctx s =
     (if mPhase s = SCP_PHASE_PREPARE \<or> mPhase s = SCP_PHASE_CONFIRM
      then if \<not> hasVBlockingSubsetStrictlyAheadOf ctx (mLatestEnvelopes s) (localCounter s)
           then ok False s
           else case find (\<lambda>n. \<not> hasVBlockingSubsetStrictlyAheadOf ctx (mLatestEnvelopes s) n)
                       (allCounters (mLatestEnvelopes s) (localCounter s)) of
                  Some n \<Rightarrow> abandonBallot emit ctx n s
                | None \<Rightarrow> ok False s
      else ok False s)"

section \<open>Advancing the slot\<close>

text \<open>The do-while loop of \<^verbatim>\<open>advanceSlot\<close>.  Every successful bump moves the node to a later phase
  or to a higher counter, so the loop ends; the recursive call is guarded by this progress, and
  the guard is shown never to fail.\<close>

fun phase_num :: "scp_phase \<Rightarrow> nat" where
  "phase_num SCP_PHASE_PREPARE = 0"
| "phase_num SCP_PHASE_CONFIRM = 1"
| "phase_num SCP_PHASE_EXTERNALIZE = 2"

definition progressed :: "slot \<Rightarrow> slot \<Rightarrow> bool" where
  "progressed s s' \<longleftrightarrow>
     phase_num (mPhase s) < phase_num (mPhase s') \<or>
     mPhase s = mPhase s' \<and> localCounter s < localCounter s'"

function bumpLoop ::
  "(slot \<Rightarrow> slot scp_result) \<Rightarrow> scp_ctx \<Rightarrow> slot \<Rightarrow> (bool \<times> slot) scp_result" where
  "bumpLoop emit ctx s =
     seq (attemptBump emit ctx s) (\<lambda>(didBump, s1).
       if \<not> didBump then ok False s1
       else if progressed s s1 then seq (bumpLoop emit ctx s1) (\<lambda>(_, s2). ok True s2)
       else Inl OutOfFuel)"
  by pat_completeness auto
termination
proof (relation "inv_image (measure (\<lambda>p. 2 - p) <*lex*> measure (\<lambda>n. 2 ^ 32 - n))
    (\<lambda>(emit, ctx, s). (phase_num (mPhase s), unat (localCounter s)))", goal_cases)
  case 1
  then show ?case by auto
next
  case (2 emit ctx s r didBump s1)
  have "phase_num p \<le> 2" for p by (cases p) auto
  moreover have "unat (localCounter s1) < 2 ^ 32"
    using unsigned_less [where 'a = nat, of "localCounter s1"] by simp
  ultimately show ?case
    using 2 by (auto simp: progressed_def word_less_nat_alt diff_less_mono2 less_le_trans)
qed

declare bumpLoop.simps [simp del]

definition advanceSlot ::
  "(slot \<Rightarrow> slot scp_result) \<Rightarrow> scp_ctx \<Rightarrow> ballot_statement \<Rightarrow> slot \<Rightarrow> slot scp_result" where
  "advanceSlot emit ctx hint s =
     (let s0 = s\<lparr>mCurrentMessageLevel := mCurrentMessageLevel s + 1\<rparr> in
      if mCurrentMessageLevel s0 \<ge> MAX_ADVANCE_SLOT_RECURSION then Inl MaximumTransitionsReached
      else
      seq (attemptAcceptPrepared emit ctx hint s0) (\<lambda>(w1, s1).
      seq (attemptConfirmPrepared emit ctx hint s1) (\<lambda>(w2, s2).
      seq (attemptAcceptCommit emit ctx hint s2) (\<lambda>(w3, s3).
      seq (attemptConfirmCommit emit ctx hint s3) (\<lambda>(w4, s4).
      seq (if mCurrentMessageLevel s4 = 1
           then seq (bumpLoop emit ctx s4) (\<lambda>(w5, s5).
                seq (checkHeardFromQuorum ctx s5) (\<lambda>s6. ok w5 s6))
           else ok False s4) (\<lambda>(w6, s7).
      let s8 = s7\<lparr>mCurrentMessageLevel := mCurrentMessageLevel s7 - 1\<rparr>
      in Inr (if w1 \<or> w2 \<or> w3 \<or> w4 \<or> w6 then sendLatestEnvelope s8 else s8)))))))"

datatype envelope_state = INVALID | VALID

definition processEnvelope ::
  "(slot \<Rightarrow> slot scp_result) \<Rightarrow> scp_ctx \<Rightarrow> ballot_envelope \<Rightarrow> bool \<Rightarrow> slot \<Rightarrow>
   (envelope_state \<times> slot) scp_result" where
  "processEnvelope emit ctx envelope self s =
     (let statement = env_statement envelope; nodeID = st_nodeID statement in
      seq (dbgAssert (st_slotIndex statement = mSlotIndex s) AssertSlotIndex) (\<lambda>_.
      if \<not> isStatementSane ctx statement self then Inr (INVALID, s)
      else if \<not> isNewerStatement_for nodeID statement s then Inr (INVALID, s)
      else let validationRes = validateValues ctx statement s in
        if validationRes = kInvalidValue then Inr (INVALID, s)
        else if mPhase s \<noteq> SCP_PHASE_EXTERNALIZE
        then let s1 = (if validationRes = kMaybeValidValue then setFullyValidated False s else s) in
             seq (advanceSlot emit ctx statement (recordEnvelope envelope s1))
               (\<lambda>s2. Inr (VALID, s2))
        else seq (deref (mCommit s)) (\<lambda>c.
             if bvalue c = bvalue (getWorkingBallot statement)
             then Inr (VALID, recordEnvelope envelope s)
             else Inr (INVALID, s))))"

text \<open>\<^verbatim>\<open>Slot::processEnvelope\<close> for a statement of the ballot protocol.\<close>

definition Slot_processBallotEnvelope ::
  "(slot \<Rightarrow> slot scp_result) \<Rightarrow> scp_ctx \<Rightarrow> ballot_envelope \<Rightarrow> bool \<Rightarrow> slot \<Rightarrow>
   (envelope_state \<times> slot) scp_result" where
  "Slot_processBallotEnvelope emit ctx envelope self s =
     (let st = env_statement envelope in
      seq (dbgAssert (st_slotIndex st = mSlotIndex s) AssertSlotIndex) (\<lambda>_.
      let prev = (getLatestMessage (st_nodeID st) s \<noteq> None) in
      seq (processEnvelope emit ctx envelope self s) (\<lambda>(res, s1).
        Inr (res, if \<not> prev \<and> res = VALID then maybeSetGotVBlocking ctx s1 else s1))))"

section \<open>Emitting the current state\<close>

definition createStatement :: "scp_ctx \<Rightarrow> slot \<Rightarrow> ballot_pledges scp_result" where
  "createStatement ctx s =
     seq (checkInvariants s) (\<lambda>_.
      case mPhase s of
        SCP_PHASE_PREPARE \<Rightarrow>
          Inr (PREPARE
            \<lparr>prep_quorumSetHash = mQSetHash (ctx_local ctx),
             prep_ballot = (case mCurrentBallot s of Some b \<Rightarrow> b | None \<Rightarrow> zero_ballot),
             prep_prepared = mPrepared s,
             prep_preparedPrime = mPreparedPrime s,
             prep_nC = (case mCommit s of Some c \<Rightarrow> counter c | None \<Rightarrow> 0),
             prep_nH = (case mHighBallot s of Some h \<Rightarrow> counter h | None \<Rightarrow> 0)\<rparr>)
      | SCP_PHASE_CONFIRM \<Rightarrow>
          seq (deref (mCurrentBallot s)) (\<lambda>b.
          seq (deref (mPrepared s)) (\<lambda>p.
          seq (deref (mCommit s)) (\<lambda>c.
          seq (deref (mHighBallot s)) (\<lambda>h.
            Inr (CONFIRM
              \<lparr>conf_ballot = b, conf_nPrepared = counter p, conf_nCommit = counter c,
               conf_nH = counter h, conf_quorumSetHash = mQSetHash (ctx_local ctx)\<rparr>)))))
      | SCP_PHASE_EXTERNALIZE \<Rightarrow>
          seq (deref (mCommit s)) (\<lambda>c.
          seq (deref (mHighBallot s)) (\<lambda>h.
            Inr (EXTERNALIZE
              \<lparr>ext_commit = c, ext_nH = counter h,
               ext_commitQuorumSetHash = mQSetHash (ctx_local ctx)\<rparr>))))"

definition emitStatement ::
  "(slot \<Rightarrow> slot scp_result) \<Rightarrow> scp_ctx \<Rightarrow> slot \<Rightarrow> slot scp_result" where
  "emitStatement emit ctx s =
     seq (createStatement ctx s) (\<lambda>pl.
      let envelope = createEnvelope ctx BALLOT pl s;
          canEmit = (mCurrentBallot s \<noteq> None) in
      if map_of (mLatestEnvelopes s) (mNodeID (ctx_local ctx)) \<noteq> Some envelope
      then seq (Slot_processBallotEnvelope emit ctx envelope True s) (\<lambda>(res, s1).
             if res = VALID
             then if canEmit \<and>
                     (case mLastEnvelope s1 of
                        None \<Rightarrow> True
                      | Some l \<Rightarrow> isNewerStatement (env_statement l) (env_statement envelope))
                  then Inr (sendLatestEnvelope (s1\<lparr>mLastEnvelope := Some envelope\<rparr>))
                  else Inr s1
             else Inl MovedToBadStateBallot)
      else Inr s)"

text \<open>Closing the recursion: every nested emission happens one message level deeper, and
  \<^verbatim>\<open>advanceSlot\<close> throws at level 50, so 50 nested emissions are enough from level 0.\<close>

fun emitNested :: "nat \<Rightarrow> scp_ctx \<Rightarrow> slot \<Rightarrow> slot scp_result" where
  "emitNested 0 ctx s = Inl OutOfFuel"
| "emitNested (Suc n) ctx s = emitStatement (emitNested n ctx) ctx s"

definition emitCurrentStateStatement :: "scp_ctx \<Rightarrow> slot \<Rightarrow> slot scp_result" where
  "emitCurrentStateStatement ctx = emitNested MAX_ADVANCE_SLOT_RECURSION ctx"

section \<open>Restoring and reporting state\<close>

definition setStateFromBallotEnvelope :: "ballot_envelope \<Rightarrow> slot \<Rightarrow> slot scp_result" where
  "setStateFromBallotEnvelope e s =
     (if mCurrentBallot s \<noteq> None then Inl CannotSetStateBallot
      else let s1 = (recordEnvelope e s)\<lparr>mLastEnvelope := Some e, mLastEnvelopeEmit := Some e\<rparr> in
        case st_pledges (env_statement e) of
          PREPARE prep \<Rightarrow>
            let b = prep_ballot prep in
            seq (bumpToBallot b True s1) (\<lambda>s2.
            let s3 = (case prep_prepared prep of Some p \<Rightarrow> s2\<lparr>mPrepared := Some p\<rparr> | None \<Rightarrow> s2);
                s4 = (case prep_preparedPrime prep of
                        Some p \<Rightarrow> s3\<lparr>mPreparedPrime := Some p\<rparr> | None \<Rightarrow> s3);
                s5 = (if prep_nH prep \<noteq> 0
                      then s4\<lparr>mHighBallot := Some (SCPBallot (prep_nH prep) (bvalue b))\<rparr> else s4);
                s6 = (if prep_nC prep \<noteq> 0
                      then s5\<lparr>mCommit := Some (SCPBallot (prep_nC prep) (bvalue b))\<rparr> else s5)
            in Inr (s6\<lparr>mPhase := SCP_PHASE_PREPARE\<rparr>))
        | CONFIRM c \<Rightarrow>
            let v = bvalue (conf_ballot c) in
            seq (bumpToBallot (conf_ballot c) True s1) (\<lambda>s2.
              Inr (s2\<lparr>mPrepared := Some (SCPBallot (conf_nPrepared c) v),
                      mHighBallot := Some (SCPBallot (conf_nH c) v),
                      mCommit := Some (SCPBallot (conf_nCommit c) v),
                      mPhase := SCP_PHASE_CONFIRM\<rparr>))
        | EXTERNALIZE ext \<Rightarrow>
            let v = bvalue (ext_commit ext) in
            seq (bumpToBallot (SCPBallot UINT32_MAX v) True s1) (\<lambda>s2.
              Inr (s2\<lparr>mPrepared := Some (SCPBallot UINT32_MAX v),
                      mHighBallot := Some (SCPBallot (ext_nH ext) v),
                      mCommit := Some (ext_commit ext),
                      mPhase := SCP_PHASE_EXTERNALIZE\<rparr>)))"

text \<open>The envelopes \<^verbatim>\<open>processCurrentState\<close> passes to its callback, in order.\<close>

definition ballotCurrentState :: "scp_ctx \<Rightarrow> bool \<Rightarrow> slot \<Rightarrow> ballot_envelope list" where
  "ballotCurrentState ctx forceSelf s =
     map snd (filter (\<lambda>(n, e). forceSelf \<or> n \<noteq> mNodeID (ctx_local ctx) \<or> mFullyValidated s)
                (mLatestEnvelopes s))"

fun externalizingLoop ::
  "scp_ctx \<Rightarrow> slot \<Rightarrow> ballot_pledges env_map \<Rightarrow> ballot_envelope list scp_result" where
  "externalizingLoop ctx s [] = Inr []"
| "externalizingLoop ctx s ((n, e) # m) =
     seq (if n \<noteq> mNodeID (ctx_local ctx)
          then seq (deref (mCommit s)) (\<lambda>c.
                 Inr (areBallotsCompatible (getWorkingBallot (env_statement e)) c))
          else Inr (mFullyValidated s))
       (\<lambda>take. seq (externalizingLoop ctx s m) (\<lambda>res. Inr (if take then e # res else res)))"

definition getExternalizingState :: "scp_ctx \<Rightarrow> slot \<Rightarrow> ballot_envelope list scp_result" where
  "getExternalizingState ctx s =
     (if mPhase s = SCP_PHASE_EXTERNALIZE then externalizingLoop ctx s (mLatestEnvelopes s)
      else Inr [])"

datatype quorum_info_state = AGREE | MISSING | NO_INFO | DELAYED | DISAGREE

definition NUM_TIMEOUTS_THRESHOLD_FOR_REPORTING :: int where
  "NUM_TIMEOUTS_THRESHOLD_FOR_REPORTING = 2"

definition BallotProtocol_getState :: "scp_ctx \<Rightarrow> node_id \<Rightarrow> bool \<Rightarrow> slot \<Rightarrow> quorum_info_state" where
  "BallotProtocol_getState ctx n selfAlreadyMovedOn s =
     (if n = mNodeID (ctx_local ctx) then AGREE
      else case map_of (mLatestEnvelopes s) n of
        None \<Rightarrow>
          if mTimerExpCount s \<ge> NUM_TIMEOUTS_THRESHOLD_FOR_REPORTING \<or> selfAlreadyMovedOn
          then MISSING else NO_INFO
      | Some e \<Rightarrow>
          (case mLastEnvelopeEmit s of
             None \<Rightarrow> AGREE
           | Some selfEnv \<Rightarrow>
               let st = env_statement e;
                   externalized = (case st_pledges st of EXTERNALIZE _ \<Rightarrow> True | _ \<Rightarrow> False);
                   confirmedCommit = (case st_pledges st of
                       CONFIRM c \<Rightarrow> counter (conf_ballot c) = UINT32_MAX | _ \<Rightarrow> False);
                   state = (if mPhase s = SCP_PHASE_EXTERNALIZE \<and>
                               (\<not> externalized \<or> \<not> confirmedCommit) \<and> selfAlreadyMovedOn
                            then DELAYED else AGREE);
                   selfAcceptedConfirm =
                     (mPhase s = SCP_PHASE_CONFIRM \<or> mPhase s = SCP_PHASE_EXTERNALIZE);
                   otherAcceptedConfirm = (case st_pledges st of PREPARE _ \<Rightarrow> False | _ \<Rightarrow> True)
               in if selfAcceptedConfirm \<and> otherAcceptedConfirm \<and>
                     \<not> areBallotsCompatible (getWorkingBallot st)
                         (getWorkingBallot (env_statement selfEnv))
                  then DISAGREE else state))"

end
