(* ===== verification/Ballot_Machine.thy ===== *)
theory Ballot_Machine
  imports Ballot_Protocol
begin

text \<open>
  The abstract machine of the ballot protocol: the atomic steps of the SCP paper (accept and
  confirm prepared, accept and confirm commit, bump) on the fields \<open>b\<close>, \<open>p\<close>, \<open>p'\<close>, \<open>h\<close>,
  \<open>c\<close>, \<open>M\<close> and the phase, together with receiving a statement and saying one's own.
  The theory proves the invariant of a slot for the machine;  \<open>Ballot_Refinement\<close> shows that the
  methods of \<^verbatim>\<open>BallotProtocol\<close> only take such steps.
\<close>

section \<open>Effects of the steps\<close>

text \<open>Equality on the fields the protocol decides with.  The others (timers, log of driver calls,
  message level, validation flags, nomination and its statements) are free.\<close>

abbreviation ballotHistory :: "slot \<Rightarrow> (scp_statement \<times> bool) list" where
  "ballotHistory s \<equiv>
     filter (\<lambda>(st, _). case st_pledges st of BALLOT _ \<Rightarrow> True | NOMINATE _ \<Rightarrow> False) (mStatementsHistory s)"

definition same_core :: "slot \<Rightarrow> slot \<Rightarrow> bool" where
  "same_core s s' \<longleftrightarrow>
     mSlotIndex s' = mSlotIndex s \<and> ballotHistory s' = ballotHistory s \<and>
     mCurrentBallot s' = mCurrentBallot s \<and> mPrepared s' = mPrepared s \<and>
     mPreparedPrime s' = mPreparedPrime s \<and> mHighBallot s' = mHighBallot s \<and>
     mCommit s' = mCommit s \<and> mLatestEnvelopes s' = mLatestEnvelopes s \<and>
     mPhase s' = mPhase s \<and> mValueOverride s' = mValueOverride s"

definition moveTo :: "scp_ballot \<Rightarrow> slot \<Rightarrow> slot" where
  "moveTo ballot s =
     (case mHighBallot s of
        Some h \<Rightarrow> if bvalue h \<noteq> bvalue ballot
                  then s\<lparr>mCurrentBallot := Some ballot, mHighBallot := None, mCommit := None\<rparr>
                  else s\<lparr>mCurrentBallot := Some ballot\<rparr>
      | None \<Rightarrow> s\<lparr>mCurrentBallot := Some ballot\<rparr>)"

definition raiseTo :: "scp_ballot \<Rightarrow> slot \<Rightarrow> slot" where
  "raiseTo h s =
     (if (case mCurrentBallot s of None \<Rightarrow> True | Some b \<Rightarrow> b < h) then moveTo h s else s)"

definition withPrepared :: "scp_ballot \<Rightarrow> slot \<Rightarrow> slot" where
  "withPrepared ballot s =
     (let s1 = snd (setPrepared ballot s) in
      case mHighBallot s1 of
        Some h \<Rightarrow> if abortsHigh s1 h then s1\<lparr>mCommit := None\<rparr> else s1
      | None \<Rightarrow> s1)"

definition withConfirmed :: "scp_ballot \<Rightarrow> scp_ballot \<Rightarrow> slot \<Rightarrow> slot" where
  "withConfirmed newC newH s =
     (let s1 = s\<lparr>mValueOverride := Some (bvalue newH)\<rparr> in
      raiseTo newH
        (if (case mCurrentBallot s of None \<Rightarrow> True | Some b \<Rightarrow> bvalue b = bvalue newH)
         then s1\<lparr>mHighBallot := Some newH,
                 mCommit := (if counter newC \<noteq> 0 then Some newC else mCommit s)\<rparr>
         else s1))"

definition withAcceptCommit :: "scp_ballot \<Rightarrow> scp_ballot \<Rightarrow> slot \<Rightarrow> slot" where
  "withAcceptCommit c h s =
     (let s1 = s\<lparr>mValueOverride := Some (bvalue h), mCommit := Some c, mHighBallot := Some h\<rparr> in
      raiseTo h
        (if mPhase s = SCP_PHASE_PREPARE
         then (let s2 = s1\<lparr>mPhase := SCP_PHASE_CONFIRM, mPreparedPrime := None\<rparr> in
               case mCurrentBallot s of
                 Some b \<Rightarrow> if \<not> areBallotsLessAndCompatible h b then moveTo h s2 else s2
               | None \<Rightarrow> s2)
         else s1))"

definition withConfirmCommit :: "scp_ballot \<Rightarrow> scp_ballot \<Rightarrow> slot \<Rightarrow> slot" where
  "withConfirmCommit c h s =
     (raiseTo h (s\<lparr>mCommit := Some c, mHighBallot := Some h\<rparr>))\<lparr>mPhase := SCP_PHASE_EXTERNALIZE\<rparr>"

section \<open>The step relation\<close>

text \<open>\<open>R\<close> is the set of envelopes that may be received from the network.\<close>

inductive bstep :: "scp_ctx \<Rightarrow> ballot_envelope set \<Rightarrow> slot \<Rightarrow> slot \<Rightarrow> bool" for ctx R where
  other: "same_core s s' \<Longrightarrow> bstep ctx R s s'"
| receive: "e \<in> R \<Longrightarrow> isStatementSane ctx (env_statement e) False \<Longrightarrow>
    isNewerStatement_for (st_nodeID (env_statement e)) (env_statement e) s \<Longrightarrow>
    bstep ctx R s (recordEnvelope e s)"
| say: "createStatement ctx s = Inr pl \<Longrightarrow> e = createEnvelope ctx BALLOT pl s \<Longrightarrow>
    isStatementSane ctx (env_statement e) True \<Longrightarrow>
    isNewerStatement_for (st_nodeID (env_statement e)) (env_statement e) s \<Longrightarrow>
    bstep ctx R s (recordEnvelope e s)"
| accept_prepared: "mPhase s \<noteq> SCP_PHASE_EXTERNALIZE \<Longrightarrow>
    (mPhase s = SCP_PHASE_CONFIRM \<Longrightarrow>
       \<exists>p c. mPrepared s = Some p \<and> mCommit s = Some c \<and> areBallotsLessAndCompatible p ballot
           \<and> areBallotsCompatible c ballot) \<Longrightarrow>
    (\<And>p'. mPreparedPrime s = Some p' \<Longrightarrow> p' < ballot) \<Longrightarrow>
    (\<And>p. mPrepared s = Some p \<Longrightarrow> \<not> areBallotsLessAndCompatible ballot p) \<Longrightarrow>
    federatedAccept ctx (votesPrepare ballot) (hasPreparedBallot ballot) s \<Longrightarrow>
    (mPhase s = SCP_PHASE_CONFIRM \<Longrightarrow> mCommit (withPrepared ballot s) \<noteq> None) \<Longrightarrow>
    bstep ctx R s (withPrepared ballot s)"
| confirm_prepared: "mPhase s = SCP_PHASE_PREPARE \<Longrightarrow> mPrepared s \<noteq> None \<Longrightarrow>
    (\<And>h. mHighBallot s = Some h \<Longrightarrow> h < newH) \<Longrightarrow>
    federatedRatify ctx (hasPreparedBallot newH) s \<Longrightarrow>
    (counter newC \<noteq> 0 \<Longrightarrow>
       mCommit s = None \<and> \<not> abortsHigh s newH \<and> areBallotsLessAndCompatible newC newH \<and>
       (\<forall>b. mCurrentBallot s = Some b \<longrightarrow> b \<le> newC) \<and>
       federatedRatify ctx (hasPreparedBallot newC) s) \<Longrightarrow>
    bstep ctx R s (withConfirmed newC newH s)"
| accept_commit: "mPhase s \<noteq> SCP_PHASE_EXTERNALIZE \<Longrightarrow> mPrepared s \<noteq> None \<Longrightarrow>
    (mPhase s = SCP_PHASE_CONFIRM \<Longrightarrow>
       \<exists>h. mHighBallot s = Some h \<and> bvalue h = v \<and> counter h < hi) \<Longrightarrow>
    lo \<noteq> 0 \<Longrightarrow> lo \<le> hi \<Longrightarrow> acceptCommitPred ctx s (SCPBallot n v) (lo, hi) \<Longrightarrow>
    bstep ctx R s (withAcceptCommit (SCPBallot lo v) (SCPBallot hi v) s)"
| confirm_commit: "mPhase s = SCP_PHASE_CONFIRM \<Longrightarrow> mCommit s = Some c \<Longrightarrow> bvalue c = v \<Longrightarrow>
    lo \<noteq> 0 \<Longrightarrow> lo \<le> hi \<Longrightarrow> confirmCommitPred ctx s (SCPBallot n v) (lo, hi) \<Longrightarrow>
    bstep ctx R s (withConfirmCommit (SCPBallot lo v) (SCPBallot hi v) s)"
| bump: "mPhase s \<noteq> SCP_PHASE_EXTERNALIZE \<Longrightarrow>
    (\<And>b. mCurrentBallot s = Some b \<Longrightarrow> b < newb) \<Longrightarrow>
    (\<And>c. mCommit s = Some c \<Longrightarrow> bvalue c = bvalue newb) \<Longrightarrow>
    (\<And>z. mValueOverride s = Some z \<Longrightarrow> bvalue newb = z) \<Longrightarrow>
    bstep ctx R s (moveTo newb s)"

abbreviation reach :: "scp_ctx \<Rightarrow> ballot_envelope set \<Rightarrow> slot \<Rightarrow> slot \<Rightarrow> bool" where
  "reach ctx R \<equiv> (bstep ctx R)\<^sup>*\<^sup>*"

section \<open>The invariant of a slot\<close>

text \<open>What \<^verbatim>\<open>checkInvariants\<close> asserts (except that \<open>b\<close> has a non-zero counter), plus what the
  code relies on when it dereferences a pointer.\<close>

definition bp_inv :: "slot \<Rightarrow> bool" where
  "bp_inv s \<longleftrightarrow>
     smap_ok (mLatestEnvelopes s) \<and>
     (\<forall>p'. mPreparedPrime s = Some p' \<longrightarrow>
        (\<exists>p. mPrepared s = Some p \<and> p' < p \<and> bvalue p' \<noteq> bvalue p)) \<and>
     (\<forall>h. mHighBallot s = Some h \<longrightarrow>
        (\<exists>b. mCurrentBallot s = Some b \<and> areBallotsLessAndCompatible h b)) \<and>
     (\<forall>c. mCommit s = Some c \<longrightarrow>
        (\<exists>h. mHighBallot s = Some h \<and> areBallotsLessAndCompatible c h)) \<and>
     (mPhase s \<noteq> SCP_PHASE_PREPARE \<longrightarrow>
        mCommit s \<noteq> None \<and> mPrepared s \<noteq> None \<and> mPreparedPrime s = None)"

lemma same_core_refl [simp]: "same_core s s"
  by (simp add: same_core_def)

lemma same_core_trans: "same_core s s1 \<Longrightarrow> same_core s1 s2 \<Longrightarrow> same_core s s2"
  by (simp add: same_core_def)

lemma bp_inv_same_core: "same_core s s' \<Longrightarrow> bp_inv s \<Longrightarrow> bp_inv s'"
  by (simp add: same_core_def bp_inv_def)

lemma bp_inv_record: "bp_inv s \<Longrightarrow> bp_inv (recordEnvelope e s)"
  by (simp add: bp_inv_def recordEnvelope_def recordStatement_def)

lemma bp_inv_new_Slot: "bp_inv (new_Slot i ln)"
  by (simp add: bp_inv_def new_Slot_def)

lemma moveTo_simps [simp]:
  "mPrepared (moveTo b s) = mPrepared s" "mPreparedPrime (moveTo b s) = mPreparedPrime s"
  "mPhase (moveTo b s) = mPhase s" "mLatestEnvelopes (moveTo b s) = mLatestEnvelopes s"
  "mCurrentBallot (moveTo b s) = Some b" "mValueOverride (moveTo b s) = mValueOverride s"
  "mStatementsHistory (moveTo b s) = mStatementsHistory s" "mSlotIndex (moveTo b s) = mSlotIndex s"
  "mHighBallot (moveTo b s) = (case mHighBallot s of Some h \<Rightarrow> if bvalue h = bvalue b then Some h else None | None \<Rightarrow> None)"
  "mCommit (moveTo b s) = (case mHighBallot s of Some h \<Rightarrow> if bvalue h = bvalue b then mCommit s else None | None \<Rightarrow> mCommit s)"
  by (auto simp: moveTo_def split: option.splits)

lemma less_ballot_counter: "a < b \<Longrightarrow> counter a \<le> counter b" for a b :: scp_ballot
  by (auto simp: less_scp_ballot_def)

lemma setPrepared_simps [simp]:
  "mHighBallot (snd (setPrepared x s)) = mHighBallot s" "mCommit (snd (setPrepared x s)) = mCommit s"
  "mPhase (snd (setPrepared x s)) = mPhase s" "mLatestEnvelopes (snd (setPrepared x s)) = mLatestEnvelopes s"
  "mCurrentBallot (snd (setPrepared x s)) = mCurrentBallot s"
  "mValueOverride (snd (setPrepared x s)) = mValueOverride s"
  "mStatementsHistory (snd (setPrepared x s)) = mStatementsHistory s"
  "mSlotIndex (snd (setPrepared x s)) = mSlotIndex s"
  by (auto simp: setPrepared_def Let_def split: option.splits)

lemma withPrepared_simps [simp]:
  "mHighBallot (withPrepared x s) = mHighBallot s"
  "mPhase (withPrepared x s) = mPhase s" "mLatestEnvelopes (withPrepared x s) = mLatestEnvelopes s"
  "mCurrentBallot (withPrepared x s) = mCurrentBallot s"
  "mValueOverride (withPrepared x s) = mValueOverride s"
  "mStatementsHistory (withPrepared x s) = mStatementsHistory s"
  "mSlotIndex (withPrepared x s) = mSlotIndex s"
  "mPrepared (withPrepared x s) = mPrepared (snd (setPrepared x s))"
  "mPreparedPrime (withPrepared x s) = mPreparedPrime (snd (setPrepared x s))"
  by (auto simp: withPrepared_def Let_def split: option.splits)

lemma withPrepared_commit: "mCommit (withPrepared x s) = mCommit s \<or> mCommit (withPrepared x s) = None"
  by (auto simp: withPrepared_def Let_def split: option.splits)

text \<open>The pair \<open>p\<close>, \<open>p'\<close> after accepting \<open>x\<close>, under the guards of the step.\<close>

lemma setPrepared_pair:
  assumes "bp_inv s" "\<And>p'. mPreparedPrime s = Some p' \<Longrightarrow> p' < x"
    and "\<And>p. mPrepared s = Some p \<Longrightarrow> \<not> areBallotsLessAndCompatible x p"
  shows "mPrepared (snd (setPrepared x s)) =
           Some (case mPrepared s of None \<Rightarrow> x | Some p \<Rightarrow> max p x)"
    and "mPreparedPrime (snd (setPrepared x s)) =
           (case mPrepared s of
              None \<Rightarrow> None
            | Some p \<Rightarrow> if p < x then (if bvalue p = bvalue x then mPreparedPrime s else Some p)
                        else Some x)"
  using assms
  by (auto simp: setPrepared_def Let_def ballot_iffs bp_inv_def max_def not_less not_le
      split: option.splits dest: less_ballot_counter)

lemma raiseTo_simps [simp]:
  "mPrepared (raiseTo b s) = mPrepared s" "mPreparedPrime (raiseTo b s) = mPreparedPrime s"
  "mPhase (raiseTo b s) = mPhase s" "mLatestEnvelopes (raiseTo b s) = mLatestEnvelopes s"
  "mValueOverride (raiseTo b s) = mValueOverride s"
  "mStatementsHistory (raiseTo b s) = mStatementsHistory s" "mSlotIndex (raiseTo b s) = mSlotIndex s"
  "mCurrentBallot (raiseTo x s) = Some (case mCurrentBallot s of None \<Rightarrow> x | Some b \<Rightarrow> max b x)"
  by (auto simp: raiseTo_def max_def not_less split: option.splits)

text \<open>Raising \<open>b\<close> to a ballot of the same value as \<open>h\<close> keeps \<open>h\<close> and \<open>c\<close>.\<close>

lemma raiseTo_keeps:
  assumes "mHighBallot s = Some h" "bvalue h = bvalue x"
  shows "mHighBallot (raiseTo x s) = Some h" "mCommit (raiseTo x s) = mCommit s"
  using assms by (simp_all add: raiseTo_def split: option.splits)

lemma max_compat:
  "bvalue b = bvalue x \<Longrightarrow> counter h \<le> counter x \<Longrightarrow> counter h \<le> counter (max b x) \<and> bvalue (max b x) = bvalue x"
  by (auto simp: max_def less_eq_scp_ballot_def)

lemma bp_inv_moveTo:
  assumes "bp_inv s" and "\<And>b. mCurrentBallot s = Some b \<Longrightarrow> b \<le> x"
    and "mPhase s = SCP_PHASE_PREPARE \<or> (\<exists>c. mCommit s = Some c \<and> bvalue c = bvalue x)"
  shows "bp_inv (moveTo x s)"
proof -
  have "counter h \<le> counter x" if h: "mHighBallot s = Some h" for h
  proof -
    from assms(1) h obtain b where b: "mCurrentBallot s = Some b" "counter h \<le> counter b"
      unfolding bp_inv_def lessAndCompatible_iff by blast
    from assms(2) [OF b(1)] have "counter b \<le> counter x" by (auto simp: less_eq_scp_ballot_def)
    with b(2) show ?thesis by simp
  qed
  with assms(1,3) show ?thesis
    by (auto simp: bp_inv_def ballot_iffs split: option.splits)
qed

lemma bp_inv_withPrepared:
  assumes "bp_inv s" "\<And>p'. mPreparedPrime s = Some p' \<Longrightarrow> p' < x"
    and "\<And>p. mPrepared s = Some p \<Longrightarrow> \<not> areBallotsLessAndCompatible x p"
    and "mPhase s = SCP_PHASE_CONFIRM \<Longrightarrow>
       \<exists>p c. mPrepared s = Some p \<and> mCommit s = Some c \<and> areBallotsLessAndCompatible p x"
    and "mPhase s \<noteq> SCP_PHASE_PREPARE \<Longrightarrow> mCommit (withPrepared x s) \<noteq> None"
    and "mPhase s \<noteq> SCP_PHASE_EXTERNALIZE"
  shows "bp_inv (withPrepared x s)"
proof -
  have pair: "mPrepared (snd (setPrepared x s)) =
      Some (case mPrepared s of None \<Rightarrow> x | Some p \<Rightarrow> max p x)"
    "mPreparedPrime (snd (setPrepared x s)) =
      (case mPrepared s of
         None \<Rightarrow> None
       | Some p \<Rightarrow> if p < x then (if bvalue p = bvalue x then mPreparedPrime s else Some p)
                   else Some x)"
    by (rule setPrepared_pair; use assms(1-3) in blast)+
  have phase: "mPhase s = SCP_PHASE_PREPARE \<or> mPhase s = SCP_PHASE_CONFIRM"
    using assms(6) by (cases "mPhase s") auto
  have "p' < p \<and> bvalue p' \<noteq> bvalue p"
    if p: "mPrepared (withPrepared x s) = Some p" "mPreparedPrime (withPrepared x s) = Some p'" for p p'
  proof -
    from p(2) obtain q where q: "mPrepared s = Some q" unfolding withPrepared_simps pair
      by (cases "mPrepared s") auto
    then have old: "mPreparedPrime s = Some r \<Longrightarrow> r < q \<and> bvalue r \<noteq> bvalue q" for r
      using assms(1) unfolding bp_inv_def by auto
    have new: "\<not> (counter x \<le> counter q \<and> bvalue x = bvalue q)"
      using assms(3) [OF q] unfolding lessAndCompatible_iff .
    show ?thesis
    proof (cases "q < x")
      case True
      with p q old assms(2) show ?thesis
        unfolding withPrepared_simps pair by (auto simp: max_def split: if_splits)
    next
      case False
      then have "x \<le> q" by simp
      with new have "bvalue x \<noteq> bvalue q" by (auto simp: less_eq_scp_ballot_def)
      with False p q show ?thesis
        unfolding withPrepared_simps pair by (auto simp: max_def not_less less_le)
    qed
  qed
  moreover have "mPreparedPrime (withPrepared x s) = None" if "mPhase s = SCP_PHASE_CONFIRM"
  proof -
    from assms(4) [OF that] obtain q where q: "mPrepared s = Some q" "areBallotsLessAndCompatible q x"
      by blast
    with assms(3) [OF q(1)] have "q < x" "bvalue q = bvalue x"
      by (auto simp: lessAndCompatible_iff less_scp_ballot_def)
    with q(1) that assms(1) show ?thesis
      unfolding withPrepared_simps pair by (simp add: bp_inv_def)
  qed
  moreover have "mPrepared (withPrepared x s) \<noteq> None"
    unfolding withPrepared_simps pair by simp
  ultimately show ?thesis
    using assms(1,5) phase withPrepared_commit [of x s]
    unfolding bp_inv_def by auto
qed

lemma bp_inv_withConfirmed:
  assumes "bp_inv s" "mPhase s = SCP_PHASE_PREPARE"
    and "\<And>h. mHighBallot s = Some h \<Longrightarrow> h < newH"
    and "counter newC \<noteq> 0 \<Longrightarrow> areBallotsLessAndCompatible newC newH"
  shows "bp_inv (withConfirmed newC newH s)"
proof (cases "case mCurrentBallot s of None \<Rightarrow> True | Some b \<Rightarrow> bvalue b = bvalue newH")
  case True
  let ?s1 = "s\<lparr>mValueOverride := Some (bvalue newH), mHighBallot := Some newH,
      mCommit := (if counter newC \<noteq> 0 then Some newC else mCommit s)\<rparr>"
  have c: "mCommit s = Some c \<Longrightarrow> areBallotsLessAndCompatible c newH" for c
    using assms(1,3) True
    by (fastforce simp: bp_inv_def ballot_iffs dest: less_ballot_counter split: option.splits)
  have "mHighBallot (raiseTo newH ?s1) = Some newH"
    "mCommit (raiseTo newH ?s1) = (if counter newC \<noteq> 0 then Some newC else mCommit s)"
    by (auto simp: raiseTo_def split: option.splits)
  moreover have "withConfirmed newC newH s = raiseTo newH ?s1"
    using True by (simp add: withConfirmed_def)
  ultimately show ?thesis
    using assms True c max_compat [of _ newH newH]
    by (auto simp: bp_inv_def lessAndCompatible_iff split: option.splits)
next
  case False
  then have "withConfirmed newC newH s = raiseTo newH (s\<lparr>mValueOverride := Some (bvalue newH)\<rparr>)"
    by (simp add: withConfirmed_def)
  moreover have "bp_inv (s\<lparr>mValueOverride := Some (bvalue newH)\<rparr>)"
    using assms(1) by (simp add: bp_inv_def)
  ultimately show ?thesis
    using assms(2) by (auto simp: raiseTo_def intro!: bp_inv_moveTo split: option.splits)
qed

lemma bp_inv_withAcceptCommit:
  assumes "bp_inv s" "mPhase s \<noteq> SCP_PHASE_EXTERNALIZE" "mPrepared s \<noteq> None"
    and "mPhase s = SCP_PHASE_CONFIRM \<Longrightarrow> \<exists>h'. mHighBallot s = Some h' \<and> bvalue h' = bvalue h"
    and "areBallotsLessAndCompatible c h"
  shows "bp_inv (withAcceptCommit c h s)"
  using assms max_compat [of _ h h]
  by (cases "mPhase s")
    (auto simp: bp_inv_def withAcceptCommit_def Let_def raiseTo_def lessAndCompatible_iff not_less
      less_eq_scp_ballot_def less_scp_ballot_def split: option.splits)

lemma bp_inv_withConfirmCommit:
  assumes "bp_inv s" "mPhase s = SCP_PHASE_CONFIRM" "mCommit s = Some c'" "bvalue c' = bvalue h"
    and "areBallotsLessAndCompatible c h"
  shows "bp_inv (withConfirmCommit c h s)"
  using assms
  by (auto simp: bp_inv_def withConfirmCommit_def raiseTo_def lessAndCompatible_iff not_less
      less_eq_scp_ballot_def less_scp_ballot_def split: option.splits)

lemma bp_inv_bstep: "bstep ctx R s s' \<Longrightarrow> bp_inv s \<Longrightarrow> bp_inv s'"
proof (induction rule: bstep.induct)
  case (accept_prepared s ballot)
  then show ?case
    by (intro bp_inv_withPrepared) (blast | cases "mPhase s"; simp)+
next
  case (confirm_prepared s newH newC)
  then show ?case by (intro bp_inv_withConfirmed) auto
next
  case (accept_commit s v hi lo n)
  then show ?case by (intro bp_inv_withAcceptCommit) (auto simp: lessAndCompatible_iff)
next
  case (confirm_commit s c v lo hi n)
  then show ?case by (intro bp_inv_withConfirmCommit) (auto simp: lessAndCompatible_iff)
next
  case (bump s newb)
  then show ?case
    by (intro bp_inv_moveTo) (auto simp: bp_inv_def less_imp_le)
qed (auto intro: bp_inv_same_core bp_inv_record)

lemma bp_inv_reach: "reach ctx R s s' \<Longrightarrow> bp_inv s \<Longrightarrow> bp_inv s'"
  by (induction rule: rtranclp_induct) (auto intro: bp_inv_bstep)

section \<open>Progress\<close>

definition ballot_le :: "scp_ballot option \<Rightarrow> scp_ballot option \<Rightarrow> bool" where
  "ballot_le x y \<longleftrightarrow>
     (case x of None \<Rightarrow> True | Some a \<Rightarrow> (case y of None \<Rightarrow> False | Some b \<Rightarrow> a \<le> b))"

lemma ballot_le_refl [simp]: "ballot_le x x"
  by (simp add: ballot_le_def split: option.splits)

lemma ballot_le_trans: "ballot_le x y \<Longrightarrow> ballot_le y z \<Longrightarrow> ballot_le x z"
  by (auto simp: ballot_le_def split: option.splits)

text \<open>Phases only move forward; within a phase the current ballot only moves up; \<open>p\<close> is never
  lost; once a commit is accepted its value is fixed, and once it is confirmed nothing changes
  any more.\<close>

definition advances :: "slot \<Rightarrow> slot \<Rightarrow> bool" where
  "advances s s' \<longleftrightarrow>
     mSlotIndex s' = mSlotIndex s \<and>
     (phase_num (mPhase s) < phase_num (mPhase s') \<or>
      mPhase s' = mPhase s \<and> ballot_le (mCurrentBallot s) (mCurrentBallot s')) \<and>
     (mPrepared s \<noteq> None \<longrightarrow> mPrepared s' \<noteq> None) \<and>
     (mPhase s \<noteq> SCP_PHASE_PREPARE \<longrightarrow>
        map_option bvalue (mCommit s') = map_option bvalue (mCommit s)) \<and>
     (mPhase s = SCP_PHASE_EXTERNALIZE \<longrightarrow>
        mCommit s' = mCommit s \<and> mHighBallot s' = mHighBallot s)"

lemma advances_refl [simp]: "advances s s"
  by (simp add: advances_def)

lemma phase_num_inject [simp]: "phase_num x = phase_num y \<longleftrightarrow> x = y"
  by (cases x; cases y) auto

lemma advances_trans:
  assumes "advances s s1" "advances s1 s2"
  shows "advances s s2"
  unfolding advances_def
proof (intro conjI impI)
  show "mSlotIndex s2 = mSlotIndex s" "mPrepared s \<noteq> None \<Longrightarrow> mPrepared s2 \<noteq> None"
    using assms by (simp_all add: advances_def)
  show "phase_num (mPhase s) < phase_num (mPhase s2) \<or>
      mPhase s2 = mPhase s \<and> ballot_le (mCurrentBallot s) (mCurrentBallot s2)"
    using assms unfolding advances_def by (metis ballot_le_trans less_trans)
  have ext: "mPhase s1 = SCP_PHASE_EXTERNALIZE" if "mPhase s = SCP_PHASE_EXTERNALIZE"
    using that assms(1) by (cases "mPhase s1") (auto simp: advances_def)
  have prep: "mPhase s1 \<noteq> SCP_PHASE_PREPARE" if "mPhase s \<noteq> SCP_PHASE_PREPARE"
    using that assms(1) by (cases "mPhase s1"; cases "mPhase s") (auto simp: advances_def)
  show "map_option bvalue (mCommit s2) = map_option bvalue (mCommit s)"
    if "mPhase s \<noteq> SCP_PHASE_PREPARE"
    using that prep assms by (simp add: advances_def)
  show "mCommit s2 = mCommit s" "mHighBallot s2 = mHighBallot s"
    if "mPhase s = SCP_PHASE_EXTERNALIZE"
    using that ext assms by (simp_all add: advances_def)
qed

lemma raiseTo_le: "ballot_le (mCurrentBallot s) (mCurrentBallot (raiseTo x s))"
  by (auto simp: ballot_le_def split: option.splits)

lemma withConfirmed_simps [simp]:
  "mPrepared (withConfirmed newC newH s) = mPrepared s"
  "mPreparedPrime (withConfirmed newC newH s) = mPreparedPrime s"
  "mPhase (withConfirmed newC newH s) = mPhase s"
  "mLatestEnvelopes (withConfirmed newC newH s) = mLatestEnvelopes s"
  "mStatementsHistory (withConfirmed newC newH s) = mStatementsHistory s"
  "mSlotIndex (withConfirmed newC newH s) = mSlotIndex s"
  "mValueOverride (withConfirmed newC newH s) = Some (bvalue newH)"
  "mCurrentBallot (withConfirmed newC newH s) =
     Some (case mCurrentBallot s of None \<Rightarrow> newH | Some b \<Rightarrow> max b newH)"
  by (simp_all add: withConfirmed_def Let_def)

text \<open>The state \<^const>\<open>withAcceptCommit\<close> raises from.\<close>

lemma withAcceptCommit_pre:
  obtains s2 where "withAcceptCommit c h s = raiseTo h s2" "mHighBallot s2 = Some h"
    "mCommit s2 = Some c" "mPrepared s2 = mPrepared s" "mLatestEnvelopes s2 = mLatestEnvelopes s"
    "mStatementsHistory s2 = mStatementsHistory s" "mSlotIndex s2 = mSlotIndex s"
    "mValueOverride s2 = Some (bvalue h)"
    "mPhase s2 = (if mPhase s = SCP_PHASE_PREPARE then SCP_PHASE_CONFIRM else mPhase s)"
    "mPreparedPrime s2 = (if mPhase s = SCP_PHASE_PREPARE then None else mPreparedPrime s)"
    "mCurrentBallot s2 =
       (case mCurrentBallot s of
          None \<Rightarrow> None
        | Some b \<Rightarrow> Some (if mPhase s = SCP_PHASE_PREPARE \<and> \<not> areBallotsLessAndCompatible h b
                          then h else b))"
  by (rule that [OF withAcceptCommit_def [unfolded Let_def]]) (auto split: option.split)

lemma withAcceptCommit_simps [simp]:
  "mPrepared (withAcceptCommit c h s) = mPrepared s"
  "mLatestEnvelopes (withAcceptCommit c h s) = mLatestEnvelopes s"
  "mStatementsHistory (withAcceptCommit c h s) = mStatementsHistory s"
  "mSlotIndex (withAcceptCommit c h s) = mSlotIndex s"
  "mValueOverride (withAcceptCommit c h s) = Some (bvalue h)"
  "mPhase (withAcceptCommit c h s) =
     (if mPhase s = SCP_PHASE_PREPARE then SCP_PHASE_CONFIRM else mPhase s)"
  "mPreparedPrime (withAcceptCommit c h s) =
     (if mPhase s = SCP_PHASE_PREPARE then None else mPreparedPrime s)"
  "mHighBallot (withAcceptCommit c h s) = Some h"
  "mCommit (withAcceptCommit c h s) = Some c"
  "mCurrentBallot (withAcceptCommit c h s) =
     Some (case mCurrentBallot s of
             None \<Rightarrow> h
           | Some b \<Rightarrow> if mPhase s = SCP_PHASE_PREPARE \<and> \<not> areBallotsLessAndCompatible h b
                       then h else max b h)"
  by (rule withAcceptCommit_pre [of c h s];
      simp only: raiseTo_simps raiseTo_keeps; simp split: option.split)+

lemma withConfirmCommit_simps [simp]:
  "mPrepared (withConfirmCommit c h s) = mPrepared s"
  "mPreparedPrime (withConfirmCommit c h s) = mPreparedPrime s"
  "mLatestEnvelopes (withConfirmCommit c h s) = mLatestEnvelopes s"
  "mStatementsHistory (withConfirmCommit c h s) = mStatementsHistory s"
  "mSlotIndex (withConfirmCommit c h s) = mSlotIndex s"
  "mPhase (withConfirmCommit c h s) = SCP_PHASE_EXTERNALIZE"
  "mHighBallot (withConfirmCommit c h s) = Some h"
  "mCommit (withConfirmCommit c h s) = Some c"
  by (simp_all add: withConfirmCommit_def raiseTo_keeps)

lemma recordEnvelope_simps [simp]:
  "mPrepared (recordEnvelope e s) = mPrepared s" "mPreparedPrime (recordEnvelope e s) = mPreparedPrime s"
  "mCurrentBallot (recordEnvelope e s) = mCurrentBallot s" "mHighBallot (recordEnvelope e s) = mHighBallot s"
  "mCommit (recordEnvelope e s) = mCommit s" "mPhase (recordEnvelope e s) = mPhase s"
  "mSlotIndex (recordEnvelope e s) = mSlotIndex s" "mValueOverride (recordEnvelope e s) = mValueOverride s"
  "mLatestEnvelopes (recordEnvelope e s) =
     smap_upd (st_nodeID (env_statement e)) e (mLatestEnvelopes s)"
  "mStatementsHistory (recordEnvelope e s) =
     mStatementsHistory s @ [(map_statement BALLOT (env_statement e), mFullyValidated s)]"
  by (simp_all add: recordEnvelope_def recordStatement_def)

lemma bstep_advances: "bstep ctx R s s' \<Longrightarrow> bp_inv s \<Longrightarrow> advances s s'"
proof (induction rule: bstep.induct)
  case (accept_prepared s ballot)
  have "mPrepared (snd (setPrepared ballot s)) \<noteq> None"
    by (auto simp: setPrepared_def Let_def split: option.splits)
  moreover have "mPhase s = SCP_PHASE_PREPARE \<or> mPhase s = SCP_PHASE_CONFIRM"
    using accept_prepared by (cases "mPhase s") auto
  ultimately show ?case
    using accept_prepared withPrepared_commit [of ballot s] by (auto simp: advances_def)
next
  case (confirm_prepared s newH newC)
  then show ?case by (auto simp: advances_def ballot_le_def split: option.splits)
next
  case (accept_commit s v hi lo n)
  have "mPhase s = SCP_PHASE_PREPARE \<or> mPhase s = SCP_PHASE_CONFIRM"
    using accept_commit by (cases "mPhase s") auto
  then show ?case
  proof
    assume c: "mPhase s = SCP_PHASE_CONFIRM"
    with accept_commit obtain h where h: "mHighBallot s = Some h" "bvalue h = v" by blast
    with c accept_commit obtain d where "mCommit s = Some d" "bvalue d = v"
      by (auto simp: bp_inv_def lessAndCompatible_iff)
    with c show ?thesis
      by (simp add: advances_def ballot_le_def split: option.splits)
  qed (simp add: advances_def)
next
  case (bump s newb)
  have c: "mCommit (moveTo newb s) = mCommit s" if "mCommit s \<noteq> None"
  proof -
    from that obtain c where c: "mCommit s = Some c" by blast
    with bump.prems obtain h where "mHighBallot s = Some h" "bvalue c = bvalue h"
      unfolding bp_inv_def lessAndCompatible_iff by blast
    with c bump.hyps(3) [OF c] show ?thesis by simp
  qed
  have b: "ballot_le (mCurrentBallot s) (mCurrentBallot (moveTo newb s))"
    using bump.hyps(2) by (auto simp: ballot_le_def less_imp_le split: option.split)
  have "mPhase s \<noteq> SCP_PHASE_PREPARE \<Longrightarrow> mCommit s \<noteq> None"
    using bump.prems by (simp add: bp_inv_def)
  with b c bump.hyps(1) show ?case unfolding advances_def by simp
qed (auto simp: advances_def same_core_def)

lemma reach_advances: "reach ctx R s s' \<Longrightarrow> bp_inv s \<Longrightarrow> advances s s'"
proof (induction rule: rtranclp_induct)
  case (step s1 s2)
  then show ?case using bp_inv_reach bstep_advances advances_trans by blast
qed simp

lemma bstep_mono: "bstep ctx R s s' \<Longrightarrow> R \<subseteq> R' \<Longrightarrow> bstep ctx R' s s'"
  by (induction rule: bstep.induct) (blast intro: bstep.intros)+

lemma reach_mono: "reach ctx R s s' \<Longrightarrow> R \<subseteq> R' \<Longrightarrow> reach ctx R' s s'"
  by (induction rule: rtranclp_induct) (auto intro: rtranclp.rtrancl_into_rtrancl bstep_mono)

end
