(* ===== verification/Ballot_Contract.thy ===== *)
theory Ballot_Contract
  imports Ballot_Machine
begin

text \<open>
  What a method of \<^verbatim>\<open>BallotProtocol\<close> promises with respect to the abstract machine (the
  postcondition \<open>post\<close>, the precondition \<open>ready\<close> and the failures \<open>allowed\<close>), and the behaviour of
  the methods that do not emit a statement.
\<close>

section \<open>The contract\<close>

text \<open>The failures that depend on the peers or on the driver; all the others (null dereferences,
  the other assertions, exhausted recursion bounds) are excluded.\<close>

definition allowed :: "scp_error \<Rightarrow> bool" where
  "allowed e \<longleftrightarrow>
     e \<in> {MaximumTransitionsReached, MovedToBadStateBallot, DbgAssert AssertCounterNonZero,
          DbgAssert AssertCommitCompatible, DbgAssert AssertPreparePhase}"

fun is_externalized :: "driver_event \<Rightarrow> bool" where
  "is_externalized (ValueExternalized i v) = True"
| "is_externalized _ = False"

abbreviation ext_events :: "slot \<Rightarrow> driver_event list" where
  "ext_events s \<equiv> filter is_externalized (mEvents s)"

definition ext_rel :: "slot \<Rightarrow> slot \<Rightarrow> bool" where
  "ext_rel s s' \<longleftrightarrow>
     (if mPhase s \<noteq> SCP_PHASE_EXTERNALIZE \<and> mPhase s' = SCP_PHASE_EXTERNALIZE
      then \<exists>c. mCommit s' = Some c \<and>
             ext_events s' = ValueExternalized (mSlotIndex s') (bvalue c) # ext_events s
      else ext_events s' = ext_events s)"

text \<open>The ballot protocol leaves the state of the nomination protocol alone, except that it may stop
  it.\<close>

abbreviation nom_frame :: "slot \<Rightarrow> slot \<Rightarrow> bool" where
  "nom_frame s s' \<equiv>
     mRoundNumber s' = mRoundNumber s \<and> mVotes s' = mVotes s \<and> mAccepted s' = mAccepted s \<and>
     mCandidates s' = mCandidates s \<and> mLatestNominations s' = mLatestNominations s \<and>
     mNomLastEnvelope s' = mNomLastEnvelope s \<and> mRoundLeaders s' = mRoundLeaders s \<and>
     mLatestCompositeCandidate s' = mLatestCompositeCandidate s \<and>
     mPreviousValue s' = mPreviousValue s \<and> mNomTimerExpCount s' = mNomTimerExpCount s"

abbreviation bpost :: "scp_ctx \<Rightarrow> ballot_envelope set \<Rightarrow> slot \<Rightarrow> slot \<Rightarrow> bool" where
  "bpost ctx R s s' \<equiv>
     reach ctx R s s' \<and> mCurrentMessageLevel s' = mCurrentMessageLevel s \<and> ext_rel s s'"

definition post :: "scp_ctx \<Rightarrow> ballot_envelope set \<Rightarrow> slot \<Rightarrow> slot \<Rightarrow> bool" where
  "post ctx R s s' \<longleftrightarrow>
     bpost ctx R s s' \<and>
     nom_frame s s' \<and> (mNominationStarted s' \<longrightarrow> mNominationStarted s)"

text \<open>The states in which the emitter may be called with \<open>K\<close> further nested emissions.\<close>

definition ready :: "nat \<Rightarrow> slot \<Rightarrow> bool" where
  "ready K s \<longleftrightarrow>
     bp_inv s \<and> mCurrentMessageLevel s < MAX_ADVANCE_SLOT_RECURSION \<and>
     MAX_ADVANCE_SLOT_RECURSION \<le> mCurrentMessageLevel s + K"

text \<open>Changes outside the core that also leave level and externalized values alone.\<close>

definition quiet :: "slot \<Rightarrow> slot \<Rightarrow> bool" where
  "quiet s s' \<longleftrightarrow>
     mCurrentMessageLevel s' = mCurrentMessageLevel s \<and> ext_events s' = ext_events s \<and>
     nom_frame s s' \<and> mNominationStarted s' = mNominationStarted s"

lemma quiet_refl [simp]: "quiet s s"
  by (simp add: quiet_def)

lemma quiet_trans: "quiet s s1 \<Longrightarrow> quiet s1 s2 \<Longrightarrow> quiet s s2"
  by (simp add: quiet_def)

lemma quiet_log [simp]: "\<not> is_externalized e \<Longrightarrow> quiet s (log_event e s)"
  by (simp add: quiet_def log_event_def)

lemma core_log [simp]: "same_core s (log_event e s)"
  by (simp add: same_core_def log_event_def)

lemma post_refl [simp]: "post ctx R s s"
  by (simp add: post_def ext_rel_def)

lemma ext_rel_trans:
  assumes "advances s s1" "advances s1 s2" "ext_rel s s1" "ext_rel s1 s2"
  shows "ext_rel s s2"
proof -
  have "mPhase s = SCP_PHASE_EXTERNALIZE \<Longrightarrow> mPhase s1 = SCP_PHASE_EXTERNALIZE"
    "mPhase s1 = SCP_PHASE_EXTERNALIZE \<Longrightarrow> mPhase s2 = SCP_PHASE_EXTERNALIZE \<and> mCommit s2 = mCommit s1 \<and> mSlotIndex s2 = mSlotIndex s1"
    using assms(1,2) by (cases "mPhase s1"; cases "mPhase s2"; force simp: advances_def)+
  with assms(3,4) show ?thesis by (auto simp: ext_rel_def split: if_splits)
qed

lemma bpost_trans:
  assumes inv: "bp_inv s" and "bpost ctx R s s1" "bpost ctx R s1 s2"
  shows "bpost ctx R s s2"
proof -
  have "bp_inv s1" using assms bp_inv_reach by blast
  then have "advances s s1" "advances s1 s2" using assms reach_advances by blast+
  then have "ext_rel s s2" using assms(2,3) ext_rel_trans by blast
  moreover have "reach ctx R s s2" using assms(2,3) by (meson rtranclp_trans)
  ultimately show ?thesis using assms(2,3) by simp
qed

lemma post_trans: "bp_inv s \<Longrightarrow> post ctx R s s1 \<Longrightarrow> post ctx R s1 s2 \<Longrightarrow> post ctx R s s2"
  using bpost_trans [of s ctx R s1 s2] unfolding post_def by simp

lemma post_bstep:
  assumes "bstep ctx R s s'" "quiet s s'"
    "mPhase s' = SCP_PHASE_EXTERNALIZE \<Longrightarrow> mPhase s = SCP_PHASE_EXTERNALIZE"
  shows "post ctx R s s'"
  using assms by (auto simp: post_def ext_rel_def quiet_def)

lemma post_core: "same_core s s' \<Longrightarrow> quiet s s' \<Longrightarrow> post ctx R s s'"
  by (intro post_bstep other) (auto simp: same_core_def)

lemma post_inv: "post ctx R s s' \<Longrightarrow> bp_inv s \<Longrightarrow> bp_inv s'"
  unfolding post_def using bp_inv_reach by blast

lemma post_ready: "post ctx R s s' \<Longrightarrow> ready K s \<Longrightarrow> ready K s'"
  using post_inv unfolding post_def ready_def by metis

lemma ready_inv: "ready K s \<Longrightarrow> bp_inv s"
  by (simp add: ready_def)

lemma post_advances: "post ctx R s s' \<Longrightarrow> bp_inv s \<Longrightarrow> advances s s'"
  unfolding post_def using reach_advances by blast

lemma post_prepared: "post ctx R s s' \<Longrightarrow> bp_inv s \<Longrightarrow> mPrepared s \<noteq> None \<Longrightarrow> mPrepared s' \<noteq> None"
  using post_advances unfolding advances_def by blast

section \<open>Methods that do not emit\<close>

lemma checkInvariants_safe: "bp_inv s \<Longrightarrow> safe allowed (\<lambda>_. True) (checkInvariants s)"
  unfolding checkInvariants_def
  by (rule safe_seq [of _ "\<lambda>_. True"], force simp: dbgAssert_def allowed_def split: option.splits)
    (auto simp: bp_inv_def dbgAssert_def deref_def seq_def lessAndIncompatible_iff
      split: option.splits scp_phase.splits)

lemma bumpToBallot_spec:
  assumes "mPhase s \<noteq> SCP_PHASE_EXTERNALIZE"
    and "check \<Longrightarrow> (\<And>b. mCurrentBallot s = Some b \<Longrightarrow> b \<le> x)"
  shows "\<exists>s'. bumpToBallot x check s = Inr s' \<and> same_core (moveTo x s) s' \<and> quiet s s'"
proof -
  have "(case mCurrentBallot s of None \<Rightarrow> True | Some b \<Rightarrow> compareBallots x b \<ge> 0)" if check
    using assms(2) [OF that] by (simp add: compareBallots_iff split: option.split)
  then obtain s' where s': "bumpToBallot x check s = Inr s'"
    using assms(1) by (cases check) (simp_all add: bumpToBallot_def dbgAssert_def Let_def)
  moreover have "same_core (moveTo x s) s' \<and> quiet s s'"
    using s' assms(1)
    by (cases check; cases "mCurrentBallot s"; cases "mHighBallot s")
      (auto simp: bumpToBallot_def dbgAssert_def Let_def same_core_def quiet_def moveTo_def
        areBallotsCompatible_def log_event_def split: if_splits)
  ultimately show ?thesis by blast
qed

lemma updateCurrentIfNeeded_spec:
  assumes "mPhase s \<noteq> SCP_PHASE_EXTERNALIZE"
  shows "\<exists>s'. updateCurrentIfNeeded x s =
         Inr (case mCurrentBallot s of None \<Rightarrow> True | Some b \<Rightarrow> b < x, s') \<and>
       same_core (raiseTo x s) s' \<and> quiet s s'"
proof (cases "case mCurrentBallot s of None \<Rightarrow> True | Some b \<Rightarrow> b < x")
  case True
  then have "\<And>b. mCurrentBallot s = Some b \<Longrightarrow> b \<le> x" by auto
  then obtain s' where "bumpToBallot x True s = Inr s'" "same_core (moveTo x s) s'" "quiet s s'"
    using bumpToBallot_spec [OF assms, of True x] by blast
  with True show ?thesis
    by (cases "mCurrentBallot s") (simp_all add: updateCurrentIfNeeded_def raiseTo_def compareBallots_iff)
next
  case False
  then show ?thesis
    by (cases "mCurrentBallot s") (simp_all add: updateCurrentIfNeeded_def raiseTo_def compareBallots_iff)
qed

lemma checkHeardFromQuorum_spec:
  "\<exists>s'. checkHeardFromQuorum ctx s = Inr s' \<and> same_core s s' \<and> quiet s s'"
  by (auto simp: checkHeardFromQuorum_def Let_def startBallotProtocolTimer_def
      stopBallotProtocolTimer_def deref_def same_core_def quiet_def log_event_def split: option.splits)

lemma sendLatestEnvelope_spec: "same_core s (sendLatestEnvelope s) \<and> quiet s (sendLatestEnvelope s)"
  by (auto simp: sendLatestEnvelope_def same_core_def quiet_def log_event_def split: option.splits)

lemma updateCurrentValue_spec:
  assumes "bp_inv s" and "\<And>b. mCurrentBallot s = Some b \<Longrightarrow> b \<le> x"
    and "\<And>z. mValueOverride s = Some z \<Longrightarrow> bvalue x = z"
  shows "safe allowed (\<lambda>(w, s'). post ctx R s s' \<and> (w \<longrightarrow> mCurrentBallot s' = Some x \<and> mPhase s' = mPhase s \<and>
       (\<forall>b. mCurrentBallot s = Some b \<longrightarrow> b < x))) (updateCurrentValue x s)"
proof -
  have bump: "safe allowed (\<lambda>(w, s'). post ctx R s s' \<and> mCurrentBallot s' = Some x \<and> mPhase s' = mPhase s)
      (seq (bumpToBallot x True s) (\<lambda>s1. seq (checkInvariants s1) (\<lambda>_. ok True s1)))"
    if ph: "mPhase s \<noteq> SCP_PHASE_EXTERNALIZE" and lt: "\<And>b. mCurrentBallot s = Some b \<Longrightarrow> b < x"
      and cm: "\<And>c. mCommit s = Some c \<Longrightarrow> bvalue c = bvalue x"
  proof -
    obtain s1 where s1: "bumpToBallot x True s = Inr s1" "same_core (moveTo x s) s1" "quiet s s1"
      using bumpToBallot_spec [OF ph, of True x] lt by (auto simp: less_imp_le)
    have "bstep ctx R s (moveTo x s)" by (rule bstep.bump) (use ph lt cm assms(3) in auto)
    moreover have "quiet s (moveTo x s)" by (auto simp: quiet_def moveTo_def split: option.split)
    ultimately have p: "post ctx R s (moveTo x s)" using ph by (intro post_bstep) auto
    moreover have "post ctx R (moveTo x s) s1"
      using s1 \<open>quiet s (moveTo x s)\<close> by (intro post_core) (auto simp: quiet_def)
    ultimately have "post ctx R s s1" using assms(1) post_trans by blast
    then show ?thesis
      using s1 checkInvariants_safe [OF post_inv [OF _ assms(1)], of ctx R s1]
      by (cases "checkInvariants s1") (auto simp: same_core_def)
  qed
  show ?thesis
  proof (cases "mPhase s \<noteq> SCP_PHASE_PREPARE \<and> mPhase s \<noteq> SCP_PHASE_CONFIRM")
    case True
    then show ?thesis by (simp add: updateCurrentValue_def)
  next
    case False
    then have ph: "mPhase s \<noteq> SCP_PHASE_EXTERNALIZE" by auto
    show ?thesis
    proof (cases "mCurrentBallot s")
      case None
      then have "mCommit s = None" using assms(1) by (cases "mCommit s") (auto simp: bp_inv_def)
      with None False bump [OF ph] show ?thesis
        by (auto simp: updateCurrentValue_def elim!: safe_post)
    next
      case (Some b)
      show ?thesis
      proof (cases "(case mCommit s of Some c \<Rightarrow> \<not> areBallotsCompatible c x | None \<Rightarrow> False) \<or> b = x")
        case True
        then show ?thesis
          using False Some assms(2) [OF Some] checkInvariants_safe [OF assms(1)]
          by (cases "checkInvariants s")
            (auto simp: updateCurrentValue_def dbgAssert_def compareBallots_iff split: option.splits)
      next
        case nc: False
        with assms(2) [OF Some] have "b < x" by auto
        moreover have "safe allowed (\<lambda>(w, s'). post ctx R s s' \<and> mCurrentBallot s' = Some x \<and> mPhase s' = mPhase s)
          (seq (bumpToBallot x True s) (\<lambda>s1. seq (checkInvariants s1) (\<lambda>_. ok True s1)))"
          by (rule bump [OF ph]) (use nc Some \<open>b < x\<close> in \<open>auto simp: areBallotsCompatible_def\<close>)
        ultimately show ?thesis
          using False Some nc
          by (auto simp: updateCurrentValue_def dbgAssert_def compareBallots_iff elim!: safe_post)
      qed
    qed
  qed
qed

lemma abandonBallot_cases:
  "abandonBallot emit ctx n s = ok False s \<or>
   (\<exists>w. abandonBallot emit ctx n s =
      (if n = 0 then bumpState emit ctx w True s else bumpState_to emit ctx w n s))"
  unfolding abandonBallot_def Let_def by (auto split: option.split)

lemma allCounters_set:
  "set (allCounters m k) = {c. k < c \<and> c \<in> (\<lambda>(n, e). statementBallotCounter (env_statement e)) ` set m}"
proof -
  have "set (fold (\<lambda>(n, e) cs. let c = statementBallotCounter (env_statement e) in
             if c > k then sset_insert c cs else cs) m cs)
      = set cs \<union> {c. k < c \<and> c \<in> (\<lambda>(n, e). statementBallotCounter (env_statement e)) ` set m}" for cs
    by (induction m arbitrary: cs) (auto simp: Let_def split: if_splits)
  then show ?thesis by (simp add: allCounters_def)
qed

lemma attemptBump_cases:
  "attemptBump emit ctx s = ok False s \<or>
   (\<exists>n. localCounter s < n \<and> attemptBump emit ctx s = abandonBallot emit ctx n s)"
proof (cases "find (\<lambda>n. \<not> hasVBlockingSubsetStrictlyAheadOf ctx (mLatestEnvelopes s) n)
    (allCounters (mLatestEnvelopes s) (localCounter s))")
  case None
  then show ?thesis by (simp add: attemptBump_def)
next
  case (Some n)
  then have "n \<in> set (allCounters (mLatestEnvelopes s) (localCounter s))"
    by (auto simp: find_Some_iff)
  then have "localCounter s < n" by (simp add: allCounters_set)
  moreover have "attemptBump emit ctx s = ok False s \<or> attemptBump emit ctx s = abandonBallot emit ctx n s"
    using Some by (simp add: attemptBump_def)
  ultimately show ?thesis by blast
qed

text \<open>The part of \<^verbatim>\<open>setAcceptPrepared\<close> before the emission.\<close>

definition acceptPreparedState :: "scp_ballot \<Rightarrow> slot \<Rightarrow> (bool \<times> slot) scp_result" where
  "acceptPreparedState ballot s =
     (let (didWork, s1) = setPrepared ballot s in
      case (mCommit s1, mHighBallot s1) of
        (Some c, Some h) \<Rightarrow>
          if abortsHigh s1 h
          then seq (dbgAssert (mPhase s1 = SCP_PHASE_PREPARE) AssertPreparePhase)
                 (\<lambda>_. ok True (s1\<lparr>mCommit := None\<rparr>))
          else ok didWork s1
      | _ \<Rightarrow> ok didWork s1)"

lemma setAcceptPrepared_unfold:
  "setAcceptPrepared emit ballot s =
     seq (acceptPreparedState ballot s) (\<lambda>(didWork', s2).
       if didWork'
       then seq (emit (log_event (AcceptedBallotPrepared (mSlotIndex s2) ballot) s2)) (\<lambda>s3. ok True s3)
       else ok False s2)"
  by (simp add: setAcceptPrepared_def acceptPreparedState_def split: prod.split)

lemma setPrepared_works:
  assumes "bp_inv s" "\<And>p'. mPreparedPrime s = Some p' \<Longrightarrow> p' < x"
    and "\<And>p. mPrepared s = Some p \<Longrightarrow> \<not> areBallotsLessAndCompatible x p"
  shows "fst (setPrepared x s)"
proof (cases "mPrepared s")
  case (Some p)
  have "x \<noteq> p" "\<not> p < x \<Longrightarrow> bvalue p \<noteq> bvalue x"
    using assms(3) [OF Some] by (auto simp: lessAndCompatible_iff less_scp_ballot_def)
  moreover have "mPreparedPrime s = None \<or> (\<exists>p'. mPreparedPrime s = Some p' \<and> p' < x)"
    using assms(2) by (cases "mPreparedPrime s") auto
  ultimately show ?thesis
    using Some by (auto simp: setPrepared_def Let_def ballot_iffs)
qed (simp add: setPrepared_def)

lemma quiet_setPrepared: "quiet s (snd (setPrepared x s))"
  by (simp add: setPrepared_def Let_def quiet_def split: option.split)

lemma acceptPreparedState_spec:
  assumes "fst (setPrepared x s)"
  shows "acceptPreparedState x s = Inl (DbgAssert AssertPreparePhase) \<or>
    (\<exists>s2. acceptPreparedState x s = ok True s2 \<and> same_core (withPrepared x s) s2 \<and> quiet s s2 \<and>
        (mPhase s \<noteq> SCP_PHASE_PREPARE \<longrightarrow> mCommit s \<noteq> None \<longrightarrow> mHighBallot s \<noteq> None \<longrightarrow> mCommit s2 \<noteq> None))"
proof -
  obtain s1 where s1: "setPrepared x s = (True, s1)" using assms by (cases "setPrepared x s") auto
  have q: "quiet s s1" and f: "mPhase s1 = mPhase s" "mCommit s1 = mCommit s" "mHighBallot s1 = mHighBallot s"
    using quiet_setPrepared [of s x] setPrepared_simps [of x s] by (simp_all add: s1)
  consider (abort) c h where "mCommit s1 = Some c" "mHighBallot s1 = Some h" "abortsHigh s1 h"
    | (keep) "\<And>c h. mCommit s1 = Some c \<Longrightarrow> mHighBallot s1 = Some h \<Longrightarrow> \<not> abortsHigh s1 h" by blast
  then show ?thesis
  proof cases
    case abort
    then have "acceptPreparedState x s =
        seq (dbgAssert (mPhase s1 = SCP_PHASE_PREPARE) AssertPreparePhase) (\<lambda>_. ok True (s1\<lparr>mCommit := None\<rparr>))"
      by (simp add: acceptPreparedState_def s1)
    with abort q f show ?thesis
      by (auto simp: dbgAssert_def withPrepared_def s1 quiet_def)
  next
    case keep
    then have "acceptPreparedState x s = ok True s1"
      by (auto simp: acceptPreparedState_def s1 split: option.split)
    moreover have "same_core (withPrepared x s) s1"
      using keep by (cases "mCommit s1"; cases "mHighBallot s1") (auto simp: withPrepared_def s1 same_core_def)
    ultimately show ?thesis using q f by auto
  qed
qed

lemma quiet_withPrepared: "quiet s (withPrepared x s)"
  using quiet_setPrepared [of s x] by (auto simp: withPrepared_def Let_def quiet_def split: option.split)

lemma findNewH_spec:
  "findNewH ctx s xs = Some (x, rest) \<Longrightarrow>
     federatedRatify ctx (hasPreparedBallot x) s \<and> (\<forall>h. mHighBallot s = Some h \<longrightarrow> h < x)"
  by (induction xs) (auto simp: compareBallots_iff split: if_splits option.splits)

lemma findNewC_spec:
  fixes newC newH b :: scp_ballot and ctx s
  defines "good \<equiv> \<lambda>r. b \<le> r \<and> areBallotsLessAndCompatible r newH \<and>
     federatedRatify ctx (hasPreparedBallot r) s"
  shows "findNewC ctx s b newH xs newC = newC \<or> good (findNewC ctx s b newH xs newC)"
proof (induction xs arbitrary: newC)
  case (Cons x xs)
  consider "x < b" | "b \<le> x" "\<not> areBallotsLessAndCompatible x newH"
    | "b \<le> x" "areBallotsLessAndCompatible x newH" "\<not> federatedRatify ctx (hasPreparedBallot x) s"
    | "good x" unfolding good_def by fastforce
  then show ?case
  proof cases
    case 4
    then have "findNewC ctx s b newH (x # xs) newC = findNewC ctx s b newH xs x"
      by (simp add: good_def compareBallots_iff not_less [symmetric])
    with 4 Cons.IH [of x] show ?thesis by auto
  qed (use Cons.IH [of newC] in \<open>simp_all add: compareBallots_iff not_less [symmetric]\<close>)
qed simp

text \<open>The part of \<^verbatim>\<open>setConfirmPrepared\<close> before the emission.\<close>

definition confirmPreparedHigh :: "scp_ballot \<Rightarrow> scp_ballot \<Rightarrow> slot \<Rightarrow> (bool \<times> slot) scp_result" where
  "confirmPreparedHigh newC newH s1 =
     (if (case mCurrentBallot s1 of None \<Rightarrow> True | Some b \<Rightarrow> areBallotsCompatible b newH)
      then let (didWork1, s2) =
                 (if (case mHighBallot s1 of None \<Rightarrow> True | Some h \<Rightarrow> compareBallots newH h > 0)
                  then (True, s1\<lparr>mHighBallot := Some newH\<rparr>) else (False, s1)) in
           seq (if counter newC \<noteq> 0
                then seq (dbgAssert (mCommit s2 = None) AssertNoCommit)
                       (\<lambda>_. ok True (s2\<lparr>mCommit := Some newC\<rparr>))
                else ok didWork1 s2)
             (\<lambda>(didWork2, s3).
                ok didWork2 (if didWork2
                             then log_event (ConfirmedBallotPrepared (mSlotIndex s3) newH) s3 else s3))
      else ok False s1)"

lemma setConfirmPrepared_unfold:
  "setConfirmPrepared emit newC newH s =
     seq (confirmPreparedHigh newC newH (s\<lparr>mValueOverride := Some (bvalue newH)\<rparr>)) (\<lambda>(didWork, s4).
       seq (updateCurrentIfNeeded newH s4) (\<lambda>(updated, s5).
         if updated \<or> didWork then seq (emit s5) (\<lambda>s6. ok True s6) else ok False s5))"
  by (simp add: setConfirmPrepared_def confirmPreparedHigh_def Let_def)

lemma confirmPreparedHigh_spec:
  assumes "\<And>h. mHighBallot s = Some h \<Longrightarrow> h < newH" "counter newC \<noteq> 0 \<Longrightarrow> mCommit s = None"
  shows "\<exists>w s'. confirmPreparedHigh newC newH s = ok w s' \<and> quiet s s' \<and>
    same_core (if (case mCurrentBallot s of None \<Rightarrow> True | Some b \<Rightarrow> bvalue b = bvalue newH)
         then s\<lparr>mHighBallot := Some newH,
                 mCommit := (if counter newC \<noteq> 0 then Some newC else mCommit s)\<rparr>
         else s) s'"
proof -
  have h: "(case mHighBallot s of None \<Rightarrow> True | Some h \<Rightarrow> compareBallots newH h > 0)"
    using assms(1) by (simp add: compareBallots_iff split: option.split)
  have b: "(case mCurrentBallot s of None \<Rightarrow> True | Some b \<Rightarrow> areBallotsCompatible b newH) \<longleftrightarrow>
      (case mCurrentBallot s of None \<Rightarrow> True | Some b \<Rightarrow> bvalue b = bvalue newH)"
    by (simp add: areBallotsCompatible_def split: option.split)
  show ?thesis
    unfolding confirmPreparedHigh_def b using h assms(2)
    by (auto simp: dbgAssert_def same_core_def quiet_def log_event_def)
qed

lemma quiet_raiseTo: "quiet s (raiseTo x s)"
  by (simp add: raiseTo_def moveTo_def quiet_def split: option.split)

lemma quiet_withConfirmed: "quiet s (withConfirmed newC newH s)"
  using quiet_raiseTo by (auto simp: withConfirmed_def Let_def quiet_def)

lemma raiseTo_same_core: "same_core s s' \<Longrightarrow> same_core (raiseTo x s) (raiseTo x s')"
  by (simp add: raiseTo_def moveTo_def same_core_def split: option.split)

text \<open>The search of a commit interval returns 0 or an interval that satisfies the predicate.\<close>

lemma findExtendedInterval_pred:
  assumes "fst candidate \<noteq> 0 \<Longrightarrow> pred candidate \<and> fst candidate \<le> snd candidate"
    and "findExtendedInterval candidate bs pred = (lo, hi)" "lo \<noteq> 0"
  shows "pred (lo, hi) \<and> lo \<le> hi"
  using assms(1,2)
proof (induction bs arbitrary: candidate)
  case Nil
  then show ?case using assms(3) by auto
next
  case (Cons b bs)
  let ?cur = "if fst candidate = 0 then (b, b) else (b, snd candidate)"
  consider (skip) "fst candidate \<noteq> 0" "snd candidate < b"
    | (ext) "\<not> (fst candidate \<noteq> 0 \<and> snd candidate < b)" "pred ?cur"
    | (stop) "\<not> (fst candidate \<noteq> 0 \<and> snd candidate < b)" "\<not> pred ?cur" "fst candidate \<noteq> 0"
    | (cont) "\<not> (fst candidate \<noteq> 0 \<and> snd candidate < b)" "\<not> pred ?cur" "fst candidate = 0" by blast
  then show ?case
  proof cases
    case skip
    with Cons show ?thesis by (intro Cons.IH [of candidate]) simp_all
  next
    case ext
    then have "findExtendedInterval ?cur bs pred = (lo, hi)"
      using Cons.prems(2) by (cases "fst candidate = 0") (auto simp: Let_def)
    moreover have "pred ?cur \<and> fst ?cur \<le> snd ?cur" using ext by (auto simp: not_less)
    ultimately show ?thesis by (intro Cons.IH [of ?cur]) simp_all
  next
    case stop
    then have "candidate = (lo, hi)" using Cons.prems(2) by (auto simp: Let_def)
    with stop Cons.prems(1) show ?thesis by simp
  next
    case cont
    with Cons show ?thesis by (intro Cons.IH [of candidate]) (auto simp: Let_def)
  qed
qed

text \<open>The part of \<^verbatim>\<open>setAcceptCommit\<close> before \<open>b\<close> is raised.\<close>

definition acceptCommitState :: "scp_ballot \<Rightarrow> scp_ballot \<Rightarrow> slot \<Rightarrow> (bool \<times> slot) scp_result" where
  "acceptCommitState c h s =
     (let s1 = s\<lparr>mValueOverride := Some (bvalue h)\<rparr>;
          (didWork1, s2) =
            (if (case (mHighBallot s1, mCommit s1) of
                   (Some oldH, Some oldC) \<Rightarrow> compareBallots oldH h \<noteq> 0 \<or> compareBallots oldC c \<noteq> 0
                 | _ \<Rightarrow> True)
             then (True, s1\<lparr>mCommit := Some c, mHighBallot := Some h\<rparr>) else (False, s1)) in
      if mPhase s2 = SCP_PHASE_PREPARE
           then let s3 = s2\<lparr>mPhase := SCP_PHASE_CONFIRM\<rparr> in
                seq (case mCurrentBallot s3 of
                       Some b \<Rightarrow> if \<not> areBallotsLessAndCompatible h b
                                 then bumpToBallot h False s3 else Inr s3
                     | None \<Rightarrow> Inr s3)
                  (\<lambda>s4. ok True (s4\<lparr>mPreparedPrime := None\<rparr>))
           else ok didWork1 s2)"

lemma setAcceptCommit_unfold:
  "setAcceptCommit emit c h s =
     seq (acceptCommitState c h s) (\<lambda>(didWork, s5).
           if didWork
           then seq (deref (mHighBallot s5)) (\<lambda>newH.
                seq (updateCurrentIfNeeded newH s5) (\<lambda>(_, s6).
                seq (emit (log_event (AcceptedCommit (mSlotIndex s6) h) s6)) (\<lambda>s7. ok True s7)))
           else ok False s5)"
  by (simp add: setAcceptCommit_def acceptCommitState_def Let_def split: prod.split)

lemma acceptCommitState_spec:
  assumes "mPhase s \<noteq> SCP_PHASE_EXTERNALIZE"
    and "mPhase s = SCP_PHASE_CONFIRM \<Longrightarrow> \<exists>h'. mHighBallot s = Some h' \<and> counter h' < counter h"
  shows "\<exists>s5. acceptCommitState c h s = ok True s5 \<and> quiet s s5 \<and>
    same_core (withAcceptCommit c h s) (raiseTo h s5) \<and> mHighBallot s5 = Some h \<and>
    mPhase s5 = SCP_PHASE_CONFIRM"
proof -
  let ?s1 = "s\<lparr>mValueOverride := Some (bvalue h), mCommit := Some c, mHighBallot := Some h\<rparr>"
  show ?thesis
  proof (cases "mPhase s")
    case SCP_PHASE_CONFIRM
    with assms(2) obtain h' where "mHighBallot s = Some h'" "h' \<noteq> h" by auto
    then have "acceptCommitState c h s = ok True ?s1"
      using SCP_PHASE_CONFIRM
      by (auto simp: acceptCommitState_def compareBallots_iff split: option.split)
    with SCP_PHASE_CONFIRM show ?thesis
      by (simp add: withAcceptCommit_def quiet_def)
  next
    case SCP_PHASE_PREPARE
    define cond where "cond \<longleftrightarrow> (case (mHighBallot s, mCommit s) of
        (Some oldH, Some oldC) \<Rightarrow> compareBallots oldH h \<noteq> 0 \<or> compareBallots oldC c \<noteq> 0 | _ \<Rightarrow> True)"
    define s2 where "s2 = (if cond then ?s1 else s\<lparr>mValueOverride := Some (bvalue h)\<rparr>)"
    let ?s3 = "s2\<lparr>mPhase := SCP_PHASE_CONFIRM\<rparr>"
    have core2: "same_core ?s1 s2" and q2: "quiet s s2"
      by (auto simp: s2_def cond_def same_core_def quiet_def compareBallots_iff split: option.splits)
    then have b2: "mCurrentBallot s2 = mCurrentBallot s" by (simp add: same_core_def)
    have eq: "acceptCommitState c h s =
      seq (case mCurrentBallot ?s3 of
             Some b \<Rightarrow> if \<not> areBallotsLessAndCompatible h b then bumpToBallot h False ?s3 else Inr ?s3
           | None \<Rightarrow> Inr ?s3) (\<lambda>s4. ok True (s4\<lparr>mPreparedPrime := None\<rparr>))"
      using SCP_PHASE_PREPARE
      by (cases "mHighBallot s"; cases "mCommit s"; cases "mCurrentBallot s")
        (auto simp: acceptCommitState_def s2_def cond_def Let_def)
    obtain s4 where s4: "bumpToBallot h False ?s3 = Inr s4" "same_core (moveTo h ?s3) s4" "quiet ?s3 s4"
      using bumpToBallot_spec [of ?s3 False h] by auto
    define s5 where "s5 = (if mCurrentBallot s \<noteq> None \<and> \<not> areBallotsLessAndCompatible h (the (mCurrentBallot s))
        then s4\<lparr>mPreparedPrime := None\<rparr> else ?s3\<lparr>mPreparedPrime := None\<rparr>)"
    have "acceptCommitState c h s = ok True s5"
      using s4(1) b2 by (simp add: eq s5_def split: option.split)
    moreover have "quiet s s5" using q2 s4(3) by (simp add: s5_def quiet_def)
    moreover have "mHighBallot s5 = Some h" "mPhase s5 = SCP_PHASE_CONFIRM"
      using core2 s4(2) by (simp_all add: s5_def same_core_def)
    moreover have "same_core (case mCurrentBallot s of
          Some b \<Rightarrow> if \<not> areBallotsLessAndCompatible h b
            then moveTo h (?s1\<lparr>mPhase := SCP_PHASE_CONFIRM, mPreparedPrime := None\<rparr>)
            else ?s1\<lparr>mPhase := SCP_PHASE_CONFIRM, mPreparedPrime := None\<rparr>
        | None \<Rightarrow> ?s1\<lparr>mPhase := SCP_PHASE_CONFIRM, mPreparedPrime := None\<rparr>) s5"
      using core2 s4(2) b2 by (auto simp: s5_def same_core_def split: option.split)
    then have "same_core (withAcceptCommit c h s) (raiseTo h s5)"
      unfolding withAcceptCommit_def Let_def SCP_PHASE_PREPARE if_P [OF refl] by (rule raiseTo_same_core)
    ultimately show ?thesis by blast
  qed (use assms in simp)
qed

lemma quiet_withAcceptCommit: "quiet s (withAcceptCommit c h s)"
proof -
  let ?s1 = "s\<lparr>mValueOverride := Some (bvalue h), mCommit := Some c, mHighBallot := Some h\<rparr>"
  let ?s2 = "?s1\<lparr>mPhase := SCP_PHASE_CONFIRM, mPreparedPrime := None\<rparr>"
  have "quiet s ?s1" "quiet s ?s2" "quiet s (moveTo h ?s2)"
    by (simp_all add: quiet_def moveTo_def)
  then have "quiet s (if mPhase s = SCP_PHASE_PREPARE
         then case mCurrentBallot s of
                 Some b \<Rightarrow> if \<not> areBallotsLessAndCompatible h b then moveTo h ?s2 else ?s2
               | None \<Rightarrow> ?s2
         else ?s1)"
    by (cases "mCurrentBallot s") simp_all
  from quiet_trans [OF this quiet_raiseTo [of _ h]] show ?thesis
    unfolding withAcceptCommit_def Let_def .
qed

text \<open>What a pair of a hint ballot and a statement contributes to the candidates.\<close>

definition candidateSet :: "scp_ballot \<Rightarrow> ballot_statement \<Rightarrow> scp_ballot set" where
  "candidateSet topVote st =
     (case st_pledges st of
        PREPARE prep \<Rightarrow>
          {x \<in> {prep_ballot prep} \<union> set_option (prep_prepared prep) \<union> set_option (prep_preparedPrime prep).
             areBallotsLessAndCompatible x topVote}
      | CONFIRM con \<Rightarrow>
          if areBallotsCompatible topVote (conf_ballot con)
          then insert topVote (if conf_nPrepared con < counter topVote
                               then {SCPBallot (conf_nPrepared con) (bvalue topVote)} else {})
          else {}
      | EXTERNALIZE ext \<Rightarrow> if areBallotsCompatible topVote (ext_commit ext) then {topVote} else {})"

lemma set_addCandidates: "set (addCandidates t st cs) = set cs \<union> candidateSet t st"
  by (cases "st_pledges st")
    (auto simp: addCandidates_def candidateSet_def Let_def split: option.splits)

lemma set_getPrepareCandidates:
  "set (getPrepareCandidates hint s) =
     (\<Union>t \<in> set (hintBallots hint). \<Union>(n, e) \<in> set (mLatestEnvelopes s). candidateSet t (env_statement e))"
proof -
  have inner: "set (fold (\<lambda>(n, e) cs'. addCandidates t (env_statement e) cs') m cs)
      = set cs \<union> (\<Union>(n, e) \<in> set m. candidateSet t (env_statement e))" for t m cs
    by (induction m arbitrary: cs) (auto simp: set_addCandidates)
  have outer: "set (fold (\<lambda>topVote cs. fold (\<lambda>(n, e) cs'. addCandidates topVote (env_statement e) cs') m cs) ts cs)
      = set cs \<union> (\<Union>t \<in> set ts. \<Union>(n, e) \<in> set m. candidateSet t (env_statement e))" for m ts cs
    by (induction ts arbitrary: cs) (auto simp: inner)
  show ?thesis by (simp add: getPrepareCandidates_def outer)
qed

text \<open>Whoever may accept a commit may accept a ballot of the same value as prepared, and
  \<^verbatim>\<open>attemptAcceptPrepared\<close> looks at it: the lowest ballot that all the supporters of the commit
  support.\<close>

definition supportFloor :: "scp_ballot \<Rightarrow> ballot_statement \<Rightarrow> scp_ballot set" where
  "supportFloor ballot st =
     (case st_pledges st of
        PREPARE p \<Rightarrow> if areBallotsCompatible ballot (prep_ballot p) then {prep_ballot p} else {}
      | CONFIRM c \<Rightarrow> if areBallotsCompatible ballot (conf_ballot c)
                     then {SCPBallot (conf_nPrepared c) (bvalue ballot)} else {}
      | EXTERNALIZE e \<Rightarrow> {})"

lemma supportFloor_value: "x \<in> supportFloor ballot st \<Longrightarrow> bvalue x = bvalue ballot"
  by (auto simp: supportFloor_def areBallotsCompatible_def split: ballot_pledges.splits if_splits)

lemma hint_top_vote:
  assumes "hintCommitBallot hint = Some ballot"
  shows "\<exists>t \<in> set (hintBallots hint). bvalue t = bvalue ballot \<and> t \<in> candidateSet t hint"
proof (cases "st_pledges hint")
  case (PREPARE p)
  then have "prep_ballot p \<in> set (hintBallots hint)"
    by (auto simp: hintBallots_def Let_def split: option.splits)
  with PREPARE assms show ?thesis
    by (intro bexI [of _ "prep_ballot p"])
      (auto simp: hintCommitBallot_def candidateSet_def lessAndCompatible_iff split: if_splits)
next
  case (CONFIRM c)
  then have "SCPBallot UINT32_MAX (bvalue (conf_ballot c)) \<in> set (hintBallots hint)"
    by (simp add: hintBallots_def)
  with CONFIRM assms show ?thesis
    by (intro bexI [of _ "SCPBallot UINT32_MAX (bvalue (conf_ballot c))"])
      (auto simp: hintCommitBallot_def candidateSet_def areBallotsCompatible_def)
next
  case (EXTERNALIZE e)
  then show ?thesis
    using assms by (auto simp: hintBallots_def hintCommitBallot_def candidateSet_def areBallotsCompatible_def)
qed

lemma accept_commit_candidate:
  assumes pred: "acceptCommitPred ctx s ballot cur" and hint: "hintCommitBallot hint = Some ballot"
    and mem: "(n, e) \<in> set (mLatestEnvelopes s)" "env_statement e = hint"
  shows "\<exists>x \<in> set (getPrepareCandidates hint s).
     federatedAccept ctx (votesPrepare x) (hasPreparedBallot x) s"
proof -
  let ?M = "set (mLatestEnvelopes s)" and ?v = "bvalue ballot"
  obtain t where t: "t \<in> set (hintBallots hint)" "bvalue t = ?v" "t \<in> candidateSet t hint"
    using hint_top_vote [OF hint] by blast
  define F where "F = insert t (\<Union>(n, e) \<in> ?M. supportFloor ballot (env_statement e))"
  define x where "x = SCPBallot (Min (counter ` F)) ?v"
  have fin: "finite F" unfolding F_def
    by (auto simp: supportFloor_def split: ballot_pledges.splits)
  have val: "y \<in> F \<Longrightarrow> bvalue y = ?v" for y
    using t(2) by (auto simp: F_def dest: supportFloor_value)
  have le: "y \<in> F \<Longrightarrow> areBallotsLessAndCompatible x y" for y
    using fin val by (auto simp: x_def lessAndCompatible_iff)
  have "Min (counter ` F) \<in> counter ` F" using fin by (intro Min_in) (auto simp: F_def)
  then obtain y where y: "y \<in> F" "counter y = Min (counter ` F)" by auto
  then have xF: "x \<in> F" using val [OF y(1)] by (cases y) (simp add: x_def)
  have "\<exists>(n, e) \<in> ?M. x \<in> candidateSet t (env_statement e)"
  proof (cases "x = t")
    case True
    then show ?thesis using t(3) mem by auto
  next
    case False
    then obtain n e where ne: "(n, e) \<in> ?M" "x \<in> supportFloor ballot (env_statement e)"
      using xF by (auto simp: F_def)
    have "areBallotsLessAndCompatible x t" using le by (simp add: F_def)
    with False ne have "x \<in> candidateSet t (env_statement e)"
      by (cases "st_pledges (env_statement e)"; cases t)
        (auto simp: supportFloor_def candidateSet_def ballot_iffs le_less split: if_splits)
    with ne(1) show ?thesis by auto
  qed
  then have "x \<in> set (getPrepareCandidates hint s)"
    unfolding set_getPrepareCandidates using t(1) by auto
  moreover have "federatedAccept ctx (votesPrepare x) (hasPreparedBallot x) s"
    using pred unfolding acceptCommitPred_def federatedAccept_def
  proof (rule federatedAccept_mono)
    fix n e assume m: "(n, e) \<in> ?M"
    have F: "y \<in> supportFloor ballot (env_statement e) \<Longrightarrow> areBallotsLessAndCompatible x y" for y
      using le m by (auto simp: F_def)
    show "hasPreparedBallot x (env_statement e)" if "commitPredicate ballot cur (env_statement e)"
      using that F by (cases "st_pledges (env_statement e)")
        (auto simp: commitPredicate_def hasPreparedBallot_def supportFloor_def areBallotsCompatible_def x_def)
    show "hasPreparedBallot x (env_statement e) \<or> votesPrepare x (env_statement e)"
      if "votesCommit ballot cur (env_statement e)"
      using that F by (cases "st_pledges (env_statement e)")
        (auto simp: votesCommit_def votesPrepare_def supportFloor_def areBallotsCompatible_def x_def)
  qed
  ultimately show ?thesis by blast
qed

end
