(* ===== verification/Ballot_Refinement.thy ===== *)
theory Ballot_Refinement
  imports Ballot_Contract
begin

text \<open>
  The methods of \<^verbatim>\<open>BallotProtocol\<close> implement the abstract machine: whatever they return is
  reached by its steps, the message level is restored, and the driver is told an externalized
  value exactly when the machine enters the last phase.  The methods are verified once against
  the contract \<open>emit_contract\<close> of the emitter; the emitter of the code satisfies the contract at
  every nesting depth.
\<close>

section \<open>The statement of a slot\<close>

lemma createStatement_safe:
  assumes "bp_inv s"
  shows "safe allowed (\<lambda>pl. createStatement ctx s = Inr pl) (createStatement ctx s)"
proof -
  have *: "mPhase s \<noteq> SCP_PHASE_PREPARE \<Longrightarrow> \<exists>b p c h. mCurrentBallot s = Some b \<and> mPrepared s = Some p \<and>
      mCommit s = Some c \<and> mHighBallot s = Some h"
    using assms by (fastforce simp: bp_inv_def)
  from checkInvariants_safe [OF assms] show ?thesis
    using * by (cases "checkInvariants s"; cases "mPhase s") (auto simp: createStatement_def deref_def)
qed

lemma checkInvariants_core: "same_core s s' \<Longrightarrow> checkInvariants s' = checkInvariants s"
  unfolding same_core_def checkInvariants_def by (elim conjE) (simp only:)

lemma createStatement_core: "same_core s s' \<Longrightarrow> createStatement ctx s' = createStatement ctx s"
  using checkInvariants_core [of s s'] unfolding same_core_def createStatement_def
  by (elim conjE) (simp only: simp_thms)

section \<open>Methods that emit\<close>

locale emit_contract =
  fixes ctx :: scp_ctx and R :: "ballot_envelope set"
    and emit :: "slot \<Rightarrow> slot scp_result" and K :: nat
  assumes emit_safe: "ready K s \<Longrightarrow> safe allowed (post ctx R s) (emit s)"
begin

lemma emit_after:
  assumes "ready K s" "post ctx R s s1"
  shows "safe allowed (post ctx R s) (emit s1)"
  using emit_safe [OF post_ready [OF assms(2,1)]]
  by (rule safe_post) (rule post_trans [OF ready_inv [OF assms(1)] assms(2)])

lemma bumpState_to_safe:
  assumes "ready K s" "localCounter s < n"
  shows "safe allowed (\<lambda>(w, s'). post ctx R s s' \<and> (w \<longrightarrow> progressed s s')) (bumpState_to emit ctx v n s)"
proof (cases "mPhase s \<noteq> SCP_PHASE_PREPARE \<and> mPhase s \<noteq> SCP_PHASE_CONFIRM")
  case True
  then show ?thesis by (simp add: bumpState_to_def)
next
  case False
  let ?x = "SCPBallot n (case mValueOverride s of Some z \<Rightarrow> z | None \<Rightarrow> v)"
  note inv = ready_inv [OF assms(1)]
  have upd: "safe allowed (\<lambda>(w, s'). post ctx R s s' \<and> (w \<longrightarrow> mCurrentBallot s' = Some ?x \<and> mPhase s' = mPhase s \<and>
       (\<forall>b. mCurrentBallot s = Some b \<longrightarrow> b < ?x))) (updateCurrentValue ?x s)"
    by (rule updateCurrentValue_spec [OF inv])
      (use assms(2) in \<open>auto simp: localCounter_def less_eq_scp_ballot_def\<close>)
  have fin: "safe allowed (\<lambda>(w, s'). post ctx R s s' \<and> (w \<longrightarrow> progressed s s'))
      (seq (emit s1) (\<lambda>s2. seq (checkHeardFromQuorum ctx s2) (\<lambda>s3. ok True s3)))"
    if s1: "post ctx R s s1" "mCurrentBallot s1 = Some ?x" "mPhase s1 = mPhase s" for s1
  proof (rule safe_seq)
    show "safe allowed (post ctx R s1) (emit s1)"
      by (rule emit_safe [OF post_ready [OF s1(1) assms(1)]])
    fix s2 assume s2: "post ctx R s1 s2"
    obtain s3 where s3: "checkHeardFromQuorum ctx s2 = Inr s3" "same_core s2 s3" "quiet s2 s3"
      using checkHeardFromQuorum_spec by blast
    have "post ctx R s1 s3"
      using post_trans [OF post_inv [OF s1(1) inv] s2 post_core [OF s3(2,3)]] .
    then have adv: "advances s1 s3" and "post ctx R s s3"
      using post_advances [OF _ post_inv [OF s1(1) inv]] post_trans [OF inv s1(1)] by blast+
    moreover have "progressed s s3"
      using adv s1(2,3) assms(2)
      by (auto simp: progressed_def advances_def ballot_le_def localCounter_def less_eq_scp_ballot_def
          split: option.splits)
    ultimately show "safe allowed (\<lambda>(w, s'). post ctx R s s' \<and> (w \<longrightarrow> progressed s s'))
        (seq (checkHeardFromQuorum ctx s2) (\<lambda>s3. ok True s3))"
      using s3 by simp
  qed
  have "bumpState_to emit ctx v n s = seq (updateCurrentValue ?x s) (\<lambda>(updated, s1).
      if updated then seq (emit s1) (\<lambda>s2. seq (checkHeardFromQuorum ctx s2) (\<lambda>s3. ok True s3))
      else ok False s1)"
    using False by (auto simp: bumpState_to_def Let_def)
  then show ?thesis
    by (simp only:) (rule safe_seq [OF upd], use fin in auto)
qed

lemma bumpState_safe:
  assumes "ready K s" and "\<And>b. force \<Longrightarrow> mCurrentBallot s = Some b \<Longrightarrow> counter b \<noteq> UINT32_MAX"
  shows "safe allowed (\<lambda>(w, s'). post ctx R s s') (bumpState emit ctx v force s)"
proof (cases "\<not> force \<and> mCurrentBallot s \<noteq> None")
  case True
  then show ?thesis by (simp add: bumpState_def)
next
  case False
  let ?n = "case mCurrentBallot s of Some b \<Rightarrow> counter b + 1 | None \<Rightarrow> 1"
  have "localCounter s < ?n"
  proof (cases "mCurrentBallot s")
    case (Some b)
    then have "counter b \<noteq> UINT32_MAX" using False assms(2) by simp
    then have "counter b < counter b + 1"
      by (rule word_less_Suc)
    with Some show ?thesis by (simp add: localCounter_def)
  qed (simp add: localCounter_def)
  from bumpState_to_safe [OF assms(1) this, of v] False show ?thesis
    by (auto simp: bumpState_def Let_def elim!: safe_post)
qed

lemma abandonBallot_safe:
  assumes "ready K s" "localCounter s < n"
  shows "safe allowed (\<lambda>(w, s'). post ctx R s s' \<and> (w \<longrightarrow> progressed s s')) (abandonBallot emit ctx n s)"
proof -
  have n: "n \<noteq> 0" using assms(2) by auto
  from abandonBallot_cases [of emit ctx n s] show ?thesis
  proof (elim disjE exE)
    fix w assume "abandonBallot emit ctx n s =
      (if n = 0 then bumpState emit ctx w True s else bumpState_to emit ctx w n s)"
    with n bumpState_to_safe [OF assms, of w] show ?thesis by (simp only: if_False)
  qed simp
qed

lemma abandonBallot_0_safe:
  assumes "ready K s" and "\<And>b. mCurrentBallot s = Some b \<Longrightarrow> counter b \<noteq> UINT32_MAX"
  shows "safe allowed (\<lambda>(w, s'). post ctx R s s') (abandonBallot emit ctx 0 s)"
  using abandonBallot_cases [of emit ctx 0 s]
proof (elim disjE exE)
  fix w assume "abandonBallot emit ctx 0 s =
    (if (0 :: uint32) = 0 then bumpState emit ctx w True s else bumpState_to emit ctx w 0 s)"
  moreover have "safe allowed (\<lambda>(w, s'). post ctx R s s') (bumpState emit ctx w True s)"
    by (rule bumpState_safe [OF assms(1)]) (rule assms(2))
  ultimately show ?thesis by (simp only: if_True refl)
next
  assume "abandonBallot emit ctx 0 s = ok False s"
  then show ?thesis by (simp only: safe_Inr split post_refl)
qed

lemma attemptBump_safe:
  assumes "ready K s"
  shows "safe allowed (\<lambda>(w, s'). post ctx R s s' \<and> (w \<longrightarrow> progressed s s')) (attemptBump emit ctx s)"
proof (cases "\<exists>n. localCounter s < n \<and> attemptBump emit ctx s = abandonBallot emit ctx n s")
  case True
  then obtain n where n: "localCounter s < n" "attemptBump emit ctx s = abandonBallot emit ctx n s" by blast
  show ?thesis unfolding n(2) by (rule abandonBallot_safe [OF assms n(1)])
next
  case False
  then have "attemptBump emit ctx s = ok False s"
    using attemptBump_cases [of emit ctx s] by blast
  then show ?thesis by simp
qed

lemma bumpLoop_safe:
  assumes "ready K s"
  shows "safe allowed (\<lambda>(w, s'). post ctx R s s') (bumpLoop emit ctx s)"
proof -
  have "safe allowed (\<lambda>(w, s'). post ctx R s s') (bumpLoop e c s)"
    if "e = emit" "c = ctx" "ready K s" for e c
    using that
  proof (induction e c s rule: bumpLoop.induct)
    case (1 e c s)
    have "safe allowed (\<lambda>(w, s'). post ctx R s s')
        (if \<not> didBump then ok False s1
         else if progressed s s1 then seq (bumpLoop e c s1) (\<lambda>(_, s2). ok True s2) else Inl OutOfFuel)"
      if r: "attemptBump e c s = Inr (didBump, s1)"
        and p: "post ctx R s s1 \<and> (didBump \<longrightarrow> progressed s s1)" for didBump s1
    proof (cases didBump)
      case True
      have "safe allowed (\<lambda>(w, s'). post ctx R s1 s') (bumpLoop e c s1)"
        using 1 r p True post_ready by (intro 1(1) [OF r refl]) auto
      then have "safe allowed (\<lambda>(w, s'). post ctx R s s') (seq (bumpLoop e c s1) (\<lambda>(_, s2). ok True s2))"
        by (rule safe_seq) (use p 1(4) post_trans ready_inv in auto)
      with True p show ?thesis by simp
    qed (use p in simp)
    with attemptBump_safe [OF 1(4)] 1(2,3) show ?case
      by (subst bumpLoop.simps) (cases "attemptBump e c s", auto)
  qed
  with assms show ?thesis by blast
qed

lemma setAcceptPrepared_safe:
  assumes s: "ready K s" and ph: "mPhase s \<noteq> SCP_PHASE_EXTERNALIZE"
    and conf: "mPhase s = SCP_PHASE_CONFIRM \<Longrightarrow>
       \<exists>p c. mPrepared s = Some p \<and> mCommit s = Some c \<and> areBallotsLessAndCompatible p x
           \<and> areBallotsCompatible c x"
    and g1: "\<And>p'. mPreparedPrime s = Some p' \<Longrightarrow> p' < x"
    and g2: "\<And>p. mPrepared s = Some p \<Longrightarrow> \<not> areBallotsLessAndCompatible x p"
    and fa: "federatedAccept ctx (votesPrepare x) (hasPreparedBallot x) s"
  shows "safe allowed (\<lambda>(w, s'). post ctx R s s' \<and> mPrepared s' \<noteq> None) (setAcceptPrepared emit x s)"
proof -
  note inv = ready_inv [OF s]
  have "fst (setPrepared x s)" by (rule setPrepared_works [OF inv]) (use g1 g2 in auto)
  from acceptPreparedState_spec [OF this] show ?thesis
  proof (elim disjE exE conjE)
    assume "acceptPreparedState x s = Inl (DbgAssert AssertPreparePhase)"
    then show ?thesis by (simp add: setAcceptPrepared_unfold allowed_def)
  next
    fix s2 assume s2: "acceptPreparedState x s = ok True s2" "same_core (withPrepared x s) s2" "quiet s s2"
      "mPhase s \<noteq> SCP_PHASE_PREPARE \<longrightarrow> mCommit s \<noteq> None \<longrightarrow> mHighBallot s \<noteq> None \<longrightarrow> mCommit s2 \<noteq> None"
    let ?s3 = "log_event (AcceptedBallotPrepared (mSlotIndex s2) x) s2"
    have "mPhase s = SCP_PHASE_CONFIRM \<Longrightarrow> mCommit (withPrepared x s) \<noteq> None"
      using s2(2,4) inv by (auto simp: bp_inv_def same_core_def)
    then have "bstep ctx R s (withPrepared x s)"
      using ph conf g1 g2 fa by (intro bstep.accept_prepared) auto
    then have p: "post ctx R s (withPrepared x s)"
      by (rule post_bstep) (simp_all add: quiet_withPrepared)
    have "post ctx R (withPrepared x s) ?s3"
    proof (rule post_core)
      show "same_core (withPrepared x s) ?s3" using s2(2) core_log same_core_trans by blast
      show "quiet (withPrepared x s) ?s3"
        using s2(3) quiet_withPrepared [of s x] by (simp add: quiet_def log_event_def)
    qed
    with p have p3: "post ctx R s ?s3" using post_trans inv by blast
    have "mPrepared ?s3 \<noteq> None"
      using s2(2) by (auto simp: same_core_def log_event_def setPrepared_def Let_def split: option.splits)
    have "safe allowed (\<lambda>s'. post ctx R s s' \<and> mPrepared s' \<noteq> None) (emit ?s3)"
    proof (rule safe_post [OF emit_safe [OF post_ready [OF p3 s]]])
      fix s' assume "post ctx R ?s3 s'"
      with p3 \<open>mPrepared ?s3 \<noteq> None\<close> inv show "post ctx R s s' \<and> mPrepared s' \<noteq> None"
        using post_trans post_inv post_prepared by blast
    qed
    then show ?thesis by (simp add: setAcceptPrepared_unfold s2(1)) (rule safe_seq, simp_all)
  qed
qed

lemma acceptPreparedLoop_safe:
  assumes "ready K s" and "mPhase s \<noteq> SCP_PHASE_EXTERNALIZE"
  shows "safe allowed (\<lambda>(w, s'). post ctx R s s' \<and>
      (mPrepared s' = None \<longrightarrow> s' = s \<and>
        (\<forall>x \<in> set xs. \<not> federatedAccept ctx (votesPrepare x) (hasPreparedBallot x) s)))
    (acceptPreparedLoop emit ctx xs s)" (is "safe allowed (?Q xs) _")
proof (induction xs)
  case Nil
  show ?case by simp
next
  case (Cons x xs)
  note inv = ready_inv [OF assms(1)]
  let ?skip = "if mPhase s = SCP_PHASE_CONFIRM
          then seq (deref (mPrepared s)) (\<lambda>p.
                 if \<not> areBallotsLessAndCompatible p x then Inr True
                 else seq (deref (mCommit s)) (\<lambda>c.
                      seq (dbgAssert (areBallotsCompatible c x) AssertCommitCompatible)
                        (\<lambda>_. Inr False)))
          else Inr False"
  let ?conf = "mPhase s = SCP_PHASE_CONFIRM \<longrightarrow>
       (\<exists>p c. mPrepared s = Some p \<and> mCommit s = Some c \<and> areBallotsLessAndCompatible p x
           \<and> areBallotsCompatible c x)"
  have skip: "safe allowed (\<lambda>skip. if skip then mPrepared s \<noteq> None else ?conf) ?skip"
    using inv by (auto simp: bp_inv_def deref_def dbgAssert_def allowed_def)
  have IH: "safe allowed (?Q (x # xs)) (acceptPreparedLoop emit ctx xs s)"
    if "mPrepared s \<noteq> None \<or> \<not> federatedAccept ctx (votesPrepare x) (hasPreparedBallot x) s"
    using Cons.IH by (rule safe_post) (use that in auto)
  have acc: "safe allowed (?Q (x # xs)) (setAcceptPrepared emit x s)"
    if "?conf" "\<not> (case mPreparedPrime s of Some p' \<Rightarrow> compareBallots x p' \<le> 0 | None \<Rightarrow> False)"
      "\<not> (case mPrepared s of Some p \<Rightarrow> areBallotsLessAndCompatible x p | None \<Rightarrow> False)"
      "federatedAccept ctx (votesPrepare x) (hasPreparedBallot x) s"
    by (rule safe_post [OF setAcceptPrepared_safe [OF assms]])
      (use that in \<open>auto simp: compareBallots_iff\<close>)
  have p': "mPrepared s \<noteq> None" if "mPreparedPrime s \<noteq> None"
    using that inv by (auto simp: bp_inv_def)
  show ?case
    unfolding acceptPreparedLoop.simps
  proof (rule safe_seq [OF skip], intro safe_if)
    show "safe allowed (?Q (x # xs)) (acceptPreparedLoop emit ctx xs s)"
      if "if skip then mPrepared s \<noteq> None else ?conf" skip for skip
      using that by (intro IH) simp
    show "safe allowed (?Q (x # xs)) (acceptPreparedLoop emit ctx xs s)"
      if "case mPreparedPrime s of Some p' \<Rightarrow> compareBallots x p' \<le> 0 | None \<Rightarrow> False"
      using that p' by (intro IH) (auto split: option.splits)
    show "safe allowed (?Q (x # xs)) (acceptPreparedLoop emit ctx xs s)"
      if "case mPrepared s of Some p \<Rightarrow> areBallotsLessAndCompatible x p | None \<Rightarrow> False"
      using that by (intro IH) (auto split: option.splits)
    show "safe allowed (?Q (x # xs)) (setAcceptPrepared emit x s)"
      if "if skip then mPrepared s \<noteq> None else ?conf" "\<not> skip"
        "\<not> (case mPreparedPrime s of Some p' \<Rightarrow> compareBallots x p' \<le> 0 | None \<Rightarrow> False)"
        "\<not> (case mPrepared s of Some p \<Rightarrow> areBallotsLessAndCompatible x p | None \<Rightarrow> False)"
        "federatedAccept ctx (votesPrepare x) (hasPreparedBallot x) s" for skip
      using that by (intro acc) simp_all
    show "safe allowed (?Q (x # xs)) (acceptPreparedLoop emit ctx xs s)"
      if "\<not> federatedAccept ctx (votesPrepare x) (hasPreparedBallot x) s"
      using that by (intro IH) simp
  qed
qed

lemma attemptAcceptPrepared_safe:
  assumes "ready K s"
  shows "safe allowed (\<lambda>(w, s'). post ctx R s s' \<and>
      (mPrepared s' = None \<longrightarrow> s' = s \<and>
        (\<forall>x \<in> set (getPrepareCandidates hint s).
            \<not> federatedAccept ctx (votesPrepare x) (hasPreparedBallot x) s)))
    (attemptAcceptPrepared emit ctx hint s)"
proof (cases "mPhase s = SCP_PHASE_EXTERNALIZE")
  case True
  then show ?thesis
    using ready_inv [OF assms] by (auto simp: attemptAcceptPrepared_def bp_inv_def)
next
  case False
  then have "mPhase s = SCP_PHASE_PREPARE \<or> mPhase s = SCP_PHASE_CONFIRM" by (cases "mPhase s") auto
  then show ?thesis
    using acceptPreparedLoop_safe [OF assms False, of "rev (getPrepareCandidates hint s)"]
    by (auto simp: attemptAcceptPrepared_def)
qed

lemma setConfirmPrepared_safe:
  assumes s: "ready K s" and ph: "mPhase s = SCP_PHASE_PREPARE" and p: "mPrepared s \<noteq> None"
    and h: "\<And>h. mHighBallot s = Some h \<Longrightarrow> h < newH"
    and fr: "federatedRatify ctx (hasPreparedBallot newH) s"
    and c: "counter newC \<noteq> 0 \<Longrightarrow>
       mCommit s = None \<and> \<not> abortsHigh s newH \<and> areBallotsLessAndCompatible newC newH \<and>
       (\<forall>b. mCurrentBallot s = Some b \<longrightarrow> b \<le> newC) \<and>
       federatedRatify ctx (hasPreparedBallot newC) s"
  shows "safe allowed (\<lambda>(w, s'). post ctx R s s') (setConfirmPrepared emit newC newH s)"
proof -
  note inv = ready_inv [OF s]
  let ?s1 = "s\<lparr>mValueOverride := Some (bvalue newH)\<rparr>"
  have ex: "\<exists>w s'. confirmPreparedHigh newC newH ?s1 = ok w s' \<and> quiet ?s1 s' \<and>
    same_core (if (case mCurrentBallot ?s1 of None \<Rightarrow> True | Some b \<Rightarrow> bvalue b = bvalue newH)
         then ?s1\<lparr>mHighBallot := Some newH,
                 mCommit := (if counter newC \<noteq> 0 then Some newC else mCommit ?s1)\<rparr>
         else ?s1) s'"
    by (rule confirmPreparedHigh_spec) (use h c in auto)
  then obtain w s4 where s4: "confirmPreparedHigh newC newH ?s1 = ok w s4" "quiet ?s1 s4"
    "same_core (if (case mCurrentBallot s of None \<Rightarrow> True | Some b \<Rightarrow> bvalue b = bvalue newH)
         then ?s1\<lparr>mHighBallot := Some newH,
                 mCommit := (if counter newC \<noteq> 0 then Some newC else mCommit s)\<rparr>
         else ?s1) s4"
    by (auto cong: if_cong)
  from s4(3) have "mPhase s4 = mPhase s" by (auto simp: same_core_def split: if_splits)
  then obtain u s5 where s5: "updateCurrentIfNeeded newH s4 = Inr (u, s5)" "same_core (raiseTo newH s4) s5"
    "quiet s4 s5"
    using updateCurrentIfNeeded_spec [of s4 newH] ph by auto
  have core: "same_core (withConfirmed newC newH s) s5"
    using same_core_trans [OF raiseTo_same_core [OF s4(3)] s5(2)]
    unfolding withConfirmed_def Let_def .
  have q: "quiet (withConfirmed newC newH s) s5"
    using quiet_withConfirmed [of s newC newH] s4(2) s5(3) by (simp add: quiet_def)
  have "post ctx R s (withConfirmed newC newH s)"
    by (rule post_bstep [OF bstep.confirm_prepared]) (use ph p h fr c quiet_withConfirmed in auto)
  with core q have p5: "post ctx R s s5" using post_trans [OF inv] post_core by blast
  show ?thesis
    using emit_after [OF s p5] p5
    by (cases "emit s5") (auto simp: setConfirmPrepared_unfold s4(1) s5(1))
qed

lemma attemptConfirmPrepared_safe:
  assumes "ready K s"
  shows "safe allowed (\<lambda>(w, s'). post ctx R s s' \<and> (mPrepared s = None \<longrightarrow> s' = s))
     (attemptConfirmPrepared emit ctx hint s)"
proof (cases "mPhase s \<noteq> SCP_PHASE_PREPARE \<or> mPrepared s = None \<or>
    findNewH ctx s (rev (getPrepareCandidates hint s)) = None")
  case True
  then show ?thesis by (auto simp: attemptConfirmPrepared_def)
next
  case False
  then obtain newH cur where f: "findNewH ctx s (rev (getPrepareCandidates hint s)) = Some (newH, cur)"
    by auto
  let ?b = "case mCurrentBallot s of Some b \<Rightarrow> b | None \<Rightarrow> zero_ballot"
  let ?newC = "if mCommit s = None \<and> \<not> abortsHigh s newH
                           then findNewC ctx s ?b newH cur zero_ballot else zero_ballot"
  have "safe allowed (\<lambda>(w, s'). post ctx R s s') (setConfirmPrepared emit ?newC newH s)"
  proof (rule setConfirmPrepared_safe [OF assms])
    show "mPhase s = SCP_PHASE_PREPARE" "mPrepared s \<noteq> None" using False by auto
    show "federatedRatify ctx (hasPreparedBallot newH) s" "\<And>h. mHighBallot s = Some h \<Longrightarrow> h < newH"
      using findNewH_spec [OF f] by auto
    assume "counter ?newC \<noteq> 0"
    then show "mCommit s = None \<and> \<not> abortsHigh s newH \<and> areBallotsLessAndCompatible ?newC newH \<and>
       (\<forall>b. mCurrentBallot s = Some b \<longrightarrow> b \<le> ?newC) \<and> federatedRatify ctx (hasPreparedBallot ?newC) s"
      using findNewC_spec [of ctx s ?b newH cur zero_ballot]
      by (auto simp: zero_ballot_def split: if_splits)
  qed
  moreover have "attemptConfirmPrepared emit ctx hint s = setConfirmPrepared emit ?newC newH s"
    using False f by (auto simp: attemptConfirmPrepared_def Let_def)
  ultimately show ?thesis
    using False by (simp only:) (rule safe_post, auto)
qed


lemma setAcceptCommit_safe:
  assumes s: "ready K s" and ph: "mPhase s \<noteq> SCP_PHASE_EXTERNALIZE" and p: "mPrepared s \<noteq> None"
    and conf: "mPhase s = SCP_PHASE_CONFIRM \<Longrightarrow> \<exists>h. mHighBallot s = Some h \<and> bvalue h = v \<and> counter h < hi"
    and lo: "lo \<noteq> 0" "lo \<le> hi" and pred: "acceptCommitPred ctx s (SCPBallot n v) (lo, hi)"
  shows "safe allowed (\<lambda>(w, s'). post ctx R s s') (setAcceptCommit emit (SCPBallot lo v) (SCPBallot hi v) s)"
proof -
  let ?c = "SCPBallot lo v" and ?h = "SCPBallot hi v"
  note inv = ready_inv [OF s]
  have "\<exists>s5. acceptCommitState ?c ?h s = ok True s5 \<and> quiet s s5 \<and>
    same_core (withAcceptCommit ?c ?h s) (raiseTo ?h s5) \<and> mHighBallot s5 = Some ?h \<and>
    mPhase s5 = SCP_PHASE_CONFIRM"
    by (rule acceptCommitState_spec [OF ph]) (use conf in auto)
  then obtain s5 where s5: "acceptCommitState ?c ?h s = ok True s5" "quiet s s5"
    "same_core (withAcceptCommit ?c ?h s) (raiseTo ?h s5)" "mHighBallot s5 = Some ?h"
    "mPhase s5 = SCP_PHASE_CONFIRM" by blast
  then obtain u s6 where s6: "updateCurrentIfNeeded ?h s5 = Inr (u, s6)" "same_core (raiseTo ?h s5) s6"
    "quiet s5 s6"
    using updateCurrentIfNeeded_spec [of s5 ?h] by auto
  let ?s7 = "log_event (AcceptedCommit (mSlotIndex s6) ?h) s6"
  have st: "post ctx R s (withAcceptCommit ?c ?h s)"
    by (rule post_bstep [OF bstep.accept_commit [OF ph p conf lo pred]])
      (use ph in \<open>auto simp: quiet_withAcceptCommit split: if_splits\<close>)
  have "post ctx R (withAcceptCommit ?c ?h s) ?s7"
  proof (rule post_core)
    show "same_core (withAcceptCommit ?c ?h s) ?s7"
      using s5(3) s6(2) core_log same_core_trans by blast
    show "quiet (withAcceptCommit ?c ?h s) ?s7"
      using s5(2) s6(3) quiet_withAcceptCommit [of s ?c ?h] by (simp add: quiet_def log_event_def)
  qed
  with st have "post ctx R s ?s7" using post_trans inv by blast
  from emit_after [OF s this] show ?thesis
    by (cases "emit ?s7") (auto simp: setAcceptCommit_unfold s5(1,4) s6(1) deref_def)
qed

lemma attemptAcceptCommit_safe:
  assumes s: "ready K s"
    and p: "mPrepared s \<noteq> None \<or> (\<exists>n e. (n, e) \<in> set (mLatestEnvelopes s) \<and> env_statement e = hint) \<and>
       (\<forall>x \<in> set (getPrepareCandidates hint s). \<not> federatedAccept ctx (votesPrepare x) (hasPreparedBallot x) s)"
  shows "safe allowed (\<lambda>(w, s'). post ctx R s s') (attemptAcceptCommit emit ctx hint s)"
proof (cases "mPhase s = SCP_PHASE_EXTERNALIZE \<or> hintCommitBallot hint = None")
  case True
  then show ?thesis by (auto simp: attemptAcceptCommit_def)
next
  case False
  then obtain b where ph: "mPhase s \<noteq> SCP_PHASE_EXTERNALIZE" and b: "hintCommitBallot hint = Some b" by auto
  note inv = ready_inv [OF s]
  obtain lo hi where fi: "findExtendedInterval (0, 0) (rev (getCommitBoundariesFromStatements b s))
      (acceptCommitPred ctx s b) = (lo, hi)" by fastforce
  have set: "safe allowed (\<lambda>(w, s'). post ctx R s s')
      (setAcceptCommit emit (SCPBallot lo (bvalue b)) (SCPBallot hi (bvalue b)) s)"
    if lo: "lo \<noteq> 0" and conf: "mPhase s = SCP_PHASE_CONFIRM \<Longrightarrow>
        \<exists>h. mHighBallot s = Some h \<and> bvalue h = bvalue b \<and> counter h < hi"
  proof -
    have pr: "acceptCommitPred ctx s b (lo, hi) \<and> lo \<le> hi"
      using findExtendedInterval_pred [OF _ fi lo] by simp
    then have "mPrepared s \<noteq> None" using p accept_commit_candidate [OF _ b] by blast
    then show ?thesis using pr lo conf by (intro setAcceptCommit_safe [OF s ph, of _ _ _ "counter b"]) auto
  qed
  show ?thesis
  proof (cases "mPhase s")
    case SCP_PHASE_PREPARE
    with set show ?thesis by (auto simp: attemptAcceptCommit_def b fi Let_def)
  next
    case SCP_PHASE_CONFIRM
    with inv obtain h where "mHighBallot s = Some h" by (auto simp: bp_inv_def)
    with SCP_PHASE_CONFIRM set show ?thesis
      by (auto simp: attemptAcceptCommit_def b fi Let_def deref_def areBallotsCompatible_def)
  qed (use ph in simp)
qed

lemma setConfirmCommit_safe:
  assumes s: "ready K s" and ph: "mPhase s = SCP_PHASE_CONFIRM" and c: "mCommit s = Some c" "bvalue c = v"
    and lo: "lo \<noteq> 0" "lo \<le> hi" and pred: "confirmCommitPred ctx s (SCPBallot n v) (lo, hi)"
  shows "safe allowed (\<lambda>(w, s'). post ctx R s s') (setConfirmCommit emit (SCPBallot lo v) (SCPBallot hi v) s)"
proof -
  let ?c = "SCPBallot lo v" and ?h = "SCPBallot hi v"
  let ?s1 = "s\<lparr>mCommit := Some ?c, mHighBallot := Some ?h\<rparr>"
  note inv = ready_inv [OF s]
  obtain u s2 where s2: "updateCurrentIfNeeded ?h ?s1 = Inr (u, s2)" "same_core (raiseTo ?h ?s1) s2" "quiet ?s1 s2"
    using updateCurrentIfNeeded_spec [of ?s1 ?h] ph by auto
  let ?s3 = "s2\<lparr>mPhase := SCP_PHASE_EXTERNALIZE\<rparr>"
  have "bstep ctx R s (withConfirmCommit ?c ?h s)"
    by (rule bstep.confirm_commit [OF ph c lo pred])
  moreover have "bstep ctx R (withConfirmCommit ?c ?h s) ?s3"
    by (rule bstep.other) (use s2(2) in \<open>simp add: withConfirmCommit_def same_core_def\<close>)
  ultimately have r3: "reach ctx R s ?s3" by (meson converse_rtranclp_into_rtranclp r_into_rtranclp)
  have lv: "mCurrentMessageLevel ?s3 = mCurrentMessageLevel s" and ev: "ext_events ?s3 = ext_events s"
    and fr: "nom_frame s s2"
    using s2(3) by (simp_all add: quiet_def)
  have "ready K ?s3" using bp_inv_reach [OF r3 inv] s lv by (simp add: ready_def)
  then have em: "safe allowed (post ctx R ?s3) (emit ?s3)" and inv3: "bp_inv ?s3"
    using emit_safe ready_inv by blast+
  have c3: "mCommit ?s3 = Some ?c" using s2(2) by (simp add: same_core_def raiseTo_keeps [where h = ?h])
  have fin: "mCommit s4 = Some ?c \<and>
      post ctx R s (log_event (ValueExternalized (mSlotIndex s4) v) (stopNomination s4))"
    if p4: "post ctx R ?s3 s4" for s4
  proof -
    have adv: "advances ?s3 s4" using post_advances [OF p4 inv3] .
    then have c4: "mCommit s4 = Some ?c" using c3 by (simp add: advances_def)
    have ph4: "mPhase s4 = SCP_PHASE_EXTERNALIZE" using adv by (cases "mPhase s4") (simp_all add: advances_def)
    let ?s6 = "log_event (ValueExternalized (mSlotIndex s4) v) (stopNomination s4)"
    have "same_core s4 ?s6" by (simp add: same_core_def log_event_def stopNomination_def)
    then have "reach ctx R s4 ?s6" using bstep.other by blast
    with p4 r3 have "reach ctx R s ?s6" unfolding post_def by (meson rtranclp_trans)
    moreover have "ext_rel s ?s6"
      using p4 ph ph4 c4 ev by (simp add: ext_rel_def post_def log_event_def stopNomination_def)
    ultimately show ?thesis
      using p4 lv c4 fr by (simp add: post_def log_event_def stopNomination_def)
  qed
  show ?thesis
    using em fin
    by (cases "emit ?s3") (auto simp: setConfirmCommit_def s2(1) Let_def deref_def stopNomination_def)
qed

lemma attemptConfirmCommit_safe:
  assumes s: "ready K s"
  shows "safe allowed (\<lambda>(w, s'). post ctx R s s') (attemptConfirmCommit emit ctx hint s)"
proof (cases "mPhase s = SCP_PHASE_CONFIRM \<and> (\<exists>b c. hintCommitBallot hint = Some b \<and> mCommit s = Some c
    \<and> bvalue c = bvalue b)")
  case False
  then show ?thesis
    by (auto simp: attemptConfirmCommit_def areBallotsCompatible_def split: option.split ballot_pledges.split)
next
  case True
  then obtain b c where ph: "mPhase s = SCP_PHASE_CONFIRM" and b: "hintCommitBallot hint = Some b"
    and c: "mCommit s = Some c" "bvalue c = bvalue b" by blast
  obtain h where h: "mHighBallot s = Some h" using ready_inv [OF s] c(1) by (auto simp: bp_inv_def)
  obtain lo hi where fi: "findExtendedInterval (0, 0) (rev (getCommitBoundariesFromStatements b s))
      (confirmCommitPred ctx s b) = (lo, hi)" by fastforce
  have set: "safe allowed (\<lambda>(w, s'). post ctx R s s')
      (setConfirmCommit emit (SCPBallot lo (bvalue b)) (SCPBallot hi (bvalue b)) s)" if lo: "lo \<noteq> 0"
  proof -
    have "confirmCommitPred ctx s b (lo, hi) \<and> lo \<le> hi"
      using findExtendedInterval_pred [OF _ fi lo] by simp
    then show ?thesis using lo c ph by (intro setConfirmCommit_safe [OF s, where n = "counter b" and c = c]) auto
  qed
  then show ?thesis
    by (cases "st_pledges hint"; cases "lo = 0")
      (simp_all add: attemptConfirmCommit_def ph h c b fi Let_def areBallotsCompatible_def)
qed

text \<open>Entering and leaving a message level.\<close>

lemma post_level:
  assumes "post ctx R (s\<lparr>mCurrentMessageLevel := Suc (mCurrentMessageLevel s)\<rparr>) s'"
  shows "post ctx R s (s'\<lparr>mCurrentMessageLevel := mCurrentMessageLevel s' - 1\<rparr>)"
proof -
  let ?s0 = "s\<lparr>mCurrentMessageLevel := Suc (mCurrentMessageLevel s)\<rparr>"
  let ?s'' = "s'\<lparr>mCurrentMessageLevel := mCurrentMessageLevel s' - 1\<rparr>"
  have "bstep ctx R s ?s0" "bstep ctx R s' ?s''" by (rule bstep.other; simp add: same_core_def)+
  with assms have "reach ctx R s ?s''"
    unfolding post_def by (meson converse_rtranclp_into_rtranclp rtranclp.rtrancl_into_rtrancl)
  moreover have "ext_rel s ?s''"
    using assms unfolding post_def ext_rel_def by (simp cong: if_cong)
  ultimately show ?thesis using assms by (simp add: post_def)
qed

lemma ready_enter:
  "ready (Suc K) s \<Longrightarrow> Suc (mCurrentMessageLevel s) < MAX_ADVANCE_SLOT_RECURSION \<Longrightarrow>
     ready K (s\<lparr>mCurrentMessageLevel := Suc (mCurrentMessageLevel s)\<rparr>)"
  by (simp add: ready_def bp_inv_def)

text \<open>The last part of \<^verbatim>\<open>advanceSlot\<close>: the bumps at the outermost level.\<close>

lemma outermost_safe:
  assumes s: "ready K s" and p: "post ctx R s s4"
  shows "safe allowed (\<lambda>(w, s'). post ctx R s s')
    (if mCurrentMessageLevel s4 = 1
     then seq (bumpLoop emit ctx s4) (\<lambda>(w5, s5). seq (checkHeardFromQuorum ctx s5) (\<lambda>s6. ok w5 s6))
     else ok False s4)"
proof (intro safe_if)
  note inv = ready_inv [OF s]
  show "safe allowed (\<lambda>(w, s'). post ctx R s s')
      (seq (bumpLoop emit ctx s4) (\<lambda>(w5, s5). seq (checkHeardFromQuorum ctx s5) (\<lambda>s6. ok w5 s6)))"
  proof (rule safe_seq [OF bumpLoop_safe [OF post_ready [OF p s]]], clarify)
    fix w s5 assume p5: "post ctx R s4 s5"
    obtain s6 where "checkHeardFromQuorum ctx s5 = Inr s6" "same_core s5 s6" "quiet s5 s6"
      using checkHeardFromQuorum_spec by blast
    then show "safe allowed (\<lambda>(w, s'). post ctx R s s') (seq (checkHeardFromQuorum ctx s5) (\<lambda>s6. ok w s6))"
      using post_trans [OF inv p] post_trans [OF post_inv [OF p inv] p5] post_core by auto
  qed
qed (use p in simp)

lemma advanceSlot_safe:
  assumes s: "ready (Suc K) s" and hint: "(n, e) \<in> set (mLatestEnvelopes s)" "env_statement e = hint"
  shows "safe allowed (post ctx R s) (advanceSlot emit ctx hint s)"
proof (cases "Suc (mCurrentMessageLevel s) < MAX_ADVANCE_SLOT_RECURSION")
  case False
  then show ?thesis by (simp add: advanceSlot_def allowed_def)
next
  case True
  let ?s0 = "s\<lparr>mCurrentMessageLevel := Suc (mCurrentMessageLevel s)\<rparr>"
  have r0: "ready K ?s0" by (rule ready_enter [OF s True])
  note inv0 = ready_inv [OF r0]
  let ?none = "\<lambda>s. \<forall>x \<in> set (getPrepareCandidates hint s).
    \<not> federatedAccept ctx (votesPrepare x) (hasPreparedBallot x) s"
  let ?finish = "\<lambda>w s4. seq (if mCurrentMessageLevel s4 = 1
           then seq (bumpLoop emit ctx s4) (\<lambda>(w5, s5).
                seq (checkHeardFromQuorum ctx s5) (\<lambda>s6. ok w5 s6))
           else ok False s4) (\<lambda>(w6, s7).
      let s8 = s7\<lparr>mCurrentMessageLevel := mCurrentMessageLevel s7 - 1\<rparr>
      in Inr (if w \<or> w6 then sendLatestEnvelope s8 else s8))"
  have send: "post ctx R s (sendLatestEnvelope s')" if "post ctx R s s'" for s'
    using post_trans [OF ready_inv [OF s] that] sendLatestEnvelope_spec post_core by blast
  have last: "safe allowed (post ctx R s) (?finish w s4)" if p4: "post ctx R ?s0 s4" for w s4
    by (rule safe_seq [OF outermost_safe [OF r0 p4]])
      (use send post_level in \<open>auto simp: Let_def\<close>)
  have body: "safe allowed (post ctx R s)
      (seq (attemptAcceptPrepared emit ctx hint ?s0) (\<lambda>(w1, s1).
      seq (attemptConfirmPrepared emit ctx hint s1) (\<lambda>(w2, s2).
      seq (attemptAcceptCommit emit ctx hint s2) (\<lambda>(w3, s3).
      seq (attemptConfirmCommit emit ctx hint s3) (\<lambda>(w4, s4). ?finish (w1 \<or> w2 \<or> w3 \<or> w4) s4)))))"
  proof (rule safe_seq [OF attemptAcceptPrepared_safe [OF r0]], clarify)
    fix w1 s1 assume p1: "post ctx R ?s0 s1" and n1: "mPrepared s1 = None \<longrightarrow> s1 = ?s0 \<and> ?none ?s0"
    note i1 = post_inv [OF p1 inv0]
    show "safe allowed (post ctx R s)
      (seq (attemptConfirmPrepared emit ctx hint s1) (\<lambda>(w2, s2).
      seq (attemptAcceptCommit emit ctx hint s2) (\<lambda>(w3, s3).
      seq (attemptConfirmCommit emit ctx hint s3) (\<lambda>(w4, s4). ?finish (w1 \<or> w2 \<or> w3 \<or> w4) s4))))"
    proof (rule safe_seq [OF attemptConfirmPrepared_safe [OF post_ready [OF p1 r0]]], clarify)
      fix w2 s2 assume q2: "post ctx R s1 s2" and n2: "mPrepared s1 = None \<longrightarrow> s2 = s1"
      note p2 = post_trans [OF inv0 p1 q2]
      have pre: "mPrepared s2 \<noteq> None \<or> (\<exists>n e. (n, e) \<in> set (mLatestEnvelopes s2) \<and> env_statement e = hint) \<and> ?none s2"
        using n1 n2 hint post_prepared [OF q2 i1] by (cases "mPrepared s1") auto
      show "safe allowed (post ctx R s) (seq (attemptAcceptCommit emit ctx hint s2) (\<lambda>(w3, s3).
          seq (attemptConfirmCommit emit ctx hint s3) (\<lambda>(w4, s4). ?finish (w1 \<or> w2 \<or> w3 \<or> w4) s4)))"
      proof (rule safe_seq [OF attemptAcceptCommit_safe [OF post_ready [OF p2 r0] pre]], clarify)
        fix w3 s3 assume "post ctx R s2 s3"
        with p2 have p3: "post ctx R ?s0 s3" using post_trans inv0 by blast
        show "safe allowed (post ctx R s) (seq (attemptConfirmCommit emit ctx hint s3)
            (\<lambda>(w4, s4). ?finish (w1 \<or> w2 \<or> w3 \<or> w4) s4))"
          by (rule safe_seq [OF attemptConfirmCommit_safe [OF post_ready [OF p3 r0]]], clarify)
            (rule last [OF post_trans [OF inv0 p3]])
      qed
    qed
  qed
  then show ?thesis using True by (simp add: advanceSlot_def Let_def)
qed

lemma processEnvelope_safe:
  assumes s: "ready (Suc K) s" and idx: "st_slotIndex (env_statement e) = mSlotIndex s"
    and step: "\<And>s1. same_core s s1 \<Longrightarrow> isStatementSane ctx (env_statement e) self \<Longrightarrow>
      isNewerStatement_for (st_nodeID (env_statement e)) (env_statement e) s1 \<Longrightarrow>
      bstep ctx R s1 (recordEnvelope e s1)"
  shows "safe allowed (\<lambda>(r, s'). post ctx R s s' \<and> (r = INVALID \<longrightarrow> s' = s)) (processEnvelope emit ctx e self s)"
proof (cases "isStatementSane ctx (env_statement e) self \<and>
    isNewerStatement_for (st_nodeID (env_statement e)) (env_statement e) s \<and>
    validateValues ctx (env_statement e) s \<noteq> kInvalidValue")
  case False
  then show ?thesis by (auto simp: processEnvelope_def idx dbgAssert_def Let_def)
next
  case True
  note inv = ready_inv [OF s]
  have rec: "post ctx R s (recordEnvelope e s1)" if s1: "same_core s s1" "quiet s s1" for s1
  proof -
    have "isNewerStatement_for (st_nodeID (env_statement e)) (env_statement e) s1"
      using True s1(1) by (simp add: isNewerStatement_for_def same_core_def)
    with True have "bstep ctx R s1 (recordEnvelope e s1)" by (intro step s1) auto
    then have "post ctx R s1 (recordEnvelope e s1)"
      by (rule post_bstep) (simp_all add: quiet_def recordEnvelope_def recordStatement_def)
    with post_core [OF s1] show ?thesis using post_trans inv by blast
  qed
  show ?thesis
  proof (cases "mPhase s = SCP_PHASE_EXTERNALIZE")
    case ext: True
    obtain c where "mCommit s = Some c" using inv ext by (auto simp: bp_inv_def)
    with True ext rec [of s] show ?thesis
      by (auto simp: processEnvelope_def idx dbgAssert_def Let_def deref_def)
  next
    case ext: False
    let ?s1 = "if validateValues ctx (env_statement e) s = kMaybeValidValue then setFullyValidated False s else s"
    let ?s2 = "recordEnvelope e ?s1"
    have c1: "same_core s ?s1" "quiet s ?s1"
      by (simp_all add: same_core_def quiet_def setFullyValidated_def)
    note p2 = rec [OF c1]
    have mem: "(st_nodeID (env_statement e), e) \<in> set (mLatestEnvelopes ?s2)"
      using inv c1(1) by (simp add: smap_mem_iff bp_inv_def same_core_def)
    have "safe allowed (post ctx R s) (advanceSlot emit ctx (env_statement e) ?s2)"
      using advanceSlot_safe [OF post_ready [OF p2 s] mem refl]
      by (rule safe_post) (rule post_trans [OF inv p2])
    with True ext show ?thesis
      by (auto simp: processEnvelope_def idx dbgAssert_def Let_def elim!: safe_seq)
  qed
qed

lemma Slot_processBallotEnvelope_safe:
  assumes s: "ready (Suc K) s" and idx: "st_slotIndex (env_statement e) = mSlotIndex s"
    and step: "\<And>s1. same_core s s1 \<Longrightarrow> isStatementSane ctx (env_statement e) self \<Longrightarrow>
      isNewerStatement_for (st_nodeID (env_statement e)) (env_statement e) s1 \<Longrightarrow>
      bstep ctx R s1 (recordEnvelope e s1)"
  shows "safe allowed (\<lambda>(r, s'). post ctx R s s' \<and> (r = INVALID \<longrightarrow> s' = s))
    (Slot_processBallotEnvelope emit ctx e self s)"
proof -
  have m: "same_core s' (maybeSetGotVBlocking ctx s')" "quiet s' (maybeSetGotVBlocking ctx s')" for s'
    by (simp_all add: maybeSetGotVBlocking_def Let_def same_core_def quiet_def)
  have "post ctx R s (maybeSetGotVBlocking ctx s')" if "post ctx R s s'" for s'
    using post_trans [OF ready_inv [OF s] that post_core [OF m]] .
  moreover have "safe allowed (\<lambda>(r, s'). post ctx R s s' \<and> (r = INVALID \<longrightarrow> s' = s))
      (processEnvelope emit ctx e self s)"
    by (rule processEnvelope_safe [OF s idx step])
  ultimately show ?thesis
    by (auto simp: Slot_processBallotEnvelope_def idx dbgAssert_def Let_def elim!: safe_seq)
qed

lemma emitStatement_safe:
  assumes s: "ready (Suc K) s"
  shows "safe allowed (post ctx R s) (emitStatement emit ctx s)"
  unfolding emitStatement_def Let_def
proof (rule safe_seq [OF createStatement_safe [OF ready_inv [OF s]]], intro safe_if)
  note inv = ready_inv [OF s]
  fix pl assume pl: "createStatement ctx s = Inr pl"
  let ?e = "createEnvelope ctx BALLOT pl s"
  have send: "post ctx R s (sendLatestEnvelope (s1\<lparr>mLastEnvelope := Some ?e\<rparr>))" if "post ctx R s s1" for s1
  proof -
    have "post ctx R s (s1\<lparr>mLastEnvelope := Some ?e\<rparr>)"
      using post_trans [OF inv that post_core] by (simp add: same_core_def quiet_def)
    then show ?thesis using post_trans [OF inv _ post_core] sendLatestEnvelope_spec by blast
  qed
  have proc: "safe allowed (\<lambda>(r, s'). post ctx R s s' \<and> (r = INVALID \<longrightarrow> s' = s))
      (Slot_processBallotEnvelope emit ctx ?e True s)"
  proof (rule Slot_processBallotEnvelope_safe [OF s])
    show "st_slotIndex (env_statement ?e) = mSlotIndex s" by (simp add: createEnvelope_def Let_def)
    fix s1 assume c: "same_core s s1"
    have "createStatement ctx s1 = Inr pl" using createStatement_core [OF c] pl by simp
    moreover have "?e = createEnvelope ctx BALLOT pl s1"
      using c by (simp add: createEnvelope_def same_core_def)
    ultimately show "isStatementSane ctx (env_statement ?e) True \<Longrightarrow>
        isNewerStatement_for (st_nodeID (env_statement ?e)) (env_statement ?e) s1 \<Longrightarrow>
        bstep ctx R s1 (recordEnvelope ?e s1)"
      by (rule bstep.say)
  qed
  show "safe allowed (post ctx R s) (seq (Slot_processBallotEnvelope emit ctx ?e True s) (\<lambda>(res, s1).
             if res = VALID
             then if mCurrentBallot s \<noteq> None \<and>
                     (case mLastEnvelope s1 of
                        None \<Rightarrow> True
                      | Some l \<Rightarrow> isNewerStatement (env_statement l) (env_statement ?e))
                  then Inr (sendLatestEnvelope (s1\<lparr>mLastEnvelope := Some ?e\<rparr>))
                  else Inr s1
             else Inl MovedToBadStateBallot))"
    by (rule safe_seq [OF proc]) (auto simp: allowed_def intro: send send [OF post_refl])
qed simp

end

section \<open>Closing the recursion\<close>

lemma emitNested_contract: "emit_contract ctx R (emitNested n ctx) n"
proof (induction n)
  case 0
  show ?case by unfold_locales (auto simp: ready_def)
next
  case (Suc n)
  show ?case
    by unfold_locales (simp add: emit_contract.emitStatement_safe [OF Suc])
qed

interpretation em: emit_contract ctx R "emitNested n ctx" n for ctx R n
  by (rule emitNested_contract)

end
