(* ===== verification/Nomination.thy ===== *)
theory Nomination
  imports Ballot_Protocol
begin

text \<open>
  The nomination protocol of a slot, \<^verbatim>\<open>scp/NominationProtocol.cpp\<close>: one definition per method.

  Emitting a nomination feeds it back to \<^verbatim>\<open>Slot::processEnvelope\<close>, which may emit again.  As in
  the ballot protocol the methods take the emitter as an argument.  The code does not bound this
  recursion, so \<open>emitNominationN\<close> closes it with a bound on the nesting depth; the loop of
  \<^verbatim>\<open>updateRoundLeaders\<close>, which ends when the node hashes select a new leader, has a bound too.
  Running out of either bound is the failure \<open>OutOfFuel\<close>.
\<close>

section \<open>Comparing and recording nominations\<close>

text \<open>\<^verbatim>\<open>std::includes\<close>, as the standard describes it: a merge that advances in the second range on
  equal elements.\<close>

fun std_includes :: "'a::linorder list \<Rightarrow> 'a list \<Rightarrow> bool" where
  "std_includes v [] = True"
| "std_includes [] (b # bs) = False"
| "std_includes (a # as) (b # bs) =
     (if b < a then False else if a < b then std_includes as (b # bs) else std_includes as bs)"

text \<open>The result and the output parameter \<^verbatim>\<open>notEqual\<close>.\<close>

definition isSubsetHelper :: "scp_value list \<Rightarrow> scp_value list \<Rightarrow> bool \<times> bool" where
  "isSubsetHelper p v =
     (if length p \<le> length v
      then let res = std_includes v p in (res, if res then length p \<noteq> length v else True)
      else (False, True))"

definition isNewerNomination :: "scp_nomination \<Rightarrow> scp_nomination \<Rightarrow> bool" where
  "isNewerNomination oldst st =
     (let (r1, g1) = isSubsetHelper (nom_votes oldst) (nom_votes st) in
      if r1
      then let (r2, g2) = isSubsetHelper (nom_accepted oldst) (nom_accepted st) in
           if r2 then g1 \<or> g2 else False
      else False)"

definition isNewerNomination_for :: "node_id \<Rightarrow> scp_nomination \<Rightarrow> slot \<Rightarrow> bool" where
  "isNewerNomination_for nodeID st s =
     (case map_of (mLatestNominations s) nodeID of
        None \<Rightarrow> True
      | Some old \<Rightarrow> isNewerNomination (st_pledges (env_statement old)) st)"

text \<open>\<^verbatim>\<open>std::adjacent_find\<close> of a pair that is not increasing finds nothing.\<close>

fun adjacentIncreasing :: "'a::linorder list \<Rightarrow> bool" where
  "adjacentIncreasing (l # r # xs) = (if \<not> l < r then False else adjacentIncreasing (r # xs))"
| "adjacentIncreasing _ = True"

definition isSane :: "scp_nomination \<Rightarrow> bool" where
  "isSane nom =
     (length (nom_votes nom) + length (nom_accepted nom) \<noteq> 0 \<and>
      adjacentIncreasing (nom_votes nom) \<and> adjacentIncreasing (nom_accepted nom))"

definition recordNomination :: "nomination_envelope \<Rightarrow> slot \<Rightarrow> slot" where
  "recordNomination env s =
     recordStatement (map_statement NOMINATE (env_statement env))
       (s\<lparr>mLatestNominations := smap_upd (st_nodeID (env_statement env)) env (mLatestNominations s)\<rparr>)"

definition acceptPredicate :: "scp_value \<Rightarrow> nomination_statement \<Rightarrow> bool" where
  "acceptPredicate v st = (v \<in> set (nom_accepted (st_pledges st)))"

text \<open>The lambda of \<^verbatim>\<open>processEnvelope\<close>.\<close>

definition votePredicate :: "scp_value \<Rightarrow> nomination_statement \<Rightarrow> bool" where
  "votePredicate v st = (v \<in> set (nom_votes (st_pledges st)))"

text \<open>\<^verbatim>\<open>applyAll\<close> calls its argument on the votes, then on the accepted values that are not votes.\<close>

definition NominationProtocol_getStatementValues :: "scp_nomination \<Rightarrow> scp_value list" where
  "NominationProtocol_getStatementValues nom =
     nom_votes nom @ filter (\<lambda>a. a \<notin> set (nom_votes nom)) (nom_accepted nom)"

definition applyAll :: "scp_nomination \<Rightarrow> (scp_value \<Rightarrow> 's \<Rightarrow> 's scp_result) \<Rightarrow> 's \<Rightarrow> 's scp_result" where
  "applyAll nom processor s =
     seq (foldSeq processor (nom_votes nom) s)
       (foldSeq (\<lambda>a r. if a \<in> set (nom_votes nom) then Inr r else processor a r) (nom_accepted nom))"

section \<open>Priorities and leaders\<close>

definition hashNode :: "scp_ctx \<Rightarrow> bool \<Rightarrow> node_id \<Rightarrow> slot \<Rightarrow> uint64 scp_result" where
  "hashNode ctx isPriority nodeID s =
     seq (dbgAssert (mPreviousValue s \<noteq> []) AssertPreviousValue) (\<lambda>_.
       Inr (computeHashNode (ctx_driver ctx) (mSlotIndex s) (mPreviousValue s) isPriority
              (mRoundNumber s) nodeID))"

definition hashValue :: "scp_ctx \<Rightarrow> scp_value \<Rightarrow> slot \<Rightarrow> uint64 scp_result" where
  "hashValue ctx v s =
     seq (dbgAssert (mPreviousValue s \<noteq> []) AssertPreviousValue) (\<lambda>_.
       Inr (computeValueHash (ctx_driver ctx) (mSlotIndex s) (mPreviousValue s) (mRoundNumber s) v))"

definition nodeWeight :: "node_id \<Rightarrow> scp_quorum_set \<Rightarrow> uint64 scp_result" where
  "nodeWeight nodeID qset =
     (case getNodeWeight nodeID qset of Inl _ \<Rightarrow> Inl (DbgAssert AssertWeight) | Inr w \<Rightarrow> Inr w)"

definition getNodePriority :: "scp_ctx \<Rightarrow> node_id \<Rightarrow> scp_quorum_set \<Rightarrow> slot \<Rightarrow> uint64 scp_result" where
  "getNodePriority ctx nodeID qset s =
     seq (if nodeID = mNodeID (ctx_local ctx) then Inr UINT64_MAX else nodeWeight nodeID qset) (\<lambda>w.
     seq (if w > 0 then seq (hashNode ctx False nodeID s) (\<lambda>h. Inr (h \<le> w)) else Inr False) (\<lambda>isNeighbor.
       if isNeighbor then hashNode ctx True nodeID s else Inr 0))"

text \<open>The lambda that collects the nodes of the highest priority.\<close>

definition leaderStep ::
  "scp_ctx \<Rightarrow> scp_quorum_set \<Rightarrow> slot \<Rightarrow> node_id \<Rightarrow> (uint64 \<times> node_id list) scp_result \<Rightarrow>
   bool \<times> (uint64 \<times> node_id list) scp_result" where
  "leaderStep ctx qset s cur acc =
     (case seq acc (\<lambda>(topPriority, newRoundLeaders).
            seq (getNodePriority ctx cur qset s) (\<lambda>w.
            let (topPriority', leaders) =
                  (if w > topPriority then (w, []) else (topPriority, newRoundLeaders)) in
            Inr (topPriority', if w = topPriority' \<and> w > 0 then sset_insert cur leaders else leaders))) of
        Inl e \<Rightarrow> (False, Inl e)
      | Inr r \<Rightarrow> (True, Inr r))"

definition newRoundLeaders :: "scp_ctx \<Rightarrow> scp_quorum_set \<Rightarrow> slot \<Rightarrow> node_id list scp_result" where
  "newRoundLeaders ctx qset s =
     (let localID = mNodeID (ctx_local ctx) in
      seq (getNodePriority ctx localID qset s) (\<lambda>topPriority.
      seq (snd (forAllNodes (leaderStep ctx qset s) qset (Inr (topPriority, [localID]))))
        (\<lambda>(_, leaders). Inr leaders)))"

fun roundLeadersLoop :: "nat \<Rightarrow> scp_ctx \<Rightarrow> scp_quorum_set \<Rightarrow> nat \<Rightarrow> slot \<Rightarrow> slot scp_result" where
  "roundLeadersLoop 0 ctx qset maxLeaderCount s = Inl OutOfFuel"
| "roundLeadersLoop (Suc n) ctx qset maxLeaderCount s =
     (if length (mRoundLeaders s) < maxLeaderCount
      then seq (newRoundLeaders ctx qset s) (\<lambda>new.
           let s1 = s\<lparr>mRoundLeaders := sset_union new (mRoundLeaders s)\<rparr> in
           if length (mRoundLeaders s) \<noteq> length (mRoundLeaders s1) then Inr s1
           else roundLeadersLoop n ctx qset maxLeaderCount
                  (s1\<lparr>mRoundNumber := mRoundNumber s1 + 1\<rparr>))
      else Inr s)"

definition updateRoundLeaders :: "nat \<Rightarrow> scp_ctx \<Rightarrow> slot \<Rightarrow> slot scp_result" where
  "updateRoundLeaders fuel ctx s =
     (let localID = mNodeID (ctx_local ctx);
          myQSet = normalizeQSet (mQSet (ctx_local ctx)) (Some localID);
          maxLeaderCount = snd (forAllNodes (\<lambda>cur n. (True, n + 1)) myQSet 1)
      in roundLeadersLoop fuel ctx myQSet maxLeaderCount s)"

section \<open>Voting\<close>

definition nominationLevel :: "scp_ctx \<Rightarrow> scp_value \<Rightarrow> slot \<Rightarrow> validation_level" where
  "nominationLevel ctx v s = validateValue (ctx_driver ctx) (mSlotIndex s) v True"

definition extractValid :: "scp_ctx \<Rightarrow> scp_value \<Rightarrow> slot \<Rightarrow> scp_value option" where
  "extractValid ctx v s = extractValidValue (ctx_driver ctx) (mSlotIndex s) v"

definition newVoteStep ::
  "scp_ctx \<Rightarrow> slot \<Rightarrow> scp_value \<Rightarrow> scp_value option \<times> uint64 \<Rightarrow>
   (scp_value option \<times> uint64) scp_result" where
  "newVoteStep ctx s v acc =
     (let (newVote, newHash) = acc;
          valueToNominate =
            (if nominationLevel ctx v s = kFullyValidatedValue then Some v else extractValid ctx v s) in
      case valueToNominate of
        None \<Rightarrow> Inr acc
      | Some x \<Rightarrow>
          if x \<notin> set (mVotes s)
          then seq (hashValue ctx x s) (\<lambda>curHash.
                 Inr (if curHash \<ge> newHash then (Some x, curHash) else acc))
          else Inr acc)"

definition getNewValueFromNomination ::
  "scp_ctx \<Rightarrow> scp_nomination \<Rightarrow> slot \<Rightarrow> scp_value option scp_result" where
  "getNewValueFromNomination ctx nom s =
     seq (applyAll nom (newVoteStep ctx s) (None, 0)) (\<lambda>(newVote, _). Inr newVote)"

section \<open>Processing a nomination\<close>

text \<open>One iteration of the loop that promotes votes to accepted values.\<close>

definition acceptVote :: "scp_ctx \<Rightarrow> scp_value \<Rightarrow> bool \<times> slot \<Rightarrow> bool \<times> slot" where
  "acceptVote ctx v ms =
     (let (modified, s) = ms in
      if v \<in> set (mAccepted s) then (modified, s)
      else if Slot_federatedAccept ctx NOMINATE (votePredicate v) (acceptPredicate v) (mLatestNominations s)
      then if nominationLevel ctx v s = kFullyValidatedValue
           then (True, s\<lparr>mAccepted := sset_insert v (mAccepted s), mVotes := sset_insert v (mVotes s)\<rparr>)
           else (case extractValid ctx v s of
                   None \<Rightarrow> (modified, s)
                 | Some toVote \<Rightarrow>
                     if toVote \<notin> set (mVotes s)
                     then (True, s\<lparr>mVotes := sset_insert toVote (mVotes s)\<rparr>) else (modified, s))
      else (modified, s))"

text \<open>One iteration of the loop that promotes accepted values to candidates.\<close>

definition ratifyAccepted :: "scp_ctx \<Rightarrow> scp_value \<Rightarrow> bool \<times> slot \<Rightarrow> bool \<times> slot" where
  "ratifyAccepted ctx a ns =
     (let (newCandidates, s) = ns in
      if a \<in> set (mCandidates s) then (newCandidates, s)
      else if Slot_federatedRatify ctx NOMINATE (acceptPredicate a) (mLatestNominations s)
      then (True, s\<lparr>mCandidates := sset_insert a (mCandidates s)\<rparr>)
      else (newCandidates, s))"

definition voteForLeader ::
  "scp_ctx \<Rightarrow> nomination_statement \<Rightarrow> bool \<times> slot \<Rightarrow> (bool \<times> slot) scp_result" where
  "voteForLeader ctx st ms =
     (let (modified, s) = ms in
      if mCandidates s = [] \<and> st_nodeID st \<in> set (mRoundLeaders s)
      then seq (getNewValueFromNomination ctx (st_pledges st) s) (\<lambda>newVote.
           case newVote of
             None \<Rightarrow> ok modified s
           | Some v \<Rightarrow> ok True (log_event (NominatingValue (mSlotIndex s) v)
                                (s\<lparr>mVotes := sset_insert v (mVotes s)\<rparr>)))
      else ok modified s)"

definition proposeCandidates :: "scp_ctx \<Rightarrow> slot \<Rightarrow> slot scp_result" where
  "proposeCandidates ctx s =
     (let composite = combineCandidates (ctx_driver ctx) (mSlotIndex s) (mCandidates s);
          s1 = s\<lparr>mLatestCompositeCandidate := composite\<rparr> in
      seq (deref composite) (\<lambda>v.
      seq (bumpState (emitCurrentStateStatement ctx) ctx v False
             (log_event (UpdatedCandidateValue (mSlotIndex s1) v) s1))
        (\<lambda>(_, s2). Inr s2)))"

definition NominationProtocol_processEnvelope ::
  "(slot \<Rightarrow> slot scp_result) \<Rightarrow> scp_ctx \<Rightarrow> nomination_envelope \<Rightarrow> slot \<Rightarrow>
   (envelope_state \<times> slot) scp_result" where
  "NominationProtocol_processEnvelope emit ctx envelope s =
     (let st = env_statement envelope; nom = st_pledges st in
      if \<not> isNewerNomination_for (st_nodeID st) nom s then ok INVALID s
      else if \<not> isSane nom then ok INVALID s
      else let s1 = recordNomination envelope s in
        if mNominationStarted s1
        then let (modified1, s2) = fold (acceptVote ctx) (nom_votes nom) (False, s1);
                 (newCandidates, s3) = fold (ratifyAccepted ctx) (mAccepted s2) (False, s2) in
             seq (voteForLeader ctx st (modified1, s3)) (\<lambda>(modified, s4).
             seq (if modified then emit s4 else Inr s4) (\<lambda>s5.
             seq (if newCandidates then proposeCandidates ctx s5 else Inr s5) (\<lambda>s6.
               ok VALID s6)))
        else ok VALID s1)"

text \<open>\<^verbatim>\<open>Slot::processEnvelope\<close> for a nomination.\<close>

definition Slot_processNominationEnvelope ::
  "(slot \<Rightarrow> slot scp_result) \<Rightarrow> scp_ctx \<Rightarrow> nomination_envelope \<Rightarrow> slot \<Rightarrow>
   (envelope_state \<times> slot) scp_result" where
  "Slot_processNominationEnvelope emit ctx envelope s =
     (let st = env_statement envelope in
      seq (dbgAssert (st_slotIndex st = mSlotIndex s) AssertSlotIndex) (\<lambda>_.
      let prev = (getLatestMessage (st_nodeID st) s \<noteq> None) in
      seq (NominationProtocol_processEnvelope emit ctx envelope s) (\<lambda>(res, s1).
        ok res (if \<not> prev \<and> res = VALID then maybeSetGotVBlocking ctx s1 else s1))))"

section \<open>Emitting a nomination\<close>

definition createNomination :: "scp_ctx \<Rightarrow> slot \<Rightarrow> scp_nomination" where
  "createNomination ctx s =
     \<lparr>nom_quorumSetHash = mQSetHash (ctx_local ctx), nom_votes = mVotes s, nom_accepted = mAccepted s\<rparr>"

definition emitNomination :: "(slot \<Rightarrow> slot scp_result) \<Rightarrow> scp_ctx \<Rightarrow> slot \<Rightarrow> slot scp_result" where
  "emitNomination emit ctx s =
     (let nom = createNomination ctx s; envelope = createEnvelope ctx NOMINATE nom s in
      seq (Slot_processNominationEnvelope emit ctx envelope s) (\<lambda>(res, s1).
        if res = VALID
        then if (case mNomLastEnvelope s1 of
                   None \<Rightarrow> True
                 | Some l \<Rightarrow> isNewerNomination (st_pledges (env_statement l)) nom)
             then let s2 = s1\<lparr>mNomLastEnvelope := Some envelope\<rparr> in
                  Inr (if mFullyValidated s2 then log_event (EmitEnvelope (map_envelope NOMINATE envelope)) s2
                       else s2)
             else Inr s1
        else Inl MovedToBadStateNomination))"

fun emitNominationN :: "nat \<Rightarrow> scp_ctx \<Rightarrow> slot \<Rightarrow> slot scp_result" where
  "emitNominationN 0 ctx s = Inl OutOfFuel"
| "emitNominationN (Suc n) ctx s = emitNomination (emitNominationN n ctx) ctx s"

section \<open>Nominating\<close>

text \<open>One iteration of the loop over the leaders.\<close>

definition voteFromLeader :: "scp_ctx \<Rightarrow> node_id \<Rightarrow> bool \<times> slot \<Rightarrow> (bool \<times> slot) scp_result" where
  "voteFromLeader ctx leader us =
     (let (updated, s) = us in
      case map_of (mLatestNominations s) leader of
        None \<Rightarrow> ok updated s
      | Some e \<Rightarrow>
          seq (getNewValueFromNomination ctx (st_pledges (env_statement e)) s) (\<lambda>lnmV.
          case lnmV of
            None \<Rightarrow> ok updated s
          | Some v \<Rightarrow> ok True (log_event (NominatingValue (mSlotIndex s) v)
                               (s\<lparr>mVotes := sset_insert v (mVotes s)\<rparr>))))"

definition nominate ::
  "nat \<Rightarrow> scp_ctx \<Rightarrow> scp_value \<Rightarrow> scp_value \<Rightarrow> bool \<Rightarrow> slot \<Rightarrow> (bool \<times> slot) scp_result" where
  "nominate fuel ctx val previousValue timedout s =
     (let s1 = (if timedout then s\<lparr>mNomTimerExpCount := mNomTimerExpCount s + 1\<rparr> else s) in
      if timedout \<and> \<not> mNominationStarted s1 then ok False s1
      else let s2 = s1\<lparr>mNominationStarted := True, mPreviousValue := previousValue,
                       mRoundNumber := mRoundNumber s1 + 1\<rparr> in
        seq (updateRoundLeaders fuel ctx s2) (\<lambda>s3.
        let timeout = computeTimeout (ctx_driver ctx) (mRoundNumber s3);
            (updated1, s4) =
              (if mNodeID (ctx_local ctx) \<in> set (mRoundLeaders s3) \<and> val \<notin> set (mVotes s3)
               then (True, log_event (NominatingValue (mSlotIndex s3) val)
                             (s3\<lparr>mVotes := sset_insert val (mVotes s3)\<rparr>))
               else (False, s3)) in
        seq (foldSeq (voteFromLeader ctx) (mRoundLeaders s4) (updated1, s4)) (\<lambda>(updated, s5).
        let s6 = log_event (SetupTimer NOMINATION_TIMER timeout) s5 in
        if updated then seq (emitNominationN fuel ctx s6) (\<lambda>s7. ok True s7)
        else ok False s6)))"

section \<open>Restoring and reporting state\<close>

definition setStateFromNominationEnvelope :: "nomination_envelope \<Rightarrow> slot \<Rightarrow> slot scp_result" where
  "setStateFromNominationEnvelope e s =
     (if mNominationStarted s then Inl CannotSetStateNomination
      else let s1 = recordNomination e s; nom = st_pledges (env_statement e) in
        Inr (s1\<lparr>mAccepted := sset_union (nom_accepted nom) (mAccepted s1),
                mVotes := sset_union (nom_votes nom) (mVotes s1),
                mNomLastEnvelope := Some e\<rparr>))"

definition nominationCurrentState :: "scp_ctx \<Rightarrow> bool \<Rightarrow> slot \<Rightarrow> nomination_envelope list" where
  "nominationCurrentState ctx forceSelf s =
     map snd (filter (\<lambda>(n, e). forceSelf \<or> n \<noteq> mNodeID (ctx_local ctx) \<or> mFullyValidated s)
                (mLatestNominations s))"

definition NominationProtocol_getState :: "scp_ctx \<Rightarrow> node_id \<Rightarrow> bool \<Rightarrow> slot \<Rightarrow> quorum_info_state" where
  "NominationProtocol_getState ctx n selfAlreadyMovedOn s =
     (if n = mNodeID (ctx_local ctx) then AGREE
      else let enoughTimeHasPassed =
                 (mNomTimerExpCount s \<ge> NUM_TIMEOUTS_THRESHOLD_FOR_REPORTING \<or> selfAlreadyMovedOn) in
        case map_of (mLatestNominations s) n of
          None \<Rightarrow> if enoughTimeHasPassed then MISSING else NO_INFO
        | Some e \<Rightarrow>
            (case mNomLastEnvelope s of
               None \<Rightarrow> AGREE
             | Some l \<Rightarrow>
                 if enoughTimeHasPassed
                 then let (isSubset, notEq) =
                            isSubsetHelper (nom_accepted (st_pledges (env_statement e)))
                              (nom_accepted (st_pledges (env_statement l))) in
                      if isSubset then (if notEq then DELAYED else AGREE) else DISAGREE
                 else AGREE))"

end
