(* ===== verification/Nomination_Leaders.thy ===== *)
theory Nomination_Leaders
  imports Nomination
begin

text \<open>
  The leaders of a nomination round: on a sane quorum set no assertion of the weight computation
  fails, the leaders are the nodes of highest priority, and the search for a new leader stops at
  the first round that has one.
\<close>

section \<open>Weights in a quorum set without the local node\<close>

text \<open>Removing a node can leave empty quorum sets with threshold 0, but a threshold never exceeds
  the number of entries.\<close>

fun weak_qset :: "scp_quorum_set \<Rightarrow> bool" where
  "weak_qset (SCPQuorumSet t v i) \<longleftrightarrow>
     unat t \<le> length v + length i \<and> length v + length i < 2 ^ 31 \<and> list_all weak_qset i"

lemma computeWeight_total:
  assumes "0 < unat tot" "unat thr \<le> unat tot"
  shows "\<exists>w. computeWeight m tot thr = Inr w"
proof -
  let ?q = "div_round ROUND_UP (unat m * unat thr) (unat tot)"
  have "?q \<le> unat m"
  proof (cases "unat m = 0 \<or> unat thr = 0")
    case True
    then have "unat m * unat thr = 0" by auto
    then have "?q = (unat tot - 1) div unat tot" by (simp only: div_round_def add_0) simp
    then show ?thesis using assms(1) by simp
  next
    case False
    then show ?thesis
      using ceil_div_bounds(2) [of "unat m" "unat thr" "unat tot"] assms by (simp add: div_round_def)
  qed
  moreover have "unat m < 2 ^ 64" by (rule unat64_less)
  ultimately have lt: "?q < 2 ^ 64" by linarith
  have t: "0 < tot" unfolding word_less_nat_alt using assms(1) by simp
  show ?thesis
    using assms(2) lt bigDivideUnsigned_spec [OF t, of m thr ROUND_UP]
    by (simp add: computeWeight_def word_le_nat_alt)
qed

lemma getInnerWeight_total:
  assumes "\<And>q. q \<in> set qs \<Longrightarrow> \<exists>w. getNodeWeight n q = Inr w" "qs = [] \<or> 0 < unat tot" "unat thr \<le> unat tot"
  shows "\<exists>w. getInnerWeight n qs tot thr = Inr w"
  using assms(1,2)
proof (induction qs)
  case (Cons q qs)
  from Cons.prems(1) [of q] obtain w where w: "getNodeWeight n q = Inr w" by auto
  have "0 < unat tot" using Cons.prems(2) by simp
  moreover have "\<exists>w. getInnerWeight n qs tot thr = Inr w" using Cons by simp
  ultimately show ?case using w computeWeight_total [OF _ assms(3)] by simp
qed simp

lemma getNodeWeight_total: "weak_qset q \<Longrightarrow> \<exists>w. getNodeWeight n q = Inr w"
proof (induction q)
  case (SCPQuorumSet t v i)
  let ?d = "of_nat (length i + length v) :: uint64" and ?n = "ucast t :: uint64"
  have d: "unat ?d = length i + length v"
    by (rule unat_of_nat64) (use SCPQuorumSet.prems in simp)
  have "unat t < 2 ^ 64" using unsigned_less [where 'a = nat, of t] by simp
  then have n: "unat ?n = unat t" by (simp add: unsigned_ucast_eq take_bit_eq_mod)
  have le: "unat ?n \<le> unat ?d" unfolding d n using SCPQuorumSet.prems by simp
  have i: "\<exists>w. getInnerWeight n i ?d ?n = Inr w"
    by (rule getInnerWeight_total [OF _ _ le]) (use SCPQuorumSet d in \<open>auto simp: list_all_iff\<close>)
  have "\<exists>w. computeWeight UINT64_MAX ?d ?n = Inr w" if "n \<in> set v"
    by (rule computeWeight_total [OF _ le]) (use that d in \<open>auto simp: length_pos_if_in_set\<close>)
  with i show ?case by (simp add: Let_def)
qed

text \<open>The local node occurs at most once, so removing it lowers a threshold by at most one.\<close>

lemma removeNode_weak:
  assumes "distinct v" "0 < unat t" "removeNode (Some n) t v = (t', v')"
  shows "unat t' \<le> unat t \<and> unat t - unat t' = length v - length v' \<and> length v' \<le> length v"
proof -
  have v': "v' = filter (\<lambda>m. m \<noteq> n) v" and t': "t' = t - of_nat (length v - length v')"
    using assms(3) by (auto simp: removeNode_def Let_def simp del: of_nat_diff)
  have "length v = length (filter (\<lambda>m. m \<noteq> n) v) + (if n \<in> set v then 1 else 0)"
    using assms(1) by (induction v) auto
  then have "length v - length v' = (if n \<in> set v then 1 else 0)"
    unfolding v' by simp
  moreover have "unat (t - 1) = unat t - 1" using assms(2) by (metis unat_minus_one unat_0 less_irrefl)
  ultimately show ?thesis using assms(2) v' by (auto simp: t' split: if_splits)
qed

lemma simplifyInner_weak:
  assumes "\<And>q. q \<in> set qs \<Longrightarrow> weak_qset (normalizeQSetSimplify n q)" "simplifyInner n qs v = (v', i')"
  shows "length v' + length i' = length v + length qs \<and> list_all weak_qset i'"
  using assms
proof (induction qs arbitrary: v v' i')
  case (Cons q qs)
  let ?q = "normalizeQSetSimplify n q"
  show ?case
  proof (cases "isSingletonQSet ?q")
    case True
    then have "simplifyInner n qs (v @ [hd (validators ?q)]) = (v', i')" using Cons.prems(2) by (simp add: Let_def)
    with Cons.IH [OF Cons.prems(1) this] show ?thesis by simp
  next
    case False
    then obtain i'' where i'': "simplifyInner n qs v = (v', i'')" "i' = ?q # i''"
      using Cons.prems(2) by (auto simp: Let_def split: prod.splits)
    with Cons.IH [OF Cons.prems(1) i''(1)] Cons.prems(1) show ?thesis by simp
  qed
qed simp

lemma normalizeQSetSimplify_weak:
  "wf_qset q \<Longrightarrow> distinct (qset_nodes q) \<Longrightarrow> weak_qset (normalizeQSetSimplify (Some n) q)"
proof (induction q)
  case (SCPQuorumSet t v i)
  obtain t' v' where r: "removeNode (Some n) t v = (t', v')" by fastforce
  obtain v'' i' where s: "simplifyInner (Some n) i v' = (v'', i')" by fastforce
  have "distinct (qset_nodes q)" if "q \<in> set i" for q
    using SCPQuorumSet.prems(2) that by (auto simp: distinct_concat_iff split: if_splits)
  then have inner: "weak_qset (normalizeQSetSimplify (Some n) q)" if "q \<in> set i" for q
    using that SCPQuorumSet by (auto simp: list_all_iff)
  have rm: "unat t' \<le> unat t \<and> unat t - unat t' = length v - length v' \<and> length v' \<le> length v"
    by (rule removeNode_weak [OF _ _ r]) (use SCPQuorumSet.prems in auto)
  have len: "length v'' + length i' = length v' + length i" "list_all weak_qset i'"
    using simplifyInner_weak [OF inner s] by auto
  have "weak_qset (last i')" if "length i' = 1"
    using that len(2) by (cases i') (auto simp: length_Suc_conv)
  moreover have "weak_qset (SCPQuorumSet t' v'' i')"
    using SCPQuorumSet.prems(1) rm len by (auto simp: list_all_iff)
  ultimately show ?case using r s by (simp add: Let_def)
qed

lemma reorder_weak: "weak_qset (normalizeQuorumSetReorder q) \<longleftrightarrow> weak_qset q"
  by (induction q) (auto simp: sortQSets_sort list_all_iff)

text \<open>The quorum set used in \<^verbatim>\<open>updateRoundLeaders\<close>.\<close>

lemma normalizeQSet_weak: "isQuorumSetSane q ex \<Longrightarrow> weak_qset (normalizeQSet q (Some n))"
  unfolding normalizeQSet_def reorder_weak
  by (rule normalizeQSetSimplify_weak) (auto simp: sane_wf_qset isQuorumSetSane_spec)

section \<open>Walking over the nodes of a quorum set\<close>

lemma forValidators_fold:
  assumes "\<And>n s. P s \<Longrightarrow> fst (f n s) \<and> P (snd (f n s))" "P s"
  shows "forValidators f v s = (True, fold (\<lambda>n s. snd (f n s)) v s) \<and> P (fold (\<lambda>n s. snd (f n s)) v s)"
  using assms(2)
proof (induction v arbitrary: s)
  case (Cons n v)
  from assms(1) [OF Cons.prems, of n] Cons.IH show ?case by (cases "f n s") auto
qed simp

lemma forAllNodes_fold:
  assumes "\<And>n s. P s \<Longrightarrow> fst (f n s) \<and> P (snd (f n s))" "P s"
  shows "forAllNodes f q s = (True, fold (\<lambda>n s. snd (f n s)) (qset_nodes q) s) \<and>
      P (fold (\<lambda>n s. snd (f n s)) (qset_nodes q) s)"
  using assms(2)
proof (induction q arbitrary: s)
  case (SCPQuorumSet t v i)
  have inner: "forAllInner f qs s = (True, fold (\<lambda>n s. snd (f n s)) (concat (map qset_nodes qs)) s) \<and>
      P (fold (\<lambda>n s. snd (f n s)) (concat (map qset_nodes qs)) s)" if "set qs \<subseteq> set i" "P s" for qs s
    using that
  proof (induction qs arbitrary: s)
    case (Cons q qs)
    from Cons.prems SCPQuorumSet.IH [of q s] Cons.IH show ?case by auto
  qed simp
  from forValidators_fold [of P f, OF assms(1) SCPQuorumSet.prems, of v] inner show ?case by simp
qed

section \<open>Leaders are the nodes of highest priority\<close>

definition priority :: "scp_ctx \<Rightarrow> scp_quorum_set \<Rightarrow> slot \<Rightarrow> node_id \<Rightarrow> uint64" where
  "priority ctx q s n = (case getNodePriority ctx n q s of Inr w \<Rightarrow> w | Inl _ \<Rightarrow> 0)"

lemma getNodePriority_total:
  assumes "weak_qset q" "mPreviousValue s \<noteq> []"
  shows "getNodePriority ctx n q s = Inr (priority ctx q s n)"
proof -
  obtain w where w: "getNodeWeight n q = Inr w" using getNodeWeight_total [OF assms(1)] by blast
  have "\<exists>w. getNodePriority ctx n q s = Inr w"
    using assms(2) by (simp add: getNodePriority_def nodeWeight_def w hashNode_def dbgAssert_def)
  then show ?thesis by (auto simp: priority_def)
qed

definition topNodes :: "(node_id \<Rightarrow> uint64) \<Rightarrow> node_id \<Rightarrow> node_id set \<Rightarrow> node_id set" where
  "topNodes prio self A =
     (let top = Max (prio ` insert self A) in if top = 0 then {self} else {n \<in> insert self A. prio n = top})"

definition leadersOf :: "(node_id \<Rightarrow> uint64) \<Rightarrow> node_id \<Rightarrow> node_id set \<Rightarrow> uint64 \<times> node_id list \<Rightarrow> bool" where
  "leadersOf prio self A acc \<longleftrightarrow>
     fst acc = Max (prio ` insert self A) \<and> sset (snd acc) \<and> set (snd acc) = topNodes prio self A"

lemma leadersOf_step:
  fixes prio :: "node_id \<Rightarrow> uint64"
  assumes "leadersOf prio self A (tp, ls)" "finite A"
  shows "leadersOf prio self (insert cur A)
    (let (top', ls') = (if prio cur > tp then (prio cur, []) else (tp, ls))
     in (top', if prio cur = top' \<and> prio cur > 0 then sset_insert cur ls' else ls'))"
proof -
  let ?w = "prio cur"
  have top: "tp = Max (prio ` insert self A)" and ls: "sset ls" "set ls = topNodes prio self A"
    using assms(1) by (simp_all add: leadersOf_def)
  have le: "prio n \<le> tp" if "n \<in> insert self A" for n
    using that assms(2) by (auto simp: top)
  have "prio ` insert self (insert cur A) = insert ?w (prio ` insert self A)" by auto
  then have top': "Max (prio ` insert self (insert cur A)) = max ?w tp"
    using assms(2) by (simp only: top) (rule Max_insert, simp_all)
  have ts: "set ls = (if tp = 0 then {self} else {n \<in> insert self A. prio n = tp})"
    by (simp only: ls(2) topNodes_def Let_def top [symmetric] simp_thms)
  have ts': "topNodes prio self (insert cur A) =
      (if max ?w tp = 0 then {self} else {n \<in> insert self (insert cur A). prio n = max ?w tp})"
    unfolding topNodes_def Let_def top' ..
  consider (gt) "tp < ?w" | (eq) "?w = tp" | (lt) "?w < tp" by (rule linorder_cases)
  then show ?thesis
  proof cases
    case gt
    then have "?w \<noteq> 0" "0 < ?w" "max ?w tp = ?w" by (auto simp: word_gt_0)
    moreover have "{n \<in> insert self (insert cur A). prio n = ?w} = {cur}" using le gt by force
    ultimately show ?thesis using gt top' by (simp add: leadersOf_def ts')
  next
    case eq
    then show ?thesis using ts ls top' by (auto simp: leadersOf_def ts' word_gt_0)
  next
    case lt
    then have "max ?w tp = tp" "\<not> tp < ?w" "?w \<noteq> tp" "tp \<noteq> 0" by (auto simp: max_def)
    then show ?thesis using ts ls top' by (auto simp: leadersOf_def ts')
  qed
qed

lemma newRoundLeaders_total:
  assumes "weak_qset q" "mPreviousValue s \<noteq> []"
  shows "\<exists>ls. newRoundLeaders ctx q s = Inr ls \<and> sset ls \<and>
    set ls = topNodes (priority ctx q s) (mNodeID (ctx_local ctx)) (set (qset_nodes q))"
proof -
  let ?self = "mNodeID (ctx_local ctx)" and ?prio = "priority ctx q s"
  let ?f = "\<lambda>n acc. snd (leaderStep ctx q s n acc)"
  have step: "leaderStep ctx q s n (Inr (top, ls)) = (True, Inr
     (let (top', ls') = (if ?prio n > top then (?prio n, []) else (top, ls))
      in (top', if ?prio n = top' \<and> ?prio n > 0 then sset_insert n ls' else ls')))" for n top ls
    by (simp add: leaderStep_def getNodePriority_total [OF assms] Let_def split: prod.split)
  have "forAllNodes (leaderStep ctx q s) q (Inr (?prio ?self, [?self])) =
      (True, fold ?f (qset_nodes q) (Inr (?prio ?self, [?self])))"
  proof (rule conjunct1 [OF forAllNodes_fold [where P = "\<lambda>r. \<exists>a. r = Inr a"]])
    fix n and r :: "(uint64 \<times> node_id list) scp_result" assume "\<exists>a. r = Inr a"
    then obtain top ls where "r = Inr (top, ls)" by auto
    then show "fst (leaderStep ctx q s n r) \<and> (\<exists>a. snd (leaderStep ctx q s n r) = Inr a)"
      by (simp add: step)
  qed simp
  moreover have "\<exists>a. fold ?f ns (Inr acc) = Inr a \<and> leadersOf ?prio ?self (A \<union> set ns) a"
    if "leadersOf ?prio ?self A acc" "finite A" for ns A acc
    using that
  proof (induction ns arbitrary: A acc)
    case (Cons n ns)
    obtain top ls where acc: "acc = (top, ls)" by fastforce
    show ?case
      using Cons.IH [OF leadersOf_step [OF Cons.prems(1) [unfolded acc] Cons.prems(2), of n]] Cons.prems(2)
      by (simp add: acc step)
  qed simp
  moreover have "leadersOf ?prio ?self {} (?prio ?self, [?self])"
    by (auto simp: leadersOf_def topNodes_def Let_def)
  ultimately have "\<exists>a. fold ?f (qset_nodes q) (Inr (?prio ?self, [?self])) = Inr a \<and>
      leadersOf ?prio ?self (set (qset_nodes q)) a" and
    "forAllNodes (leaderStep ctx q s) q (Inr (?prio ?self, [?self])) =
      (True, fold ?f (qset_nodes q) (Inr (?prio ?self, [?self])))"
    by (metis Un_empty_left finite.emptyI)+
  then show ?thesis
    by (auto simp: newRoundLeaders_def getNodePriority_total [OF assms] leadersOf_def)
qed

section \<open>The search for a new leader\<close>

text \<open>The leaders of the round \<open>k\<close> rounds later.\<close>

definition roundLeaders :: "scp_ctx \<Rightarrow> scp_quorum_set \<Rightarrow> slot \<Rightarrow> nat \<Rightarrow> node_id set" where
  "roundLeaders ctx q s k =
     topNodes (priority ctx q (s\<lparr>mRoundNumber := mRoundNumber s + of_nat k\<rparr>)) (mNodeID (ctx_local ctx))
       (set (qset_nodes q))"

lemma sset_union_absorb: "sset ys \<Longrightarrow> set xs \<subseteq> set ys \<Longrightarrow> sset_union xs ys = ys"
  unfolding sset_union_def by (induction xs arbitrary: ys) (auto simp: sset_insert_absorb)

lemma sset_union_length: "sset ys \<Longrightarrow> length (sset_union xs ys) = length ys \<longleftrightarrow> set xs \<subseteq> set ys"
proof
  assume s: "sset ys" and l: "length (sset_union xs ys) = length ys"
  have "set ys \<subseteq> set (sset_union xs ys)" "sset (sset_union xs ys)" using s by auto
  with s l have "set ys = set (sset_union xs ys)"
    by (intro card_subset_eq) (simp_all add: distinct_card strict_sorted_iff del: set_sset_union)
  then show "set xs \<subseteq> set ys" by auto
qed (simp add: sset_union_absorb)

lemma roundLeadersLoop_step:
  assumes "weak_qset q" "mPreviousValue s \<noteq> []" "sset (mRoundLeaders s)" "length (mRoundLeaders s) < m"
  shows "roundLeaders ctx q s 0 \<subseteq> set (mRoundLeaders s) \<Longrightarrow> roundLeadersLoop (Suc n) ctx q m s =
      roundLeadersLoop n ctx q m (s\<lparr>mRoundNumber := mRoundNumber s + 1\<rparr>)"
    and "\<not> roundLeaders ctx q s 0 \<subseteq> set (mRoundLeaders s) \<Longrightarrow> \<exists>ls.
      set ls = set (mRoundLeaders s) \<union> roundLeaders ctx q s 0 \<and> sset ls \<and>
      roundLeadersLoop (Suc n) ctx q m s = Inr (s\<lparr>mRoundLeaders := ls\<rparr>)"
proof -
  obtain ls where ls: "newRoundLeaders ctx q s = Inr ls" "set ls = roundLeaders ctx q s 0"
    using newRoundLeaders_total [OF assms(1,2), of ctx] by (auto simp: roundLeaders_def)
  let ?u = "sset_union ls (mRoundLeaders s)"
  show "roundLeadersLoop (Suc n) ctx q m s =
      roundLeadersLoop n ctx q m (s\<lparr>mRoundNumber := mRoundNumber s + 1\<rparr>)"
    if "roundLeaders ctx q s 0 \<subseteq> set (mRoundLeaders s)"
    using that assms(3,4) ls by (simp add: Let_def sset_union_absorb)
  have "roundLeadersLoop (Suc n) ctx q m s = Inr (s\<lparr>mRoundLeaders := ?u\<rparr>)"
    if "\<not> roundLeaders ctx q s 0 \<subseteq> set (mRoundLeaders s)"
    using that assms(3,4) ls sset_union_length [OF assms(3), of ls] by (simp add: Let_def)
  then show "\<exists>ls. set ls = set (mRoundLeaders s) \<union> roundLeaders ctx q s 0 \<and> sset ls \<and>
      roundLeadersLoop (Suc n) ctx q m s = Inr (s\<lparr>mRoundLeaders := ls\<rparr>)"
    if "\<not> roundLeaders ctx q s 0 \<subseteq> set (mRoundLeaders s)"
    using that ls(2) assms(3) by (intro exI [of _ ?u]) auto
qed

lemma roundLeaders_shift:
  "roundLeaders ctx q (s\<lparr>mRoundNumber := mRoundNumber s + 1\<rparr>) k = roundLeaders ctx q s (Suc k)"
  by (simp add: roundLeaders_def add.assoc)

text \<open>The loop stops in the first round that has a new leader.\<close>

lemma roundLeadersLoop_first:
  assumes "weak_qset q" "mPreviousValue s \<noteq> []" "sset (mRoundLeaders s)" "length (mRoundLeaders s) < m"
    and "\<And>j. j < k \<Longrightarrow> roundLeaders ctx q s j \<subseteq> set (mRoundLeaders s)"
    and "\<not> roundLeaders ctx q s k \<subseteq> set (mRoundLeaders s)" "k < n"
  shows "\<exists>ls. set ls = set (mRoundLeaders s) \<union> roundLeaders ctx q s k \<and> sset ls \<and>
    roundLeadersLoop n ctx q m s = Inr (s\<lparr>mRoundNumber := mRoundNumber s + of_nat k, mRoundLeaders := ls\<rparr>)"
  using assms
proof (induction k arbitrary: s n)
  case 0
  then obtain n' where "n = Suc n'" by (cases n) auto
  with 0 roundLeadersLoop_step(2) [OF 0(1-4)] show ?case by simp
next
  case (Suc k)
  then obtain n' where n: "n = Suc n'" by (cases n) auto
  let ?s = "s\<lparr>mRoundNumber := mRoundNumber s + 1\<rparr>"
  have "roundLeadersLoop n ctx q m s = roundLeadersLoop n' ctx q m ?s"
    unfolding n by (rule roundLeadersLoop_step(1) [OF Suc.prems(1-4)]) (use Suc.prems(5) in simp)
  moreover have "\<exists>ls. set ls = set (mRoundLeaders ?s) \<union> roundLeaders ctx q ?s k \<and> sset ls \<and>
      roundLeadersLoop n' ctx q m ?s = Inr (?s\<lparr>mRoundNumber := mRoundNumber ?s + of_nat k, mRoundLeaders := ls\<rparr>)"
    by (rule Suc.IH) (use Suc.prems n in \<open>auto simp: roundLeaders_shift\<close>)
  ultimately show ?case by (auto simp: roundLeaders_shift add.assoc)
qed

end
