(* ===== verification/Nomination_Correct.thy ===== *)
theory Nomination_Correct
  imports Ballot_Refinement Nomination_Leaders
begin

text \<open>
  Correctness of the nomination protocol: statements are ordered by inclusion; the sets of voted,
  accepted and candidate values stay nested and every statement the node makes about itself is
  newer than its previous one, so that the protocol never moves to a bad state; the nested
  emissions end; the leaders of a round are the nodes of highest priority.
\<close>

section \<open>Sorted value lists\<close>

lemma adjacentIncreasing_sset: "adjacentIncreasing xs \<longleftrightarrow> sset xs"
proof (induction xs rule: adjacentIncreasing.induct)
  case (1 l r xs)
  then show ?case by auto
qed simp_all

lemma std_includes_sset: "sset v \<Longrightarrow> sset p \<Longrightarrow> std_includes v p \<longleftrightarrow> set p \<subseteq> set v"
proof (induction v p rule: std_includes.induct)
  case (3 a as b bs)
  then show ?case by (cases a b rule: linorder_cases) auto
qed simp_all

lemma sset_subset_length: "sset p \<Longrightarrow> sset v \<Longrightarrow> set p \<subseteq> set v \<Longrightarrow> length p \<le> length v"
  by (metis card_mono distinct_card List.finite_set strict_sorted_iff)

lemma sset_eq: "sset p \<Longrightarrow> sset v \<Longrightarrow> set p = set v \<Longrightarrow> p = v"
  by (simp add: sorted_distinct_set_unique strict_sorted_iff)

lemma isSubsetHelper_iff:
  assumes "sset p" "sset v"
  shows "isSubsetHelper p v = (set p \<subseteq> set v, p \<noteq> v)"
proof (cases "set p \<subseteq> set v")
  case True
  have "length p = length v \<longleftrightarrow> p = v"
  proof
    assume "length p = length v"
    then have "card (set p) = card (set v)" using assms by (simp add: distinct_card strict_sorted_iff)
    then have "set p = set v" using True by (simp add: card_subset_eq)
    with assms show "p = v" by (simp add: sset_eq)
  qed simp
  with True assms show ?thesis
    by (simp add: isSubsetHelper_def std_includes_sset sset_subset_length)
next
  case False
  with assms show ?thesis by (auto simp: isSubsetHelper_def std_includes_sset Let_def)
qed

lemma isSane_iff:
  "isSane nom \<longleftrightarrow> (nom_votes nom \<noteq> [] \<or> nom_accepted nom \<noteq> []) \<and> sset (nom_votes nom) \<and> sset (nom_accepted nom)"
  by (auto simp: isSane_def adjacentIncreasing_sset)

text \<open>A nomination is newer than another if its votes and accepted values include the other's and
  one of the two sets is larger.\<close>

lemma isNewerNomination_iff:
  assumes "isSane old" "isSane new"
  shows "isNewerNomination old new \<longleftrightarrow>
    set (nom_votes old) \<subseteq> set (nom_votes new) \<and> set (nom_accepted old) \<subseteq> set (nom_accepted new) \<and>
    (nom_votes old \<noteq> nom_votes new \<or> nom_accepted old \<noteq> nom_accepted new)"
  using assms by (auto simp: isNewerNomination_def isSane_iff isSubsetHelper_iff)

section \<open>The invariant\<close>

text \<open>What the node has recorded of its own statements.\<close>

definition ownNomination :: "scp_ctx \<Rightarrow> slot \<Rightarrow> scp_nomination option" where
  "ownNomination ctx s =
     map_option (\<lambda>e. st_pledges (env_statement e)) (map_of (mLatestNominations s) (mNodeID (ctx_local ctx)))"

definition nom_inv :: "scp_ctx \<Rightarrow> slot \<Rightarrow> bool" where
  "nom_inv ctx s \<longleftrightarrow>
     sset (mVotes s) \<and> sset (mAccepted s) \<and> sset (mCandidates s) \<and> sset (mRoundLeaders s) \<and>
     set (mCandidates s) \<subseteq> set (mAccepted s) \<and> set (mAccepted s) \<subseteq> set (mVotes s) \<and>
     smap_ok (mLatestNominations s) \<and>
     (\<forall>(n, e) \<in> set (mLatestNominations s). isSane (st_pledges (env_statement e))) \<and>
     (\<forall>nom. ownNomination ctx s = Some nom \<longrightarrow>
        set (nom_votes nom) \<subseteq> set (mVotes s) \<and> set (nom_accepted nom) \<subseteq> set (mAccepted s)) \<and>
     (mNominationStarted s \<longrightarrow> mPreviousValue s \<noteq> [])"

lemma nom_inv_new_Slot: "nom_inv ctx (new_Slot i ln)"
  by (simp add: nom_inv_def new_Slot_def ownNomination_def)

lemma nom_inv_frame:
  "nom_frame s s' \<Longrightarrow> (mNominationStarted s' \<Longrightarrow> mNominationStarted s) \<Longrightarrow> nom_inv ctx s \<Longrightarrow> nom_inv ctx s'"
  by (simp add: nom_inv_def ownNomination_def)

section \<open>Growth within a finite set of values\<close>

text \<open>A finite set of values that holds, with a value that is not fully valid, what the driver
  extracts from it.\<close>

definition closed_values :: "scp_ctx \<Rightarrow> uint64 \<Rightarrow> scp_value set \<Rightarrow> bool" where
  "closed_values ctx i U \<longleftrightarrow> finite U \<and>
     (\<forall>v x. v \<in> U \<longrightarrow> validateValue (ctx_driver ctx) i v True \<noteq> kFullyValidatedValue \<longrightarrow>
        extractValidValue (ctx_driver ctx) i v = Some x \<longrightarrow> x \<in> U)"

definition within :: "scp_value set \<Rightarrow> slot \<Rightarrow> bool" where
  "within U s \<longleftrightarrow> set (mVotes s) \<subseteq> U \<and>
     (\<forall>(n, e) \<in> set (mLatestNominations s).
        set (nom_votes (st_pledges (env_statement e))) \<subseteq> U \<and>
        set (nom_accepted (st_pledges (env_statement e))) \<subseteq> U)"

abbreviation nom_size :: "slot \<Rightarrow> nat" where
  "nom_size s \<equiv> length (mVotes s) + length (mAccepted s)"

definition grows :: "slot \<Rightarrow> slot \<Rightarrow> bool" where
  "grows s s' \<longleftrightarrow>
     set (mVotes s) \<subseteq> set (mVotes s') \<and> set (mAccepted s) \<subseteq> set (mAccepted s') \<and>
     set (mCandidates s) \<subseteq> set (mCandidates s')"

lemma grows_refl [simp]: "grows s s"
  by (simp add: grows_def)

lemma grows_trans: "grows s s1 \<Longrightarrow> grows s1 s2 \<Longrightarrow> grows s s2"
  by (auto simp: grows_def)

lemma sset_insert_length: "sset xs \<Longrightarrow> length (sset_insert x xs) = (if x \<in> set xs then length xs else Suc (length xs))"
  by (induction xs) auto

lemma grows_size:
  assumes "grows s s'" "nom_inv ctx s" "nom_inv ctx s'"
  shows "nom_size s \<le> nom_size s'"
  using assms sset_subset_length by (auto simp: grows_def nom_inv_def intro!: add_mono)

lemma size_bound:
  assumes "nom_inv ctx s" "within U s" "finite U"
  shows "nom_size s \<le> 2 * card U"
proof -
  have "length (mVotes s) = card (set (mVotes s))" "length (mAccepted s) = card (set (mAccepted s))"
    using assms(1) by (simp_all add: nom_inv_def distinct_card strict_sorted_iff)
  moreover have "card (set (mVotes s)) \<le> card U" "card (set (mAccepted s)) \<le> card U"
    using assms by (auto simp: nom_inv_def within_def intro!: card_mono)
  ultimately show ?thesis by linarith
qed

text \<open>The loops of \<^verbatim>\<open>processEnvelope\<close> and \<^verbatim>\<open>nominate\<close> change the three sets and log events, and
  nothing else.\<close>

definition nchange :: "slot \<Rightarrow> slot \<Rightarrow> bool" where
  "nchange s s' \<longleftrightarrow>
     same_core s s' \<and> mCurrentMessageLevel s' = mCurrentMessageLevel s \<and> ext_events s' = ext_events s \<and>
     mLatestNominations s' = mLatestNominations s \<and> mNominationStarted s' = mNominationStarted s \<and>
     mPreviousValue s' = mPreviousValue s \<and> mRoundLeaders s' = mRoundLeaders s \<and> grows s s'"

lemma nchange_refl [simp]: "nchange s s"
  by (simp add: nchange_def)

lemma nchange_trans: "nchange s s1 \<Longrightarrow> nchange s1 s2 \<Longrightarrow> nchange s s2"
  using same_core_trans grows_trans unfolding nchange_def by (metis (no_types, lifting))

lemma nchange_inv:
  assumes "nchange s s'" "nom_inv ctx s"
    and "sset (mVotes s')" "sset (mAccepted s')" "sset (mCandidates s')"
      "set (mCandidates s') \<subseteq> set (mAccepted s')" "set (mAccepted s') \<subseteq> set (mVotes s')"
  shows "nom_inv ctx s'"
proof -
  have own: "ownNomination ctx s' = ownNomination ctx s"
    using assms(1) by (simp add: nchange_def ownNomination_def)
  have "set (nom_votes nom) \<subseteq> set (mVotes s') \<and> set (nom_accepted nom) \<subseteq> set (mAccepted s')"
    if "ownNomination ctx s = Some nom" for nom
    using that assms(1,2) unfolding nchange_def nom_inv_def grows_def by (meson subset_trans)
  with own assms show ?thesis unfolding nchange_def nom_inv_def by simp
qed

definition nstep :: "scp_ctx \<Rightarrow> scp_value set \<Rightarrow> slot \<Rightarrow> slot \<Rightarrow> bool" where
  "nstep ctx U s s' \<longleftrightarrow> nchange s s' \<and> (nom_inv ctx s \<longrightarrow> nom_inv ctx s') \<and> (within U s \<longrightarrow> within U s')"

lemma nstep_refl [simp]: "nstep ctx U s s"
  by (simp add: nstep_def)

lemma nstep_trans: "nstep ctx U s s1 \<Longrightarrow> nstep ctx U s1 s2 \<Longrightarrow> nstep ctx U s s2"
  using nchange_trans by (auto simp: nstep_def)

lemma nstep_vote:
  assumes "x \<in> U" "nom_inv ctx s"
  shows "nstep ctx U s (s\<lparr>mVotes := sset_insert x (mVotes s)\<rparr>)"
proof -
  let ?s' = "s\<lparr>mVotes := sset_insert x (mVotes s)\<rparr>"
  have c: "nchange s ?s'" by (auto simp: nchange_def same_core_def grows_def)
  moreover have "nom_inv ctx ?s'"
    by (rule nchange_inv [OF c assms(2)]) (use assms(2) in \<open>auto simp: nom_inv_def\<close>)
  ultimately show ?thesis using assms(1) by (auto simp: nstep_def within_def)
qed

lemma nstep_log: "\<not> is_externalized e \<Longrightarrow> nstep ctx U s (log_event e s)"
  by (simp add: nstep_def nchange_def log_event_def same_core_def grows_def nom_inv_def within_def ownNomination_def)

lemma acceptVote_step:
  assumes "v \<in> U" "closed_values ctx (mSlotIndex s) U" "nom_inv ctx s"
  shows "nstep ctx U s (snd (acceptVote ctx v (m, s)))"
    and "fst (acceptVote ctx v (m, s)) \<longrightarrow> m \<or> nom_size s < nom_size (snd (acceptVote ctx v (m, s)))"
    and "m \<longrightarrow> fst (acceptVote ctx v (m, s))"
proof -
  have sv: "sset (mVotes s)" "sset (mAccepted s)" using assms(3) by (simp_all add: nom_inv_def)
  let ?acc = "s\<lparr>mAccepted := sset_insert v (mAccepted s), mVotes := sset_insert v (mVotes s)\<rparr>"
  have c: "nchange s ?acc" by (auto simp: nchange_def same_core_def grows_def)
  have "nom_inv ctx ?acc"
    by (rule nchange_inv [OF c assms(3)]) (use assms(3) in \<open>auto simp: nom_inv_def\<close>)
  with c assms(1) have acc: "nstep ctx U s ?acc" by (auto simp: nstep_def within_def)
  have vote: "nstep ctx U s (s\<lparr>mVotes := sset_insert x (mVotes s)\<rparr>)"
    if "extractValid ctx v s = Some x" "nominationLevel ctx v s \<noteq> kFullyValidatedValue" for x
    using that assms nstep_vote [of x U ctx s]
    by (auto simp: closed_values_def extractValid_def nominationLevel_def)
  show "nstep ctx U s (snd (acceptVote ctx v (m, s)))"
    using acc vote by (simp add: acceptVote_def split: option.split)
  show "fst (acceptVote ctx v (m, s)) \<longrightarrow> m \<or> nom_size s < nom_size (snd (acceptVote ctx v (m, s)))"
    using sv by (simp add: acceptVote_def sset_insert_length split: option.split)
  show "m \<longrightarrow> fst (acceptVote ctx v (m, s))"
    by (simp add: acceptVote_def split: option.split)
qed

text \<open>The flag that tells whether a new statement is due is only raised when a set has grown.\<close>

definition modifies :: "scp_ctx \<Rightarrow> scp_value set \<Rightarrow> bool \<times> slot \<Rightarrow> bool \<times> slot \<Rightarrow> bool" where
  "modifies ctx U ms ms' \<longleftrightarrow> nstep ctx U (snd ms) (snd ms') \<and>
     (fst ms' \<longrightarrow> fst ms \<or> nom_size (snd ms) < nom_size (snd ms'))"

lemma modifies_refl [simp]: "modifies ctx U ms ms"
  by (simp add: modifies_def)

lemma nstep_size: "nstep ctx U s s' \<Longrightarrow> nom_inv ctx s \<Longrightarrow> nom_size s \<le> nom_size s'"
  using grows_size unfolding nstep_def nchange_def by blast

lemma modifies_trans:
  assumes "modifies ctx U a b" "modifies ctx U b c" "nom_inv ctx (snd a)"
  shows "modifies ctx U a c"
proof -
  have "nom_inv ctx (snd b)" using assms by (simp add: modifies_def nstep_def)
  then have "nom_size (snd a) \<le> nom_size (snd b)" "nom_size (snd b) \<le> nom_size (snd c)"
    using assms nstep_size by (auto simp: modifies_def)
  moreover have "nstep ctx U (snd a) (snd c)" using assms(1,2) nstep_trans by (simp add: modifies_def) blast
  ultimately show ?thesis using assms(1,2) by (auto simp: modifies_def)
qed

lemma nstep_index: "nstep ctx U s s' \<Longrightarrow> mSlotIndex s' = mSlotIndex s"
  by (simp add: nstep_def nchange_def same_core_def)

lemma acceptVotes_modifies:
  assumes "set vs \<subseteq> U" "closed_values ctx (mSlotIndex (snd ms)) U" "nom_inv ctx (snd ms)"
  shows "modifies ctx U ms (fold (acceptVote ctx) vs ms)"
  using assms
proof (induction vs arbitrary: ms)
  case (Cons v vs)
  let ?ms = "acceptVote ctx v ms"
  have m: "modifies ctx U ms ?ms"
    using acceptVote_step [of v U ctx "snd ms" "fst ms"] Cons.prems by (auto simp: modifies_def)
  then have n: "nstep ctx U (snd ms) (snd ?ms)" by (simp add: modifies_def)
  have "modifies ctx U ?ms (fold (acceptVote ctx) vs ?ms)"
  proof (rule Cons.IH)
    show "set vs \<subseteq> U" using Cons.prems(1) by simp
    show "closed_values ctx (mSlotIndex (snd ?ms)) U" using Cons.prems(2) nstep_index [OF n] by simp
    show "nom_inv ctx (snd ?ms)" using n Cons.prems(3) by (simp add: nstep_def)
  qed
  from modifies_trans [OF m this Cons.prems(3)] show ?case by simp
qed simp

lemma ratifyAccepted_step:
  assumes "set vs \<subseteq> set (mAccepted (snd ns))" "nom_inv ctx (snd ns)"
  shows "nstep ctx U (snd ns) (snd (fold (ratifyAccepted ctx) vs ns)) \<and>
    mVotes (snd (fold (ratifyAccepted ctx) vs ns)) = mVotes (snd ns) \<and>
    mAccepted (snd (fold (ratifyAccepted ctx) vs ns)) = mAccepted (snd ns)"
  using assms
proof (induction vs arbitrary: ns)
  case (Cons v vs)
  let ?s = "snd ns"
  let ?s' = "?s\<lparr>mCandidates := sset_insert v (mCandidates ?s)\<rparr>"
  let ?ns = "ratifyAccepted ctx v ns"
  have c: "nchange ?s ?s'" by (auto simp: nchange_def same_core_def grows_def)
  have "nom_inv ctx ?s'"
    by (rule nchange_inv [OF c Cons.prems(2)]) (use Cons.prems in \<open>auto simp: nom_inv_def\<close>)
  with c have "nstep ctx U ?s ?s'" by (simp add: nstep_def within_def)
  then have st: "nstep ctx U ?s (snd ?ns)" "mVotes (snd ?ns) = mVotes ?s" "mAccepted (snd ?ns) = mAccepted ?s"
    by (auto simp: ratifyAccepted_def split: prod.split)
  moreover have "nom_inv ctx (snd ?ns)" using st(1) Cons.prems(2) by (simp add: nstep_def)
  ultimately show ?case
    using Cons.IH [of ?ns] Cons.prems(1) nstep_trans [OF st(1)] by (simp add: st(2,3))
qed simp

lemma getNewValue_safe:
  assumes "set (nom_votes nom) \<subseteq> U" "set (nom_accepted nom) \<subseteq> U"
    and "closed_values ctx (mSlotIndex s) U" "mPreviousValue s \<noteq> []"
  shows "safe (\<lambda>_. False) (\<lambda>r. \<forall>x. r = Some x \<longrightarrow> x \<in> U \<and> x \<notin> set (mVotes s)) (getNewValueFromNomination ctx nom s)"
proof -
  let ?P = "\<lambda>(r, h :: uint64). \<forall>x. r = Some x \<longrightarrow> x \<in> U \<and> x \<notin> set (mVotes s)"
  have step: "safe (\<lambda>_. False) ?P (newVoteStep ctx s v acc)" if "v \<in> U" "?P acc" for v acc
    using that assms(3,4)
    by (auto simp: newVoteStep_def hashValue_def dbgAssert_def closed_values_def nominationLevel_def
        extractValid_def Let_def split: option.split)
  have "safe (\<lambda>_. False) ?P (applyAll nom (newVoteStep ctx s) (None, 0))"
    unfolding applyAll_def
  proof (rule safe_seq)
    show "safe (\<lambda>_. False) ?P (foldSeq (newVoteStep ctx s) (nom_votes nom) (None, 0))"
      by (rule foldSeq_safe) (use assms(1) step in auto)
    show "safe (\<lambda>_. False) ?P (foldSeq (\<lambda>a r. if a \<in> set (nom_votes nom) then Inr r else newVoteStep ctx s a r)
        (nom_accepted nom) r)" if "?P r" for r
      by (rule foldSeq_safe, rule that) (use assms(2) step in auto)
  qed
  then show ?thesis unfolding getNewValueFromNomination_def by (rule safe_seq) auto
qed

text \<open>A vote for a value that is not yet voted for.\<close>

lemma newVote_modifies:
  assumes "x \<in> U" "x \<notin> set (mVotes s)" "nom_inv ctx s"
  shows "modifies ctx U (m, s) (True, log_event (NominatingValue i x) (s\<lparr>mVotes := sset_insert x (mVotes s)\<rparr>))"
proof -
  have "sset (mVotes s)" using assms(3) by (simp add: nom_inv_def)
  then have "nom_size s < nom_size (s\<lparr>mVotes := sset_insert x (mVotes s)\<rparr>)"
    using assms(2) by (simp add: sset_insert_length)
  with nstep_trans [OF nstep_vote [OF assms(1,3)] nstep_log] show ?thesis
    by (simp add: modifies_def log_event_def)
qed

lemma voteForLeader_safe:
  assumes "set (nom_votes (st_pledges st)) \<subseteq> U" "set (nom_accepted (st_pledges st)) \<subseteq> U"
    and "closed_values ctx (mSlotIndex s) U" "nom_inv ctx s" "mNominationStarted s"
  shows "safe (\<lambda>_. False) (modifies ctx U (m, s)) (voteForLeader ctx st (m, s))"
proof -
  have "mPreviousValue s \<noteq> []" using assms(4,5) by (simp add: nom_inv_def)
  note new = getNewValue_safe [OF assms(1-3) this]
  have "safe (\<lambda>_. False) (modifies ctx U (m, s)) (seq (getNewValueFromNomination ctx (st_pledges st) s) (\<lambda>newVote.
           case newVote of
             None \<Rightarrow> ok m s
           | Some v \<Rightarrow> ok True (log_event (NominatingValue (mSlotIndex s) v)
                                (s\<lparr>mVotes := sset_insert v (mVotes s)\<rparr>))))"
    by (rule safe_seq [OF new]) (auto intro: newVote_modifies [OF _ _ assms(4)] split: option.split)
  then show ?thesis by (simp add: voteForLeader_def)
qed

section \<open>The contract of the emitter\<close>

text \<open>\<^verbatim>\<open>combineCandidates\<close> computes a composite value whenever there are candidates.\<close>

definition driver_combines :: "scp_ctx \<Rightarrow> bool" where
  "driver_combines ctx \<longleftrightarrow> (\<forall>i cs. cs \<noteq> [] \<longrightarrow> combineCandidates (ctx_driver ctx) i cs \<noteq> None)"

definition nidle :: "scp_ctx \<Rightarrow> scp_value set \<Rightarrow> slot \<Rightarrow> bool" where
  "nidle ctx U s \<longleftrightarrow>
     driver_combines ctx \<and> nom_inv ctx s \<and> within U s \<and> closed_values ctx (mSlotIndex s) U \<and>
     bp_inv s \<and> mCurrentMessageLevel s = 0"

definition npost :: "scp_ctx \<Rightarrow> ballot_envelope set \<Rightarrow> scp_value set \<Rightarrow> slot \<Rightarrow> slot \<Rightarrow> bool" where
  "npost ctx R U s s' \<longleftrightarrow> bpost ctx R s s' \<and> nom_inv ctx s' \<and> within U s' \<and> grows s s'"

text \<open>The node has something to say that its last statement did not say.\<close>

definition fresh :: "scp_ctx \<Rightarrow> slot \<Rightarrow> bool" where
  "fresh ctx s \<longleftrightarrow> (mVotes s \<noteq> [] \<or> mAccepted s \<noteq> []) \<and>
     (\<forall>nom. ownNomination ctx s = Some nom \<longrightarrow> nom_votes nom \<noteq> mVotes s \<or> nom_accepted nom \<noteq> mAccepted s)"

lemma npost_refl: "nidle ctx U s \<Longrightarrow> npost ctx R U s s"
  by (simp add: nidle_def npost_def ext_rel_def)

lemma npost_nidle:
  assumes "npost ctx R U s s'" "nidle ctx U s"
  shows "nidle ctx U s'"
proof -
  have r: "reach ctx R s s'" and inv: "bp_inv s" using assms by (simp_all add: npost_def nidle_def)
  then have "mSlotIndex s' = mSlotIndex s" using reach_advances advances_def by blast
  with bp_inv_reach [OF r inv] assms show ?thesis by (simp add: npost_def nidle_def)
qed

lemma npost_trans:
  assumes "nidle ctx U s" "npost ctx R U s s1" "npost ctx R U s1 s2"
  shows "npost ctx R U s s2"
proof -
  have "bpost ctx R s s2"
    by (rule bpost_trans [of s ctx R s1]) (use assms in \<open>simp_all add: npost_def nidle_def\<close>)
  with assms show ?thesis using grows_trans [of s s1 s2] by (simp add: npost_def)
qed

text \<open>Changes outside the state of the ballot protocol.\<close>

lemma npost_core:
  assumes "same_core s s'" "mCurrentMessageLevel s' = mCurrentMessageLevel s" "ext_events s' = ext_events s"
    and "nom_inv ctx s'" "within U s'" "grows s s'"
  shows "npost ctx R U s s'"
proof -
  have "reach ctx R s s'" using bstep.other [OF assms(1)] by blast
  moreover have "ext_rel s s'" using assms(1,3) by (simp add: ext_rel_def same_core_def)
  ultimately show ?thesis using assms by (simp add: npost_def)
qed

lemma npost_nstep: "nidle ctx U s \<Longrightarrow> nstep ctx U s s' \<Longrightarrow> npost ctx R U s s'"
  by (rule npost_core) (simp_all add: nidle_def nstep_def nchange_def)

lemma npost_post:
  assumes "nidle ctx U s" "post ctx R s s'"
  shows "npost ctx R U s s'"
proof -
  have "nom_inv ctx s'" by (rule nom_inv_frame [where s = s]) (use assms in \<open>auto simp: post_def nidle_def\<close>)
  moreover have "within U s'" "grows s s'" using assms by (simp_all add: post_def nidle_def within_def grows_def)
  ultimately show ?thesis using assms(2) by (simp add: npost_def post_def)
qed

lemma fresh_grown:
  assumes "nom_inv ctx s" "ownNomination ctx s' = ownNomination ctx s" "nom_size s < nom_size s'"
  shows "fresh ctx s'"
  unfolding fresh_def
proof (intro conjI allI impI)
  show "mVotes s' \<noteq> [] \<or> mAccepted s' \<noteq> []" using assms(3) by auto
  fix nom assume "ownNomination ctx s' = Some nom"
  then have own: "ownNomination ctx s = Some nom" using assms(2) by simp
  then obtain e where "(mNodeID (ctx_local ctx), e) \<in> set (mLatestNominations s)" "nom = st_pledges (env_statement e)"
    unfolding ownNomination_def by (auto dest: map_of_SomeD)
  then have "isSane nom" using assms(1) by (auto simp: nom_inv_def)
  then have "length (nom_votes nom) \<le> length (mVotes s)" "length (nom_accepted nom) \<le> length (mAccepted s)"
    using own assms(1) by (auto simp: nom_inv_def isSane_iff intro: sset_subset_length)
  with assms(3) show "nom_votes nom \<noteq> mVotes s' \<or> nom_accepted nom \<noteq> mAccepted s'" by auto
qed

lemma recordNomination_simps [simp]:
  "mVotes (recordNomination e s) = mVotes s" "mAccepted (recordNomination e s) = mAccepted s"
  "mCandidates (recordNomination e s) = mCandidates s" "mRoundLeaders (recordNomination e s) = mRoundLeaders s"
  "mPreviousValue (recordNomination e s) = mPreviousValue s" "mEvents (recordNomination e s) = mEvents s"
  "mNominationStarted (recordNomination e s) = mNominationStarted s" "mSlotIndex (recordNomination e s) = mSlotIndex s"
  "mCurrentMessageLevel (recordNomination e s) = mCurrentMessageLevel s"
  "mLatestNominations (recordNomination e s) = smap_upd (st_nodeID (env_statement e)) e (mLatestNominations s)"
  by (simp_all add: recordNomination_def recordStatement_def)

lemma recordNomination_core: "same_core s (recordNomination e s)"
  by (simp add: same_core_def recordNomination_def recordStatement_def)

lemma set_smap_upd: "set (smap_upd k v m) \<subseteq> insert (k, v) (set m)"
  by (induction m rule: smap_upd.induct) auto

text \<open>Recording a sane statement keeps the invariant, if it is not about the node itself or says
  what the node believes.\<close>

lemma recordNomination_npost:
  assumes s: "nidle ctx U s" and sane: "isSane (st_pledges (env_statement e))"
    and U: "set (nom_votes (st_pledges (env_statement e))) \<subseteq> U" "set (nom_accepted (st_pledges (env_statement e))) \<subseteq> U"
    and own: "st_nodeID (env_statement e) = mNodeID (ctx_local ctx) \<Longrightarrow>
       nom_votes (st_pledges (env_statement e)) = mVotes s \<and> nom_accepted (st_pledges (env_statement e)) = mAccepted s"
  shows "npost ctx R U s (recordNomination e s)"
proof (rule npost_core)
  note mem = set_mp [OF set_smap_upd [of "st_nodeID (env_statement e)" e "mLatestNominations s"]]
  have "ownNomination ctx (recordNomination e s) =
      (if st_nodeID (env_statement e) = mNodeID (ctx_local ctx) then Some (st_pledges (env_statement e))
       else ownNomination ctx s)"
    using s by (simp add: ownNomination_def nidle_def nom_inv_def)
  moreover have "\<forall>(n, e') \<in> set (mLatestNominations (recordNomination e s)). isSane (st_pledges (env_statement e'))"
    using s sane by (auto simp: nidle_def nom_inv_def dest!: mem)
  ultimately show "nom_inv ctx (recordNomination e s)"
    using s own by (simp add: nidle_def nom_inv_def)
  show "within U (recordNomination e s)"
    using s U by (fastforce simp: nidle_def within_def dest!: mem)
qed (simp_all add: recordNomination_core grows_def)

lemma ratifyAccepted_flag:
  "\<not> fst ns \<or> mCandidates (snd ns) \<noteq> [] \<Longrightarrow>
   \<not> fst (fold (ratifyAccepted ctx) vs ns) \<or> mCandidates (snd (fold (ratifyAccepted ctx) vs ns)) \<noteq> []"
proof (induction vs arbitrary: ns)
  case (Cons v vs)
  have "sset_insert v (mCandidates (snd ns)) \<noteq> []" by (cases "mCandidates (snd ns)") auto
  then have "\<not> fst (ratifyAccepted ctx v ns) \<or> mCandidates (snd (ratifyAccepted ctx v ns)) \<noteq> []"
    using Cons.prems by (auto simp: ratifyAccepted_def split: prod.split)
  from Cons.IH [OF this] show ?case by simp
qed simp

lemma proposeCandidates_safe:
  assumes s: "nidle ctx U s" and combine: "combineCandidates (ctx_driver ctx) (mSlotIndex s) (mCandidates s) \<noteq> None"
  shows "safe allowed (npost ctx R U s) (proposeCandidates ctx s)"
proof -
  from combine obtain v where v: "combineCandidates (ctx_driver ctx) (mSlotIndex s) (mCandidates s) = Some v" by auto
  let ?s1 = "log_event (UpdatedCandidateValue (mSlotIndex s) v) (s\<lparr>mLatestCompositeCandidate := Some v\<rparr>)"
  have n1: "npost ctx R U s ?s1"
    by (rule npost_core)
      (use s in \<open>simp_all add: log_event_def same_core_def grows_def nidle_def nom_inv_def within_def ownNomination_def\<close>)
  note s1 = npost_nidle [OF n1 s]
  have "ready MAX_ADVANCE_SLOT_RECURSION ?s1"
    using s1 by (simp add: ready_def nidle_def MAX_ADVANCE_SLOT_RECURSION_def)
  then have "safe allowed (\<lambda>(w, s'). post ctx R ?s1 s') (bumpState (emitCurrentStateStatement ctx) ctx v False ?s1)"
    unfolding emitCurrentStateStatement_def by (rule em.bumpState_safe) simp
  then have "safe allowed (npost ctx R U s)
      (seq (bumpState (emitCurrentStateStatement ctx) ctx v False ?s1) (\<lambda>(_, s2). Inr s2))"
    by (rule safe_seq) (clarsimp, rule npost_trans [OF s n1 npost_post [OF s1]])
  then show ?thesis by (simp add: proposeCandidates_def v deref_def)
qed

locale nom_emitter =
  fixes ctx :: scp_ctx and R :: "ballot_envelope set" and U :: "scp_value set"
    and emit :: "slot \<Rightarrow> slot scp_result" and n :: nat
  assumes emit_ok: "nidle ctx U s \<Longrightarrow> fresh ctx s \<Longrightarrow> 2 * card U < n + nom_size s \<Longrightarrow>
      safe allowed (npost ctx R U s) (emit s)"
begin

lemma emit_propose_safe:
  assumes s: "nidle ctx U s" and em: "modified \<Longrightarrow> fresh ctx s \<and> 2 * card U < n + nom_size s"
    and nc: "newCandidates \<Longrightarrow> mCandidates s \<noteq> []"
  shows "safe allowed (\<lambda>(r, s'). npost ctx R U s s' \<and> r = VALID)
     (seq (if modified then emit s else Inr s) (\<lambda>s5.
      seq (if newCandidates then proposeCandidates ctx s5 else Inr s5) (\<lambda>s6. ok VALID s6)))"
proof (rule safe_seq)
  show "safe allowed (npost ctx R U s) (if modified then emit s else Inr s)"
    using em emit_ok [OF s] npost_refl [OF s] by simp
  fix s5 assume n5: "npost ctx R U s s5"
  note s5 = npost_nidle [OF n5 s]
  have "newCandidates \<Longrightarrow> mCandidates s5 \<noteq> []" using nc n5 by (auto simp: npost_def grows_def)
  then have "safe allowed (npost ctx R U s5) (if newCandidates then proposeCandidates ctx s5 else Inr s5)"
    using s5 proposeCandidates_safe [OF s5] npost_refl [OF s5] by (simp add: nidle_def driver_combines_def)
  then show "safe allowed (\<lambda>(r, s'). npost ctx R U s s' \<and> r = VALID)
      (seq (if newCandidates then proposeCandidates ctx s5 else Inr s5) (\<lambda>s6. ok VALID s6))"
    by (rule safe_seq) (simp add: npost_trans [OF s n5])
qed

text \<open>The loops before the emission.\<close>

lemma promote_safe:
  assumes s: "nidle ctx U s" and started: "mNominationStarted s"
    and U: "set (nom_votes (st_pledges st)) \<subseteq> U" "set (nom_accepted (st_pledges st)) \<subseteq> U"
    and f2: "fold (acceptVote ctx) (nom_votes (st_pledges st)) (False, s) = (m2, s2)"
    and f3: "fold (ratifyAccepted ctx) (mAccepted s2) (False, s2) = (nc, s3)"
  shows "safe allowed (\<lambda>(m, s'). modifies ctx U (False, s) (m, s') \<and> (nc \<longrightarrow> mCandidates s' \<noteq> []))
    (voteForLeader ctx st (m2, s3))"
proof -
  have m2: "modifies ctx U (False, s) (m2, s2)"
    using acceptVotes_modifies [of "nom_votes (st_pledges st)" U ctx "(False, s)"] U(1) s f2
    by (simp add: nidle_def)
  then have s2: "nidle ctx U s2" using npost_nidle [OF npost_nstep [OF s] s] by (simp add: modifies_def)
  have r3: "nstep ctx U s2 s3" "mVotes s3 = mVotes s2" "mAccepted s3 = mAccepted s2"
    using ratifyAccepted_step [of "mAccepted s2" "(False, s2)" ctx U] f3 s2 by (simp_all add: nidle_def)
  have nc: "nc \<Longrightarrow> mCandidates s3 \<noteq> []" using ratifyAccepted_flag [of "(False, s2)" ctx "mAccepted s2"] f3 by simp
  have s3: "nidle ctx U s3" using npost_nidle [OF npost_nstep [OF s2 r3(1)] s2] .
  have m3: "modifies ctx U (False, s) (m2, s3)"
    using m2 r3 nstep_trans [of ctx U s s2 s3] by (simp add: modifies_def)
  have st3: "mNominationStarted s3" using m3 started by (simp add: modifies_def nstep_def nchange_def)
  have "safe (\<lambda>_. False) (modifies ctx U (m2, s3)) (voteForLeader ctx st (m2, s3))"
    by (rule voteForLeader_safe [OF U]) (use s3 st3 in \<open>simp_all add: nidle_def\<close>)
  then show ?thesis
  proof (rule safe_mono, clarify)
    fix m' s' assume m': "modifies ctx U (m2, s3) (m', s')"
    have "set (mCandidates s3) \<subseteq> set (mCandidates s')"
      using m' by (simp add: modifies_def nstep_def nchange_def grows_def)
    with nc have "nc \<longrightarrow> mCandidates s' \<noteq> []" by auto
    moreover have "modifies ctx U (False, s) (m', s')"
      by (rule modifies_trans [OF m3 m']) (use s in \<open>simp add: nidle_def\<close>)
    ultimately show "modifies ctx U (False, s) (m', s') \<and> (nc \<longrightarrow> mCandidates s' \<noteq> [])" by blast
  qed simp
qed

lemma process_safe:
  assumes s: "nidle ctx U s" and fuel: "2 * card U < Suc n + nom_size s"
    and U: "set (nom_votes (st_pledges (env_statement e))) \<subseteq> U" "set (nom_accepted (st_pledges (env_statement e))) \<subseteq> U"
    and own: "st_nodeID (env_statement e) = mNodeID (ctx_local ctx) \<Longrightarrow>
       nom_votes (st_pledges (env_statement e)) = mVotes s \<and> nom_accepted (st_pledges (env_statement e)) = mAccepted s"
  shows "safe allowed (\<lambda>(r, s'). npost ctx R U s s' \<and>
      (r = INVALID \<longrightarrow> s' = s \<and> \<not> (isNewerNomination_for (st_nodeID (env_statement e)) (st_pledges (env_statement e)) s
         \<and> isSane (st_pledges (env_statement e)))))
    (NominationProtocol_processEnvelope emit ctx e s)"
proof (cases "isNewerNomination_for (st_nodeID (env_statement e)) (st_pledges (env_statement e)) s
    \<and> isSane (st_pledges (env_statement e))")
  case False
  then show ?thesis using npost_refl [OF s] by (auto simp: NominationProtocol_processEnvelope_def Let_def)
next
  case True
  let ?st = "env_statement e" and ?s1 = "recordNomination e s"
  have n1: "npost ctx R U s ?s1" by (rule recordNomination_npost [OF s _ U own]) (use True in auto)
  note s1 = npost_nidle [OF n1 s]
  show ?thesis
  proof (cases "mNominationStarted s")
    case False
    with True n1 show ?thesis by (simp add: NominationProtocol_processEnvelope_def Let_def)
  next
    case started: True
    obtain m2 s2 where f2: "fold (acceptVote ctx) (nom_votes (st_pledges ?st)) (False, ?s1) = (m2, s2)" by fastforce
    obtain nc s3 where f3: "fold (ratifyAccepted ctx) (mAccepted s2) (False, s2) = (nc, s3)" by fastforce
    have "safe allowed (\<lambda>(r, s'). npost ctx R U s s' \<and> r = VALID)
       (seq (voteForLeader ctx ?st (m2, s3)) (\<lambda>(modified, s4).
             seq (if modified then emit s4 else Inr s4) (\<lambda>s5.
             seq (if nc then proposeCandidates ctx s5 else Inr s5) (\<lambda>s6. ok VALID s6))))"
    proof (rule safe_seq [OF promote_safe [OF s1 _ U f2 f3]], goal_cases)
      case 1
      show ?case using started by simp
    next
      case (2 x)
      obtain m4 s4 where x: "x = (m4, s4)" by fastforce
      with 2 have m4: "modifies ctx U (False, ?s1) (m4, s4)" and nc: "nc \<Longrightarrow> mCandidates s4 \<noteq> []" by auto
      have n4: "npost ctx R U ?s1 s4" using m4 npost_nstep [OF s1] by (simp add: modifies_def)
      note s4 = npost_nidle [OF n4 s1] and p4 = npost_trans [OF s n1 n4]
      have "fresh ctx s4 \<and> 2 * card U < n + nom_size s4" if "m4"
      proof
        have g: "nom_size ?s1 < nom_size s4" using m4 that by (simp add: modifies_def)
        then show "2 * card U < n + nom_size s4" using fuel by simp
        show "fresh ctx s4"
          by (rule fresh_grown [OF _ _ g])
            (use s1 m4 in \<open>simp_all add: nidle_def modifies_def nstep_def nchange_def ownNomination_def\<close>)
      qed
      from emit_propose_safe [OF s4 this nc] show ?case
        unfolding x split by (rule safe_post) (auto intro: npost_trans [OF s p4])
    qed
    then show ?thesis
      using True started f2 f3 by (auto simp: NominationProtocol_processEnvelope_def Let_def elim!: safe_post)
  qed
qed

lemma Slot_process_safe:
  assumes s: "nidle ctx U s" and fuel: "2 * card U < Suc n + nom_size s"
    and idx: "st_slotIndex (env_statement e) = mSlotIndex s"
    and U: "set (nom_votes (st_pledges (env_statement e))) \<subseteq> U" "set (nom_accepted (st_pledges (env_statement e))) \<subseteq> U"
    and own: "st_nodeID (env_statement e) = mNodeID (ctx_local ctx) \<Longrightarrow>
       nom_votes (st_pledges (env_statement e)) = mVotes s \<and> nom_accepted (st_pledges (env_statement e)) = mAccepted s"
  shows "safe allowed (\<lambda>(r, s'). npost ctx R U s s' \<and>
      (r = INVALID \<longrightarrow> s' = s \<and> \<not> (isNewerNomination_for (st_nodeID (env_statement e)) (st_pledges (env_statement e)) s
         \<and> isSane (st_pledges (env_statement e)))))
    (Slot_processNominationEnvelope emit ctx e s)"
proof -
  have m: "npost ctx R U s' (maybeSetGotVBlocking ctx s')" if "nidle ctx U s'" for s'
    by (rule npost_core)
      (use that in \<open>simp_all add: maybeSetGotVBlocking_def Let_def same_core_def grows_def nidle_def nom_inv_def
        within_def ownNomination_def\<close>)
  have m': "npost ctx R U s (maybeSetGotVBlocking ctx s')" if "npost ctx R U s s'" for s'
    by (rule npost_trans [OF s that m [OF npost_nidle [OF that s]]])
  have "safe allowed (\<lambda>(r, s'). npost ctx R U s s' \<and>
      (r = INVALID \<longrightarrow> s' = s \<and> \<not> (isNewerNomination_for (st_nodeID (env_statement e)) (st_pledges (env_statement e)) s
         \<and> isSane (st_pledges (env_statement e)))))
    (NominationProtocol_processEnvelope emit ctx e s)"
    by (rule process_safe [OF s fuel U own])
  then show ?thesis
    unfolding Slot_processNominationEnvelope_def Let_def idx dbgAssert_def if_P [OF refl] seq_simps
    by (rule safe_seq) (auto intro: m')
qed

lemma emitNomination_safe:
  assumes s: "nidle ctx U s" and new: "fresh ctx s" and fuel: "2 * card U < Suc n + nom_size s"
  shows "safe allowed (npost ctx R U s) (emitNomination emit ctx s)"
proof -
  let ?nom = "createNomination ctx s"
  let ?e = "createEnvelope ctx NOMINATE ?nom s"
  have e: "st_pledges (env_statement ?e) = ?nom" "st_nodeID (env_statement ?e) = mNodeID (ctx_local ctx)"
    "st_slotIndex (env_statement ?e) = mSlotIndex s"
    by (simp_all add: createEnvelope_def Let_def)
  have nom: "nom_votes ?nom = mVotes s" "nom_accepted ?nom = mAccepted s"
    by (simp_all add: createNomination_def)
  have sane: "isSane ?nom" using s new by (simp add: isSane_iff nom nidle_def nom_inv_def fresh_def)
  have "isNewerNomination old ?nom" if own: "ownNomination ctx s = Some old" for old
  proof -
    from own obtain e' where "(mNodeID (ctx_local ctx), e') \<in> set (mLatestNominations s)" "old = st_pledges (env_statement e')"
      unfolding ownNomination_def by (auto dest: map_of_SomeD)
    then have "isSane old" using s by (auto simp: nidle_def nom_inv_def)
    with own new s sane show ?thesis by (simp add: isNewerNomination_iff nom nidle_def nom_inv_def fresh_def)
  qed
  then have newer: "isNewerNomination_for (mNodeID (ctx_local ctx)) ?nom s"
    by (auto simp: isNewerNomination_for_def ownNomination_def split: option.split)
  have "safe allowed (\<lambda>(r, s'). npost ctx R U s s' \<and>
      (r = INVALID \<longrightarrow> s' = s \<and> \<not> (isNewerNomination_for (st_nodeID (env_statement ?e)) (st_pledges (env_statement ?e)) s
         \<and> isSane (st_pledges (env_statement ?e)))))
    (Slot_processNominationEnvelope emit ctx ?e s)"
    by (rule Slot_process_safe [OF s fuel e(3)]) (use s in \<open>auto simp: e nom nidle_def within_def nom_inv_def\<close>)
  then have pr: "safe allowed (\<lambda>(r, s'). npost ctx R U s s' \<and> r = VALID) (Slot_processNominationEnvelope emit ctx ?e s)"
    by (rule safe_post) (use newer sane in \<open>auto simp: e intro: envelope_state.exhaust\<close>)
  have last: "npost ctx R U s (s1\<lparr>mNomLastEnvelope := Some ?e\<rparr>)"
    "npost ctx R U s (log_event (EmitEnvelope f) (s1\<lparr>mNomLastEnvelope := Some ?e\<rparr>))"
    if n1: "npost ctx R U s s1" for s1 f
    by (rule npost_trans [OF s n1], rule npost_core; use npost_nidle [OF n1 s] in \<open>simp add: log_event_def
        same_core_def grows_def nidle_def nom_inv_def within_def ownNomination_def\<close>)+
  show ?thesis
    unfolding emitNomination_def Let_def by (rule safe_seq [OF pr]) (auto intro: last)
qed

end

lemma emitNominationN_contract: "nom_emitter ctx R U (emitNominationN n ctx) n"
proof (induction n)
  case 0
  have False if "nidle ctx U s" "2 * card U < nom_size s" for s
    using that size_bound [of ctx s U] by (auto simp: nidle_def closed_values_def)
  then show ?case by unfold_locales auto
next
  case (Suc n)
  show ?case by unfold_locales (simp add: nom_emitter.emitNomination_safe [OF Suc])
qed

interpretation nm: nom_emitter ctx R U "emitNominationN n ctx" n for ctx R U n
  by (rule emitNominationN_contract)

section \<open>Nominating\<close>

lemma roundLeadersLoop_frame:
  assumes "roundLeadersLoop n ctx q m s = Inr s'" "sset (mRoundLeaders s)"
  shows "\<exists>r ls. s' = s\<lparr>mRoundNumber := r, mRoundLeaders := ls\<rparr> \<and> sset ls"
  using assms
proof (induction n arbitrary: s)
  case (Suc n)
  show ?case
  proof (cases "length (mRoundLeaders s) < m")
    case False
    with Suc.prems show ?thesis by (intro exI [of _ "mRoundNumber s"] exI [of _ "mRoundLeaders s"]) simp
  next
    case True
    then obtain new where new: "newRoundLeaders ctx q s = Inr new"
      using Suc.prems(1) by (cases "newRoundLeaders ctx q s") auto
    let ?ls = "sset_union new (mRoundLeaders s)"
    show ?thesis
    proof (cases "length (mRoundLeaders s) = length ?ls")
      case False
      then show ?thesis
        using True new Suc.prems by (intro exI [of _ "mRoundNumber s"] exI [of _ ?ls]) (auto simp: Let_def)
    next
      case eq: True
      from Suc.IH [of "s\<lparr>mRoundLeaders := ?ls, mRoundNumber := mRoundNumber s + 1\<rparr>"] show ?thesis
        using True new Suc.prems eq by (auto simp: Let_def)
    qed
  qed
qed simp

lemma voteFromLeader_safe:
  assumes "closed_values ctx (mSlotIndex s) U" "nom_inv ctx s" "within U s" "mPreviousValue s \<noteq> []"
  shows "safe (\<lambda>_. False) (modifies ctx U (u, s)) (voteFromLeader ctx leader (u, s))"
proof (cases "map_of (mLatestNominations s) leader")
  case None
  then show ?thesis by (simp add: voteFromLeader_def)
next
  case (Some e)
  then have "(leader, e) \<in> set (mLatestNominations s)" by (rule map_of_SomeD)
  then have U: "set (nom_votes (st_pledges (env_statement e))) \<subseteq> U" "set (nom_accepted (st_pledges (env_statement e))) \<subseteq> U"
    using assms(3) by (auto simp: within_def)
  have "safe (\<lambda>_. False) (modifies ctx U (u, s)) (seq (getNewValueFromNomination ctx (st_pledges (env_statement e)) s) (\<lambda>lnmV.
          case lnmV of
            None \<Rightarrow> ok u s
          | Some v \<Rightarrow> ok True (log_event (NominatingValue (mSlotIndex s) v)
                               (s\<lparr>mVotes := sset_insert v (mVotes s)\<rparr>))))"
    by (rule safe_seq [OF getNewValue_safe [OF U assms(1,4)]])
      (auto intro: newVote_modifies [OF _ _ assms(2)] split: option.split)
  with Some show ?thesis by (simp add: voteFromLeader_def)
qed

lemma voteFromLeaders_safe:
  assumes "nidle ctx U s" "mPreviousValue s \<noteq> []"
  shows "safe (\<lambda>_. False) (modifies ctx U (u, s)) (foldSeq (voteFromLeader ctx) leaders (u, s))"
proof (rule foldSeq_safe)
  have inv: "nom_inv ctx s" using assms(1) by (simp add: nidle_def)
  fix l us assume m: "modifies ctx U (u, s) us"
  obtain u' s' where us: "us = (u', s')" by fastforce
  with m have n: "nstep ctx U s s'" by (simp add: modifies_def)
  then have s': "nom_inv ctx s'" "within U s'" "mPreviousValue s' \<noteq> []" "closed_values ctx (mSlotIndex s') U"
    using assms nstep_index [OF n] by (auto simp: nidle_def nstep_def nchange_def)
  show "safe (\<lambda>_. False) (modifies ctx U (u, s)) (voteFromLeader ctx l us)"
    unfolding us using voteFromLeader_safe [OF s'(4,1,2,3)]
    by (rule safe_post) (rule modifies_trans [OF m [unfolded us]], simp_all add: inv)
qed simp

lemma roundLeadersLoop_safe:
  assumes "weak_qset q" "mPreviousValue s \<noteq> []"
  shows "safe (\<lambda>e. e = OutOfFuel) (\<lambda>_. True) (roundLeadersLoop n ctx q m s)"
  using assms(2)
proof (induction n arbitrary: s)
  case (Suc n)
  obtain new where "newRoundLeaders ctx q s = Inr new" using newRoundLeaders_total [OF assms(1) Suc.prems] by blast
  with Suc show ?case by (simp add: Let_def)
qed simp

text \<open>The parts of \<^verbatim>\<open>nominate\<close>: the state in which a round starts, the vote for the own value, the
  emission.\<close>

definition startRound :: "bool \<Rightarrow> scp_value \<Rightarrow> slot \<Rightarrow> slot" where
  "startRound timedout previousValue s =
     (let s1 = (if timedout then s\<lparr>mNomTimerExpCount := mNomTimerExpCount s + 1\<rparr> else s) in
      s1\<lparr>mNominationStarted := True, mPreviousValue := previousValue, mRoundNumber := mRoundNumber s1 + 1\<rparr>)"

definition ownVote :: "scp_ctx \<Rightarrow> scp_value \<Rightarrow> slot \<Rightarrow> bool \<times> slot" where
  "ownVote ctx val s =
     (if mNodeID (ctx_local ctx) \<in> set (mRoundLeaders s) \<and> val \<notin> set (mVotes s)
      then (True, log_event (NominatingValue (mSlotIndex s) val) (s\<lparr>mVotes := sset_insert val (mVotes s)\<rparr>))
      else (False, s))"

definition finishRound :: "nat \<Rightarrow> scp_ctx \<Rightarrow> nat \<Rightarrow> bool \<times> slot \<Rightarrow> (bool \<times> slot) scp_result" where
  "finishRound fuel ctx timeout us =
     (let s6 = log_event (SetupTimer NOMINATION_TIMER timeout) (snd us) in
      if fst us then seq (emitNominationN fuel ctx s6) (\<lambda>s7. ok True s7) else ok False s6)"

lemma nominate_unfold:
  "nominate fuel ctx val previousValue timedout s =
     (if timedout \<and> \<not> mNominationStarted s then ok False (s\<lparr>mNomTimerExpCount := mNomTimerExpCount s + 1\<rparr>)
      else seq (updateRoundLeaders fuel ctx (startRound timedout previousValue s)) (\<lambda>s3.
           seq (foldSeq (voteFromLeader ctx) (mRoundLeaders (snd (ownVote ctx val s3))) (ownVote ctx val s3))
             (finishRound fuel ctx (computeTimeout (ctx_driver ctx) (mRoundNumber s3)))))"
  by (cases timedout) (auto simp: nominate_def startRound_def ownVote_def finishRound_def Let_def split_beta
      intro!: seq_cong)

lemma finishRound_safe:
  assumes s: "nidle ctx U s" and m: "modifies ctx U (False, s) us" and fuel: "2 * card U < fuel + nom_size s"
  shows "safe allowed (\<lambda>(b, s'). npost ctx R U s s') (finishRound fuel ctx t us)"
proof -
  let ?s6 = "log_event (SetupTimer NOMINATION_TIMER t) (snd us)"
  have st6: "nstep ctx U s ?s6" using m nstep_trans [OF _ nstep_log] by (simp add: modifies_def)
  note n6 = npost_nstep [OF s st6]
  note i6 = npost_nidle [OF n6 s]
  have "safe allowed (npost ctx R U ?s6) (emitNominationN fuel ctx ?s6)" if "fst us"
  proof (rule nm.emit_ok [OF i6])
    have g: "nom_size s < nom_size ?s6" using m that by (simp add: modifies_def log_event_def)
    then show "2 * card U < fuel + nom_size ?s6" using fuel by linarith
    show "fresh ctx ?s6"
      by (rule fresh_grown [OF _ _ g]) (use s st6 in \<open>simp_all add: nidle_def nstep_def nchange_def ownNomination_def\<close>)
  qed
  then show ?thesis
    using n6 npost_trans [OF s n6] by (auto simp: finishRound_def Let_def elim!: safe_seq)
qed

lemma votes_safe:
  assumes s: "nidle ctx U s" and prev: "mPreviousValue s \<noteq> []" and val: "val \<in> U" and fuel: "2 * card U < fuel + nom_size s"
  shows "safe allowed (\<lambda>(b, s'). npost ctx R U s s')
    (seq (foldSeq (voteFromLeader ctx) (mRoundLeaders (snd (ownVote ctx val s))) (ownVote ctx val s)) (finishRound fuel ctx t))"
proof -
  obtain u s4 where own: "ownVote ctx val s = (u, s4)" by fastforce
  have m4: "modifies ctx U (False, s) (u, s4)"
    using newVote_modifies [OF val, of s ctx False] s by (simp add: nidle_def own [symmetric] ownVote_def)
  then have st: "nstep ctx U s s4" by (simp add: modifies_def)
  have n4: "nidle ctx U s4" using npost_nidle [OF npost_nstep [OF s st] s] .
  have "mPreviousValue s4 \<noteq> []" using prev st by (simp add: nstep_def nchange_def)
  then have "safe (\<lambda>_. False) (modifies ctx U (u, s4)) (foldSeq (voteFromLeader ctx) (mRoundLeaders s4) (u, s4))"
    by (rule voteFromLeaders_safe [OF n4])
  then have "safe allowed (modifies ctx U (False, s)) (foldSeq (voteFromLeader ctx) (mRoundLeaders s4) (u, s4))"
    by (rule safe_mono) (use modifies_trans [OF m4] s in \<open>auto simp: nidle_def\<close>)
  then show ?thesis
    unfolding own snd_conv by (rule safe_seq) (rule finishRound_safe [OF s _ fuel])
qed

lemma nominate_safe:
  assumes s: "nidle ctx U s" and prev: "previousValue \<noteq> []" and val: "val \<in> U" and fuel: "2 * card U < fuel + nom_size s"
    and q: "isQuorumSetSane (mQSet (ctx_local ctx)) ex"
  shows "safe (\<lambda>e. allowed e \<or> e = OutOfFuel \<and> updateRoundLeaders fuel ctx (startRound timedout previousValue s) = Inl OutOfFuel)
    (\<lambda>(b, s'). npost ctx R U s s') (nominate fuel ctx val previousValue timedout s)"
proof (cases "timedout \<and> \<not> mNominationStarted s")
  case True
  have "npost ctx R U s (s\<lparr>mNomTimerExpCount := mNomTimerExpCount s + 1\<rparr>)"
    by (rule npost_core)
      (use s in \<open>simp_all add: same_core_def grows_def nidle_def nom_inv_def within_def ownNomination_def\<close>)
  with True show ?thesis by (simp add: nominate_unfold)
next
  case False
  let ?s2 = "startRound timedout previousValue s"
  let ?rest = "\<lambda>s3. seq (foldSeq (voteFromLeader ctx) (mRoundLeaders (snd (ownVote ctx val s3))) (ownVote ctx val s3))
             (finishRound fuel ctx (computeTimeout (ctx_driver ctx) (mRoundNumber s3)))"
  have rest: "safe allowed (\<lambda>(b, s'). npost ctx R U s s') (?rest s3)"
    if u: "updateRoundLeaders fuel ctx ?s2 = Inr s3" for s3
  proof -
    have "sset (mRoundLeaders ?s2)" using s by (simp add: startRound_def nidle_def nom_inv_def Let_def)
    with u obtain r ls where s3: "s3 = ?s2\<lparr>mRoundNumber := r, mRoundLeaders := ls\<rparr>" "sset ls"
      unfolding updateRoundLeaders_def Let_def using roundLeadersLoop_frame by blast
    have n3: "npost ctx R U s s3"
      unfolding s3(1) startRound_def Let_def by (rule npost_core)
        (use s s3(2) prev in \<open>simp_all add: same_core_def grows_def nidle_def nom_inv_def within_def ownNomination_def\<close>)
    have "safe allowed (\<lambda>(b, s'). npost ctx R U s3 s') (?rest s3)"
      by (rule votes_safe [OF npost_nidle [OF n3 s] _ val])
        (use prev fuel in \<open>simp_all add: s3(1) startRound_def Let_def\<close>)
    then show ?thesis by (rule safe_post) (auto intro: npost_trans [OF s n3])
  qed
  have "mPreviousValue ?s2 \<noteq> []" using prev by (simp add: startRound_def Let_def)
  then have "safe (\<lambda>e. e = OutOfFuel) (\<lambda>_. True) (updateRoundLeaders fuel ctx ?s2)"
    unfolding updateRoundLeaders_def Let_def by (rule roundLeadersLoop_safe [OF normalizeQSet_weak [OF q]])
  with rest False show ?thesis
    by (cases "updateRoundLeaders fuel ctx ?s2") (auto simp: nominate_unfold elim!: safe_mono)
qed

end

