(* ===== verification/Slots.thy ===== *)
theory Slots
  imports Nomination
begin

text \<open>
  The public methods of \<^verbatim>\<open>scp/Slot.cpp\<close>: dispatch of envelopes to the two protocols, restoring
  and reporting state.  The JSON output is left out.
\<close>

section \<open>The two arms of an envelope\<close>

definition nominationEnvelope :: "scp_nomination \<Rightarrow> scp_envelope \<Rightarrow> nomination_envelope" where
  "nominationEnvelope nom env = map_envelope (\<lambda>_. nom) env"

definition ballotEnvelope :: "ballot_pledges \<Rightarrow> scp_envelope \<Rightarrow> ballot_envelope" where
  "ballotEnvelope pl env = map_envelope (\<lambda>_. pl) env"

section \<open>Processing\<close>

definition Slot_processEnvelope ::
  "nat \<Rightarrow> scp_ctx \<Rightarrow> scp_envelope \<Rightarrow> bool \<Rightarrow> slot \<Rightarrow> (envelope_state \<times> slot) scp_result" where
  "Slot_processEnvelope fuel ctx envelope self s =
     (case st_pledges (env_statement envelope) of
        NOMINATE nom \<Rightarrow>
          Slot_processNominationEnvelope (emitNominationN fuel ctx) ctx (nominationEnvelope nom envelope) s
      | BALLOT pl \<Rightarrow>
          Slot_processBallotEnvelope (emitCurrentStateStatement ctx) ctx (ballotEnvelope pl envelope) self s)"

definition Slot_abandonBallot :: "scp_ctx \<Rightarrow> slot \<Rightarrow> (bool \<times> slot) scp_result" where
  "Slot_abandonBallot ctx s = abandonBallot (emitCurrentStateStatement ctx) ctx 0 s"

definition Slot_bumpState :: "scp_ctx \<Rightarrow> scp_value \<Rightarrow> bool \<Rightarrow> slot \<Rightarrow> (bool \<times> slot) scp_result" where
  "Slot_bumpState ctx val force s = bumpState (emitCurrentStateStatement ctx) ctx val force s"

definition Slot_ballotProtocolTimerExpired :: "scp_ctx \<Rightarrow> slot \<Rightarrow> slot scp_result" where
  "Slot_ballotProtocolTimerExpired ctx s = ballotProtocolTimerExpired (emitCurrentStateStatement ctx) ctx s"

definition Slot_nominate ::
  "nat \<Rightarrow> scp_ctx \<Rightarrow> scp_value \<Rightarrow> scp_value \<Rightarrow> bool \<Rightarrow> slot \<Rightarrow> (bool \<times> slot) scp_result" where
  "Slot_nominate fuel ctx val previousValue timedout s = nominate fuel ctx val previousValue timedout s"

definition getNominationLeaders :: "slot \<Rightarrow> node_id list" where
  "getNominationLeaders s = mRoundLeaders s"

section \<open>Restoring state\<close>

definition Slot_setStateFromEnvelope :: "scp_ctx \<Rightarrow> scp_envelope \<Rightarrow> slot \<Rightarrow> slot scp_result" where
  "Slot_setStateFromEnvelope ctx env s =
     (let st = env_statement env in
      if st_nodeID st = mNodeID (ctx_local ctx) \<and> st_slotIndex st = mSlotIndex s
      then let prev = (getLatestMessage (st_nodeID st) s \<noteq> None) in
           seq (case st_pledges st of
                  NOMINATE nom \<Rightarrow> setStateFromNominationEnvelope (nominationEnvelope nom env) s
                | BALLOT pl \<Rightarrow> setStateFromBallotEnvelope (ballotEnvelope pl env) s)
             (\<lambda>s1. Inr (if \<not> prev then maybeSetGotVBlocking ctx s1 else s1))
      else Inr s)"

section \<open>Reporting state\<close>

text \<open>A loop that calls \<open>f\<close> on the elements of a list until it returns false.\<close>

fun callWhile :: "('a \<Rightarrow> 'r \<Rightarrow> bool \<times> 'r) \<Rightarrow> 'a list \<Rightarrow> 'r \<Rightarrow> bool \<times> 'r" where
  "callWhile f [] r = (True, r)"
| "callWhile f (x # xs) r = (let (b, r') = f x r in if \<not> b then (False, r') else callWhile f xs r')"

definition Slot_processCurrentState ::
  "scp_ctx \<Rightarrow> (scp_envelope \<Rightarrow> 'r \<Rightarrow> bool \<times> 'r) \<Rightarrow> bool \<Rightarrow> slot \<Rightarrow> 'r \<Rightarrow> 'r" where
  "Slot_processCurrentState ctx f forceSelf s r =
     (let (b, r1) = callWhile f (map (map_envelope NOMINATE) (nominationCurrentState ctx forceSelf s)) r
      in if b then snd (callWhile f (map (map_envelope BALLOT) (ballotCurrentState ctx forceSelf s)) r1)
         else r1)"

definition getEntireCurrentState :: "scp_ctx \<Rightarrow> slot \<Rightarrow> scp_envelope list" where
  "getEntireCurrentState ctx s = Slot_processCurrentState ctx (\<lambda>e res. (True, res @ [e])) True s []"

definition Slot_getLatestMessagesSend :: "slot \<Rightarrow> scp_envelope list" where
  "Slot_getLatestMessagesSend s =
     (if mFullyValidated s
      then (case mNomLastEnvelope s of Some e \<Rightarrow> [map_envelope NOMINATE e] | None \<Rightarrow> []) @
           (case mLastEnvelopeEmit s of Some e \<Rightarrow> [map_envelope BALLOT e] | None \<Rightarrow> [])
      else [])"

definition Slot_isNewerNominationOrBallotSt :: "scp_statement \<Rightarrow> scp_statement \<Rightarrow> bool" where
  "Slot_isNewerNominationOrBallotSt oldSt newSt =
     (case (st_pledges oldSt, st_pledges newSt) of
        (NOMINATE old, NOMINATE new) \<Rightarrow> isNewerNomination old new
      | (BALLOT old, BALLOT new) \<Rightarrow>
          isNewerStatement (map_statement (\<lambda>_. old) oldSt) (map_statement (\<lambda>_. new) newSt)
      | _ \<Rightarrow> False)"

definition Slot_getExternalizingState :: "scp_ctx \<Rightarrow> slot \<Rightarrow> scp_envelope list scp_result" where
  "Slot_getExternalizingState ctx s =
     seq (getExternalizingState ctx s) (\<lambda>es. Inr (map (map_envelope BALLOT) es))"

definition Slot_getStatementValues :: "scp_statement \<Rightarrow> scp_value list" where
  "Slot_getStatementValues st =
     (case st_pledges st of
        NOMINATE nom \<Rightarrow> NominationProtocol_getStatementValues nom
      | BALLOT pl \<Rightarrow> getStatementValues (map_statement (\<lambda>_. pl) st))"

definition Slot_getState :: "scp_ctx \<Rightarrow> node_id \<Rightarrow> bool \<Rightarrow> slot \<Rightarrow> quorum_info_state" where
  "Slot_getState ctx node selfAlreadyMovedOn s =
     (let b = BallotProtocol_getState ctx node selfAlreadyMovedOn s in
      if b \<noteq> NO_INFO then b else NominationProtocol_getState ctx node selfAlreadyMovedOn s)"

end
