(* ===== verification/Scp.thy ===== *)
theory Scp
  imports Slots
begin

text \<open>
  \<^verbatim>\<open>scp/SCP.cpp\<close>: the map of slots and the entry points of the library, and the default methods of
  \<^verbatim>\<open>scp/SCPDriver.cpp\<close>.  String and JSON output is left out, except for the classification of the
  nodes in the quorum report.
\<close>

section \<open>State\<close>

record scp_state =
  mLocalNode :: local_node
  mKnownSlots :: "(uint64, slot) smap"

abbreviation scp_context :: "driver \<Rightarrow> scp_state \<Rightarrow> scp_ctx" where
  "scp_context d st \<equiv> \<lparr>ctx_driver = d, ctx_local = mLocalNode st\<rparr>"

text \<open>\<open>hashOf\<close> is the hash of the XDR encoding of a quorum set.\<close>

definition new_SCP ::
  "(scp_quorum_set \<Rightarrow> hash) \<Rightarrow> node_id \<Rightarrow> bool \<Rightarrow> scp_quorum_set \<Rightarrow> scp_state" where
  "new_SCP hashOf nodeID isValidator qSetLocal =
     \<lparr>mLocalNode = new_LocalNode hashOf nodeID isValidator qSetLocal, mKnownSlots = []\<rparr>"

definition getSlot :: "uint64 \<Rightarrow> bool \<Rightarrow> scp_state \<Rightarrow> slot option \<times> scp_state" where
  "getSlot slotIndex create st =
     (case map_of (mKnownSlots st) slotIndex of
        None \<Rightarrow>
          if create
          then let s = new_Slot slotIndex (mLocalNode st)
               in (Some s, st\<lparr>mKnownSlots := smap_upd slotIndex s (mKnownSlots st)\<rparr>)
          else (None, st)
      | Some s \<Rightarrow> (Some s, st))"

text \<open>A slot is changed through a shared pointer, i.e. in the map.\<close>

definition withSlot ::
  "uint64 \<Rightarrow> (slot \<Rightarrow> ('r \<times> slot) scp_result) \<Rightarrow> scp_state \<Rightarrow> ('r \<times> scp_state) scp_result" where
  "withSlot slotIndex f st =
     (let (slot, st1) = getSlot slotIndex True st in
      seq (deref slot) (\<lambda>s.
      seq (f s) (\<lambda>(r, s').
        Inr (r, st1\<lparr>mKnownSlots := smap_upd slotIndex s' (mKnownSlots st1)\<rparr>))))"

section \<open>Entry points\<close>

definition SCP_receiveEnvelope ::
  "nat \<Rightarrow> driver \<Rightarrow> scp_envelope \<Rightarrow> scp_state \<Rightarrow> (envelope_state \<times> scp_state) scp_result" where
  "SCP_receiveEnvelope fuel d envelope st =
     withSlot (st_slotIndex (env_statement envelope))
       (Slot_processEnvelope fuel (scp_context d st) envelope False) st"

definition SCP_nominate ::
  "nat \<Rightarrow> driver \<Rightarrow> uint64 \<Rightarrow> scp_value \<Rightarrow> scp_value \<Rightarrow> scp_state \<Rightarrow> (bool \<times> scp_state) scp_result" where
  "SCP_nominate fuel d slotIndex val previousValue st =
     seq (dbgAssert (mIsValidator (mLocalNode st)) AssertIsValidator) (\<lambda>_.
       withSlot slotIndex (Slot_nominate fuel (scp_context d st) val previousValue False) st)"

definition SCP_stopNomination :: "uint64 \<Rightarrow> scp_state \<Rightarrow> scp_state" where
  "SCP_stopNomination slotIndex st =
     (case getSlot slotIndex False st of
        (Some s, st1) \<Rightarrow> st1\<lparr>mKnownSlots := smap_upd slotIndex (stopNomination s) (mKnownSlots st1)\<rparr>
      | (None, st1) \<Rightarrow> st1)"

definition SCP_setStateFromEnvelope ::
  "driver \<Rightarrow> uint64 \<Rightarrow> scp_envelope \<Rightarrow> scp_state \<Rightarrow> scp_state scp_result" where
  "SCP_setStateFromEnvelope d slotIndex e st =
     seq (withSlot slotIndex
            (\<lambda>s. seq (Slot_setStateFromEnvelope (scp_context d st) e s) (\<lambda>s'. Inr ((), s'))) st)
       (\<lambda>(_, st'). Inr st')"

definition SCP_updateLocalQuorumSet ::
  "(scp_quorum_set \<Rightarrow> hash) \<Rightarrow> scp_quorum_set \<Rightarrow> scp_state \<Rightarrow> scp_state" where
  "SCP_updateLocalQuorumSet hashOf qSet st = st\<lparr>mLocalNode := updateQuorumSet hashOf qSet (mLocalNode st)\<rparr>"

text \<open>Erasing from the front while the key is below the bound.\<close>

definition SCP_purgeSlots :: "uint64 \<Rightarrow> scp_state \<Rightarrow> scp_state" where
  "SCP_purgeSlots maxSlotIndex st =
     st\<lparr>mKnownSlots := dropWhile (\<lambda>(i, s). i < maxSlotIndex) (mKnownSlots st)\<rparr>"

section \<open>Queries\<close>

definition SCP_isSlotFullyValidated :: "uint64 \<Rightarrow> scp_state \<Rightarrow> bool" where
  "SCP_isSlotFullyValidated slotIndex st =
     (case fst (getSlot slotIndex False st) of Some s \<Rightarrow> mFullyValidated s | None \<Rightarrow> False)"

definition SCP_gotVBlocking :: "uint64 \<Rightarrow> scp_state \<Rightarrow> bool" where
  "SCP_gotVBlocking slotIndex st =
     (case fst (getSlot slotIndex False st) of Some s \<Rightarrow> mGotVBlocking s | None \<Rightarrow> False)"

definition SCP_getKnownSlotsCount :: "scp_state \<Rightarrow> nat" where
  "SCP_getKnownSlotsCount st = length (mKnownSlots st)"

definition SCP_getCumulativeStatemtCount :: "scp_state \<Rightarrow> nat" where
  "SCP_getCumulativeStatemtCount st =
     fold (\<lambda>(i, s) c. c + length (mStatementsHistory s)) (mKnownSlots st) 0"

definition SCP_empty :: "scp_state \<Rightarrow> bool" where
  "SCP_empty st = (mKnownSlots st = [])"

definition SCP_getLatestMessagesSend :: "uint64 \<Rightarrow> scp_state \<Rightarrow> scp_envelope list" where
  "SCP_getLatestMessagesSend slotIndex st =
     (case fst (getSlot slotIndex False st) of Some s \<Rightarrow> Slot_getLatestMessagesSend s | None \<Rightarrow> [])"

definition SCP_processCurrentState ::
  "driver \<Rightarrow> uint64 \<Rightarrow> (scp_envelope \<Rightarrow> 'r \<Rightarrow> bool \<times> 'r) \<Rightarrow> bool \<Rightarrow> scp_state \<Rightarrow> 'r \<Rightarrow> 'r" where
  "SCP_processCurrentState d slotIndex f forceSelf st r =
     (case fst (getSlot slotIndex False st) of
        Some s \<Rightarrow> Slot_processCurrentState (scp_context d st) f forceSelf s r
      | None \<Rightarrow> r)"

text \<open>\<^verbatim>\<open>lower_bound\<close> is the first key not below the bound, \<^verbatim>\<open>upper_bound\<close> the first key above it.\<close>

definition SCP_processSlotsAscendingFrom ::
  "uint64 \<Rightarrow> (uint64 \<Rightarrow> 'r \<Rightarrow> bool \<times> 'r) \<Rightarrow> scp_state \<Rightarrow> 'r \<Rightarrow> 'r" where
  "SCP_processSlotsAscendingFrom startingSlot f st r =
     snd (callWhile f (map fst (dropWhile (\<lambda>(i, s). i < startingSlot) (mKnownSlots st))) r)"

definition SCP_processSlotsDescendingFrom ::
  "uint64 \<Rightarrow> (uint64 \<Rightarrow> 'r \<Rightarrow> bool \<times> 'r) \<Rightarrow> scp_state \<Rightarrow> 'r \<Rightarrow> 'r" where
  "SCP_processSlotsDescendingFrom startingSlot f st r =
     snd (callWhile f (rev (map fst (takeWhile (\<lambda>(i, s). i \<le> startingSlot) (mKnownSlots st)))) r)"

definition SCP_getLatestMessage :: "node_id \<Rightarrow> scp_state \<Rightarrow> scp_envelope option" where
  "SCP_getLatestMessage n st =
     fold (\<lambda>(i, s) res. case res of Some e \<Rightarrow> Some e | None \<Rightarrow> getLatestMessage n s)
       (rev (mKnownSlots st)) None"

definition SCP_isNewerNominationOrBallotSt :: "scp_statement \<Rightarrow> scp_statement \<Rightarrow> scp_state \<Rightarrow> bool" where
  "SCP_isNewerNominationOrBallotSt oldSt newSt st =
     (if st_slotIndex oldSt \<noteq> st_slotIndex newSt \<or> st_nodeID oldSt \<noteq> st_nodeID newSt then False
      else case fst (getSlot (st_slotIndex oldSt) False st) of
             Some s \<Rightarrow> Slot_isNewerNominationOrBallotSt oldSt newSt
           | None \<Rightarrow> False)"

definition SCP_getExternalizingState :: "driver \<Rightarrow> uint64 \<Rightarrow> scp_state \<Rightarrow> scp_envelope list scp_result" where
  "SCP_getExternalizingState d slotIndex st =
     (case fst (getSlot slotIndex False st) of
        Some s \<Rightarrow> Slot_getExternalizingState (scp_context d st) s
      | None \<Rightarrow> Inr [])"

definition NUM_SLOTS_TO_CHECK_FOR_REPORTING :: nat where
  "NUM_SLOTS_TO_CHECK_FOR_REPORTING = 2"

fun getStateLoop :: "nat list \<Rightarrow> driver \<Rightarrow> node_id \<Rightarrow> uint64 \<Rightarrow> scp_state \<Rightarrow> quorum_info_state" where
  "getStateLoop [] d node slotIndex st = MISSING"
| "getStateLoop (k # ks) d node slotIndex st =
     (if unat slotIndex \<le> k then MISSING
      else case fst (getSlot (slotIndex - of_nat k) False st) of
             Some s \<Rightarrow>
               (let q = Slot_getState (scp_context d st) node (k > 0) s in
                if q \<noteq> NO_INFO then q else getStateLoop ks d node slotIndex st)
           | None \<Rightarrow> getStateLoop ks d node slotIndex st)"

definition SCP_getState :: "driver \<Rightarrow> node_id \<Rightarrow> uint64 \<Rightarrow> scp_state \<Rightarrow> quorum_info_state" where
  "SCP_getState d node slotIndex st = getStateLoop [0..<NUM_SLOTS_TO_CHECK_FOR_REPORTING] d node slotIndex st"

text \<open>The nodes of the local quorum set by state, as \<^verbatim>\<open>getJsonQuorumInfo\<close> lists (or, in the summary,
  counts) them.\<close>

record quorum_info =
  qi_disagree :: "node_id list"
  qi_missing :: "node_id list"
  qi_delayed :: "node_id list"
  qi_agree :: "node_id list"

definition classifyNode ::
  "driver \<Rightarrow> uint64 \<Rightarrow> scp_state \<Rightarrow> node_id \<Rightarrow> quorum_info \<Rightarrow> bool \<times> quorum_info" where
  "classifyNode d index st n q =
     (case SCP_getState d n index st of
        DISAGREE \<Rightarrow> (True, q\<lparr>qi_disagree := qi_disagree q @ [n]\<rparr>)
      | DELAYED \<Rightarrow> (True, q\<lparr>qi_delayed := qi_delayed q @ [n]\<rparr>)
      | MISSING \<Rightarrow> (True, q\<lparr>qi_missing := qi_missing q @ [n]\<rparr>)
      | AGREE \<Rightarrow> (True, q\<lparr>qi_agree := qi_agree q @ [n]\<rparr>)
      | NO_INFO \<Rightarrow> (False, q))"

definition SCP_quorumInfo :: "driver \<Rightarrow> uint64 \<Rightarrow> scp_state \<Rightarrow> quorum_info option" where
  "SCP_quorumInfo d index0 st =
     (if mKnownSlots st = [] then None
      else let index = (if index0 = 0 then fst (last (mKnownSlots st)) else index0) in
        case fst (getSlot index False st) of
          None \<Rightarrow> None
        | Some s \<Rightarrow>
            Some (snd (forAllNodes (classifyNode d index st) (mQSet (mLocalNode st))
              \<lparr>qi_disagree = [], qi_missing = [], qi_delayed = [], qi_agree = []\<rparr>)))"

section \<open>Default methods of the driver\<close>

text \<open>\<open>getHashOf\<close> is the hash of a list of byte strings; the XDR encoders are the functions
  \<open>xdr_u64\<close>, \<open>xdr_value\<close>, \<open>xdr_u32\<close> and \<open>xdr_node\<close>.\<close>

record hash_functions =
  getHashOf :: "opaque list \<Rightarrow> opaque"
  xdr_u64 :: "uint64 \<Rightarrow> opaque"
  xdr_u32 :: "uint32 \<Rightarrow> opaque"
  xdr_value :: "scp_value \<Rightarrow> opaque"
  xdr_node :: "node_id \<Rightarrow> opaque"

definition hash_N :: uint32 where "hash_N = 1"
definition hash_P :: uint32 where "hash_P = 2"
definition hash_K :: uint32 where "hash_K = 3"

unbundle bit_operations_syntax

definition hashHelper :: "hash_functions \<Rightarrow> uint64 \<Rightarrow> scp_value \<Rightarrow> opaque list \<Rightarrow> uint64" where
  "hashHelper h slotIndex prev extra =
     (let vals = [xdr_u64 h slotIndex, xdr_value h prev] @ extra; t = getHashOf h vals
      in fold (\<lambda>i res. push_bit 8 res OR ucast (t ! i)) [0..<8] 0)"

definition SCPDriver_computeHashNode ::
  "hash_functions \<Rightarrow> uint64 \<Rightarrow> scp_value \<Rightarrow> bool \<Rightarrow> uint32 \<Rightarrow> node_id \<Rightarrow> uint64" where
  "SCPDriver_computeHashNode h slotIndex prev isPriority roundNumber nodeID =
     hashHelper h slotIndex prev
       [xdr_u32 h (if isPriority then hash_P else hash_N), xdr_u32 h roundNumber, xdr_node h nodeID]"

definition SCPDriver_computeValueHash ::
  "hash_functions \<Rightarrow> uint64 \<Rightarrow> scp_value \<Rightarrow> uint32 \<Rightarrow> scp_value \<Rightarrow> uint64" where
  "SCPDriver_computeValueHash h slotIndex prev roundNumber val =
     hashHelper h slotIndex prev [xdr_u32 h hash_K, xdr_u32 h roundNumber, xdr_value h val]"

definition MAX_TIMEOUT_SECONDS :: uint32 where
  "MAX_TIMEOUT_SECONDS = 30 * 60"

text \<open>In milliseconds.\<close>

definition SCPDriver_computeTimeout :: "uint32 \<Rightarrow> nat" where
  "SCPDriver_computeTimeout roundNumber =
     (let timeoutInSeconds =
            (if roundNumber > MAX_TIMEOUT_SECONDS then MAX_TIMEOUT_SECONDS else roundNumber)
      in 1000 * unat timeoutInSeconds)"

end
