(* ===== verification/Slot_Correct.thy ===== *)
theory Slot_Correct
  imports Nomination_Correct Scp
begin

text \<open>
  The slot as a whole: whatever sequence of calls a slot sees, its ballot state moves by steps of the
  abstract machine only, so that the invariant of the ballot protocol holds between calls, progress is
  never undone and the driver learns at most one externalized value.  At the level of \<^verbatim>\<open>SCP\<close>, a
  message changes the slot it is for and no other.
\<close>

section \<open>Nomination calls and the ballot state\<close>

text \<open>Changes that do not touch the ballot state.\<close>

definition bcore :: "slot \<Rightarrow> slot \<Rightarrow> bool" where
  "bcore s s' \<longleftrightarrow>
     same_core s s' \<and> mCurrentMessageLevel s' = mCurrentMessageLevel s \<and> ext_events s' = ext_events s"

lemma bcore_refl [simp]: "bcore s s"
  by (simp add: bcore_def)

lemma bcore_trans: "bcore s s1 \<Longrightarrow> bcore s1 s2 \<Longrightarrow> bcore s s2"
  using same_core_trans by (simp add: bcore_def) blast

lemma bcore_bpost: "bcore s s' \<Longrightarrow> bpost ctx R s s'"
  using bstep.other [of s s' ctx R] by (auto simp: bcore_def ext_rel_def same_core_def)

definition idle :: "slot \<Rightarrow> bool" where
  "idle s \<longleftrightarrow> bp_inv s \<and> mCurrentMessageLevel s = 0"

lemma bpost_idle: "bpost ctx R s s' \<Longrightarrow> idle s \<Longrightarrow> idle s'"
  using bp_inv_reach by (auto simp: idle_def)

lemma bpost_trans_idle: "idle s \<Longrightarrow> bpost ctx R s s1 \<Longrightarrow> bpost ctx R s1 s2 \<Longrightarrow> bpost ctx R s s2"
  by (rule bpost_trans) (auto simp: idle_def)

lemma idle_ready: "idle s \<Longrightarrow> ready MAX_ADVANCE_SLOT_RECURSION s"
  by (simp add: idle_def ready_def MAX_ADVANCE_SLOT_RECURSION_def)

lemma idle_ready': "idle s \<Longrightarrow> ready (Suc MAX_ADVANCE_SLOT_RECURSION) s"
  by (simp add: idle_def ready_def MAX_ADVANCE_SLOT_RECURSION_def)

lemma acceptVote_bcore: "bcore (snd ms) (snd (acceptVote ctx v ms))"
  by (auto simp: acceptVote_def bcore_def same_core_def split: option.split prod.split)

lemma ratifyAccepted_bcore: "bcore (snd ms) (snd (ratifyAccepted ctx v ms))"
  by (auto simp: ratifyAccepted_def bcore_def same_core_def split: prod.split)

lemma fold_bcore:
  assumes "\<And>v ms. bcore (snd ms) (snd (f v ms))"
  shows "bcore (snd ms) (snd (fold f vs ms))"
proof (induction vs arbitrary: ms)
  case (Cons v vs)
  show ?case using bcore_trans [OF assms Cons.IH] by simp
qed simp

lemma bcore_vote [simp]: "bcore s (log_event (NominatingValue i x) (s\<lparr>mVotes := xs\<rparr>))"
  by (simp add: bcore_def same_core_def log_event_def)

lemma voteForLeader_bcore: "voteForLeader ctx st ms = Inr ms' \<Longrightarrow> bcore (snd ms) (snd ms')"
  by (auto simp: voteForLeader_def seq_Inr_iff split: prod.splits option.splits if_splits)

lemma voteFromLeader_bcore: "voteFromLeader ctx l ms = Inr ms' \<Longrightarrow> bcore (snd ms) (snd ms')"
  by (auto simp: voteFromLeader_def seq_Inr_iff split: prod.splits option.splits if_splits)

lemma foldSeq_bcore:
  assumes "\<And>v ms ms'. f v ms = Inr ms' \<Longrightarrow> bcore (snd ms) (snd ms')" "foldSeq f vs ms = Inr ms'"
  shows "bcore (snd ms) (snd ms')"
  using assms(2)
proof (induction vs arbitrary: ms)
  case (Cons v vs)
  then obtain ms1 where "f v ms = Inr ms1" "foldSeq f vs ms1 = Inr ms'" by (auto simp: seq_Inr_iff)
  with assms(1) Cons.IH show ?case using bcore_trans by blast
qed simp

lemma recordNomination_bcore: "bcore s (recordNomination e s)"
  by (simp add: bcore_def recordNomination_core)

lemma maybeSetGotVBlocking_bcore: "bcore s (maybeSetGotVBlocking ctx s)"
  by (simp add: bcore_def maybeSetGotVBlocking_def Let_def same_core_def)

lemma roundLeadersLoop_bcore: "roundLeadersLoop n ctx q m s = Inr s' \<Longrightarrow> bcore s s'"
proof (induction n arbitrary: s)
  case (Suc n)
  show ?case
  proof (cases "length (mRoundLeaders s) < m")
    case True
    then obtain new where new: "newRoundLeaders ctx q s = Inr new"
      using Suc.prems by (auto simp: seq_Inr_iff)
    let ?s1 = "s\<lparr>mRoundLeaders := sset_union new (mRoundLeaders s)\<rparr>"
    let ?s2 = "?s1\<lparr>mRoundNumber := mRoundNumber ?s1 + 1\<rparr>"
    have "bcore s ?s1" "bcore s ?s2" by (simp_all add: bcore_def same_core_def)
    moreover have "s' = ?s1 \<or> roundLeadersLoop n ctx q m ?s2 = Inr s'"
      using Suc.prems True new by (auto simp: Let_def split: if_splits)
    ultimately show ?thesis using Suc.IH bcore_trans by blast
  qed (use Suc.prems in simp)
qed simp

text \<open>A bump at the largest counter fails, any other one follows the contract.\<close>

lemma bumpState_partial:
  assumes "idle s" "bumpState (emitCurrentStateStatement ctx) ctx v force s = Inr (b, s')"
  shows "post ctx R s s'"
proof (cases "force \<and> (\<exists>b. mCurrentBallot s = Some b \<and> counter b = UINT32_MAX)")
  case True
  then obtain b0 where b0: "mCurrentBallot s = Some b0" "counter b0 = UINT32_MAX" by blast
  let ?x = "SCPBallot 0 (case mValueOverride s of Some z \<Rightarrow> z | None \<Rightarrow> v)"
  have "?x < b0" using b0(2) by (simp add: less_scp_ballot_def word_gt_0)
  then have "\<not> compareBallots b0 ?x \<le> 0" by (auto simp: compareBallots_iff)
  with assms(2) True b0 have "s' = s"
    by (auto simp: bumpState_def bumpState_to_def updateCurrentValue_def dbgAssert_def split: if_splits)
  then show ?thesis by simp
next
  case False
  have "safe allowed (\<lambda>(w, s'). post ctx R s s') (bumpState (emitCurrentStateStatement ctx) ctx v force s)"
    unfolding emitCurrentStateStatement_def by (rule em.bumpState_safe [OF idle_ready [OF assms(1)]]) (use False in auto)
  with assms(2) show ?thesis by simp
qed

lemma abandonBallot_partial:
  assumes "idle s" "abandonBallot (emitCurrentStateStatement ctx) ctx 0 s = Inr (b, s')"
  shows "post ctx R s s'"
proof -
  from abandonBallot_cases [of "emitCurrentStateStatement ctx" ctx 0 s] assms(2)
  consider "s' = s" | w where "bumpState (emitCurrentStateStatement ctx) ctx w True s = Inr (b, s')" by auto
  then show ?thesis by cases (simp, rule bumpState_partial [OF assms(1)])
qed

lemma proposeCandidates_bpost:
  assumes "idle s" "proposeCandidates ctx s = Inr s'"
  shows "bpost ctx R s s'"
proof -
  obtain v where v: "combineCandidates (ctx_driver ctx) (mSlotIndex s) (mCandidates s) = Some v"
    using assms(2) by (cases "combineCandidates (ctx_driver ctx) (mSlotIndex s) (mCandidates s)")
      (auto simp: proposeCandidates_def deref_def Let_def)
  let ?s1 = "log_event (UpdatedCandidateValue (mSlotIndex s) v) (s\<lparr>mLatestCompositeCandidate := Some v\<rparr>)"
  obtain b where b: "bumpState (emitCurrentStateStatement ctx) ctx v False ?s1 = Inr (b, s')"
    using assms(2) v by (auto simp: proposeCandidates_def deref_def seq_Inr_iff)
  have c: "bpost ctx R s ?s1"
    by (rule bcore_bpost) (simp add: bcore_def same_core_def log_event_def)
  have "post ctx R ?s1 s'" by (rule bumpState_partial [OF bpost_idle [OF c assms(1)] b])
  then have "bpost ctx R ?s1 s'" unfolding post_def by blast
  then show ?thesis by (rule bpost_trans_idle [OF assms(1) c])
qed

lemma processNomination_bpost:
  assumes emit: "\<And>s s'. idle s \<Longrightarrow> emit s = Inr s' \<Longrightarrow> bpost ctx R s s'"
    and s: "idle s" and r: "NominationProtocol_processEnvelope emit ctx e s = Inr (r, s')"
  shows "bpost ctx R s s'"
proof (cases "isNewerNomination_for (st_nodeID (env_statement e)) (st_pledges (env_statement e)) s
    \<and> isSane (st_pledges (env_statement e)) \<and> mNominationStarted s")
  case False
  then have "s' = s \<or> s' = recordNomination e s"
    using r by (auto simp: NominationProtocol_processEnvelope_def Let_def split: if_splits)
  then have "bcore s s'" using recordNomination_bcore by auto
  then show ?thesis by (rule bcore_bpost)
next
  case True
  let ?s1 = "recordNomination e s"
  obtain m2 s2 where f2: "fold (acceptVote ctx) (nom_votes (st_pledges (env_statement e))) (False, ?s1) = (m2, s2)" by fastforce
  obtain nc s3 where f3: "fold (ratifyAccepted ctx) (mAccepted s2) (False, s2) = (nc, s3)" by fastforce
  have "seq (voteForLeader ctx (env_statement e) (m2, s3)) (\<lambda>(modified, s4).
       seq (if modified then emit s4 else Inr s4) (\<lambda>s5.
       seq (if nc then proposeCandidates ctx s5 else Inr s5) (\<lambda>s6. ok VALID s6))) = Inr (r, s')"
    using True r f2 f3 by (simp add: NominationProtocol_processEnvelope_def Let_def)
  then obtain m4 s4 where v: "voteForLeader ctx (env_statement e) (m2, s3) = Inr (m4, s4)" and
    r4: "seq (if m4 then emit s4 else Inr s4) (\<lambda>s5.
       seq (if nc then proposeCandidates ctx s5 else Inr s5) (\<lambda>s6. ok VALID s6)) = Inr (r, s')"
    by (cases "voteForLeader ctx (env_statement e) (m2, s3)") (auto split del: if_split)
  from r4 obtain s5 where e5: "(if m4 then emit s4 else Inr s4) = Inr s5" and
    r5: "seq (if nc then proposeCandidates ctx s5 else Inr s5) (\<lambda>s6. ok VALID s6) = Inr (r, s')"
    by (cases "if m4 then emit s4 else Inr s4") (simp_all split del: if_split)
  from r5 have p6: "(if nc then proposeCandidates ctx s5 else Inr s5) = Inr s'"
    by (cases "if nc then proposeCandidates ctx s5 else Inr s5") (simp_all split del: if_split)
  have "bcore ?s1 s2"
    using fold_bcore [of "acceptVote ctx" "(False, ?s1)", OF acceptVote_bcore, of "nom_votes (st_pledges (env_statement e))"] f2
    by simp
  moreover have "bcore s2 s3"
    using fold_bcore [of "ratifyAccepted ctx" "(False, s2)", OF ratifyAccepted_bcore, of "mAccepted s2"] f3 by simp
  moreover have "bcore s3 s4" using voteForLeader_bcore [OF v] by simp
  ultimately have "bcore s s4" using recordNomination_bcore bcore_trans by blast
  then have p4: "bpost ctx R s s4" by (rule bcore_bpost)
  have "bpost ctx R s4 s5" using emit [OF bpost_idle [OF p4 s]] e5 bcore_bpost [of s4 s4] by (cases m4) auto
  then have p5: "bpost ctx R s s5" by (rule bpost_trans_idle [OF s p4])
  have "bpost ctx R s5 s'"
    using proposeCandidates_bpost [OF bpost_idle [OF p5 s]] p6 bcore_bpost [of s5 s5] by (cases nc) auto
  then show ?thesis by (rule bpost_trans_idle [OF s p5])
qed

lemma Slot_processNomination_bpost:
  assumes "\<And>s s'. idle s \<Longrightarrow> emit s = Inr s' \<Longrightarrow> bpost ctx R s s'"
    and s: "idle s" and r: "Slot_processNominationEnvelope emit ctx e s = Inr (r, s')"
  shows "bpost ctx R s s'"
proof -
  from r obtain s1 where s1: "NominationProtocol_processEnvelope emit ctx e s = Inr (r, s1)"
    and s': "s' = s1 \<or> s' = maybeSetGotVBlocking ctx s1"
    by (auto simp: Slot_processNominationEnvelope_def Let_def seq_Inr_iff)
  have p1: "bpost ctx R s s1" by (rule processNomination_bpost [OF assms(1) s s1])
  then have "bpost ctx R s (maybeSetGotVBlocking ctx s1)"
    by (rule bpost_trans_idle [OF s _ bcore_bpost [OF maybeSetGotVBlocking_bcore]])
  with p1 s' show ?thesis by blast
qed

lemma emitNominationN_bpost: "idle s \<Longrightarrow> emitNominationN n ctx s = Inr s' \<Longrightarrow> bpost ctx R s s'"
proof (induction n arbitrary: s s')
  case (Suc n)
  let ?e = "createEnvelope ctx NOMINATE (createNomination ctx s) s"
  from Suc.prems(2) obtain r s1 where
    s1: "Slot_processNominationEnvelope (emitNominationN n ctx) ctx ?e s = Inr (r, s1)" and
    s': "s' = s1 \<or> s' = s1\<lparr>mNomLastEnvelope := Some ?e\<rparr> \<or>
      s' = log_event (EmitEnvelope (map_envelope NOMINATE ?e)) (s1\<lparr>mNomLastEnvelope := Some ?e\<rparr>)"
    by (auto simp: emitNomination_def Let_def seq_Inr_iff split: if_splits)
  have "bpost ctx R s s1" by (rule Slot_processNomination_bpost [OF Suc.IH Suc.prems(1) s1])
  moreover have "bcore s1 s'" using s' by (auto simp: bcore_def same_core_def log_event_def)
  ultimately show ?case using bpost_trans_idle [OF Suc.prems(1)] bcore_bpost by blast
qed simp

lemma nominate_bpost:
  assumes s: "idle s" and n: "nominate fuel ctx val prev timedout s = Inr (b, s')"
  shows "bpost ctx R s s'"
proof (cases "timedout \<and> \<not> mNominationStarted s")
  case True
  with n have "bcore s s'" by (auto simp: nominate_unfold bcore_def same_core_def)
  then show ?thesis by (rule bcore_bpost)
next
  case False
  with n obtain s3 us where
    u: "updateRoundLeaders fuel ctx (startRound timedout prev s) = Inr s3" and
    v: "foldSeq (voteFromLeader ctx) (mRoundLeaders (snd (ownVote ctx val s3))) (ownVote ctx val s3) = Inr us" and
    f: "finishRound fuel ctx (computeTimeout (ctx_driver ctx) (mRoundNumber s3)) us = Inr (b, s')"
    by (auto simp: nominate_unfold seq_Inr_iff)
  let ?s6 = "log_event (SetupTimer NOMINATION_TIMER (computeTimeout (ctx_driver ctx) (mRoundNumber s3))) (snd us)"
  have "bcore s (startRound timedout prev s)" by (simp add: startRound_def Let_def bcore_def same_core_def)
  moreover have "bcore (startRound timedout prev s) s3"
    using u roundLeadersLoop_bcore by (auto simp: updateRoundLeaders_def Let_def)
  moreover have "bcore s3 (snd (ownVote ctx val s3))" by (simp add: ownVote_def)
  moreover have "bcore (snd (ownVote ctx val s3)) (snd us)" using foldSeq_bcore [OF voteFromLeader_bcore v] .
  moreover have "bcore (snd us) ?s6" by (simp add: bcore_def same_core_def log_event_def)
  ultimately have "bcore s ?s6" using bcore_trans by blast
  then have p6: "bpost ctx R s ?s6" by (rule bcore_bpost)
  have "s' = ?s6 \<or> emitNominationN fuel ctx ?s6 = Inr s'"
    using f by (auto simp: finishRound_def Let_def seq_Inr_iff split: if_splits)
  then show ?thesis
    using p6 bpost_trans_idle [OF s p6 emitNominationN_bpost [OF bpost_idle [OF p6 s]]] by blast
qed

section \<open>Calls of a slot\<close>

text \<open>One call of a public method that returns, with \<open>ctx\<close> what the driver and the local node are
  during the call and \<open>E\<close> the envelopes the network may deliver.\<close>

inductive slot_call :: "scp_ctx \<Rightarrow> scp_envelope set \<Rightarrow> slot \<Rightarrow> slot \<Rightarrow> bool" for ctx E where
  process: "env \<in> E \<Longrightarrow> Slot_processEnvelope fuel ctx env False s = Inr (r, s') \<Longrightarrow> slot_call ctx E s s'"
| nominated: "Slot_nominate fuel ctx val prev timedout s = Inr (b, s') \<Longrightarrow> slot_call ctx E s s'"
| stopped: "slot_call ctx E s (stopNomination s)"
| bumped: "Slot_bumpState ctx val force s = Inr (b, s') \<Longrightarrow> slot_call ctx E s s'"
| abandoned: "Slot_abandonBallot ctx s = Inr (b, s') \<Longrightarrow> slot_call ctx E s s'"
| timer: "Slot_ballotProtocolTimerExpired ctx s = Inr s' \<Longrightarrow> slot_call ctx E s s'"

text \<open>Any sequence of calls.  The driver and the local quorum set may change between them.\<close>

abbreviation slot_run :: "slot \<Rightarrow> slot \<Rightarrow> bool" where
  "slot_run \<equiv> (\<lambda>s s'. \<exists>ctx. slot_call ctx UNIV s s')\<^sup>*\<^sup>*"

lemma processBallot_partial:
  assumes s: "idle s" and e: "Slot_processBallotEnvelope (emitCurrentStateStatement ctx) ctx e False s = Inr (r, s')"
  shows "post ctx {e} s s'"
proof -
  have idx: "st_slotIndex (env_statement e) = mSlotIndex s"
    using e by (auto simp: Slot_processBallotEnvelope_def dbgAssert_def Let_def split: if_splits)
  have "safe allowed (\<lambda>(r, s'). post ctx {e} s s' \<and> (r = INVALID \<longrightarrow> s' = s))
      (Slot_processBallotEnvelope (emitCurrentStateStatement ctx) ctx e False s)"
    unfolding emitCurrentStateStatement_def
    by (rule em.Slot_processBallotEnvelope_safe [OF idle_ready' [OF s] idx]) (rule bstep.receive, simp_all)
  with e show ?thesis by simp
qed

lemma post_bpost: "post ctx R s s' \<Longrightarrow> bpost ctx R s s'"
  unfolding post_def by blast

text \<open>The ballot envelopes among the envelopes the network may deliver.\<close>

definition receivable :: "scp_envelope set \<Rightarrow> ballot_envelope set" where
  "receivable E = {e. map_envelope BALLOT e \<in> E}"

lemma Slot_processEnvelope_bpost:
  assumes "idle s" "Slot_processEnvelope fuel ctx env False s = Inr (r, s')" "env \<in> E"
  shows "bpost ctx (receivable E) s s'"
proof (cases "st_pledges (env_statement env)")
  case (BALLOT pl)
  then have p: "bpost ctx {ballotEnvelope pl env} s s'"
    using processBallot_partial [OF assms(1)] assms(2) by (intro post_bpost) (simp add: Slot_processEnvelope_def)
  have "map_envelope BALLOT (ballotEnvelope pl env) = env"
    using BALLOT by (simp add: ballotEnvelope_def map_envelope_def map_statement_def)
  then have "{ballotEnvelope pl env} \<subseteq> receivable E" using assms(3) by (simp add: receivable_def)
  with p show ?thesis using reach_mono by blast
next
  case (NOMINATE nom)
  then show ?thesis
    using Slot_processNomination_bpost [OF emitNominationN_bpost assms(1)] assms(2)
    by (simp add: Slot_processEnvelope_def)
qed

lemma slot_call_bpost: "slot_call ctx E s s' \<Longrightarrow> idle s \<Longrightarrow> bpost ctx (receivable E) s s'"
proof (induction rule: slot_call.induct)
  case (process env fuel s r s')
  then show ?case using Slot_processEnvelope_bpost by blast
next
  case (nominated fuel val prev timedout s b s')
  then show ?case using nominate_bpost unfolding Slot_nominate_def by blast
next
  case (stopped s)
  have "bcore s (stopNomination s)" by (simp add: bcore_def same_core_def stopNomination_def)
  then show ?case by (rule bcore_bpost)
next
  case (bumped val force s b s')
  then show ?case using bumpState_partial unfolding Slot_bumpState_def post_def by blast
next
  case (abandoned s b s')
  then show ?case using abandonBallot_partial unfolding Slot_abandonBallot_def post_def by blast
next
  case (timer s s')
  let ?s1 = "s\<lparr>mTimerExpCount := mTimerExpCount s + 1\<rparr>"
  have p1: "bpost ctx (receivable E) s ?s1" by (rule bcore_bpost) (simp add: bcore_def same_core_def)
  from timer obtain b where "abandonBallot (emitCurrentStateStatement ctx) ctx 0 ?s1 = Inr (b, s')"
    by (auto simp: Slot_ballotProtocolTimerExpired_def ballotProtocolTimerExpired_def seq_Inr_iff)
  from abandonBallot_partial [OF bpost_idle [OF p1 timer.prems] this]
  have "bpost ctx (receivable E) ?s1 s'" by (simp add: post_def)
  with p1 show ?case using bpost_trans_idle [OF timer.prems] by blast
qed

section \<open>Runs of a slot\<close>

lemma idle_new_Slot [simp]: "idle (new_Slot i ln)"
  by (simp add: idle_def bp_inv_new_Slot) (simp add: new_Slot_def)

lemma slot_run_induct:
  assumes "slot_run s s'" "idle s"
  shows "idle s' \<and> advances s s' \<and> ext_rel s s'"
  using assms(1)
proof (induction rule: rtranclp_induct)
  case base
  show ?case using assms(2) by (simp add: ext_rel_def)
next
  case (step s1 s2)
  from step.hyps(2) obtain ctx where c: "slot_call ctx UNIV s1 s2" by blast
  from step.IH have i1: "idle s1" by blast
  have p: "bpost ctx (receivable UNIV) s1 s2" by (rule slot_call_bpost [OF c i1])
  then have a: "advances s1 s2" using reach_advances i1 by (auto simp: idle_def)
  have "advances s s2" using advances_trans [OF _ a] step.IH by blast
  moreover have "ext_rel s s2" using ext_rel_trans [OF _ a] step.IH p by blast
  ultimately show ?case using bpost_idle [OF p i1] by blast
qed

end
