(* ===== verification/Slot_Properties.thy ===== *)
theory Slot_Properties
  imports Slot_Correct
begin

text \<open>
  The properties of a slot over any sequence of calls, and a one-validator network on which they are
  evaluated.
\<close>

lemma checkInvariants_exact:
  assumes "bp_inv s"
  shows "checkInvariants s =
    (case mCurrentBallot s of Some b \<Rightarrow> dbgAssert (counter b \<noteq> 0) AssertCounterNonZero | None \<Rightarrow> Inr ())"
proof -
  have "mPhase s \<noteq> SCP_PHASE_PREPARE \<Longrightarrow> mCommit s \<noteq> None \<and> mHighBallot s \<noteq> None"
    using assms by (auto simp: bp_inv_def)
  with assms show ?thesis
    unfolding checkInvariants_def
    by (cases "mCommit s"; cases "mHighBallot s"; cases "mPhase s")
      (auto simp: bp_inv_def dbgAssert_def deref_def lessAndIncompatible_iff less_imp_le split: option.splits)
qed

section \<open>A one-validator network\<close>

definition solo_qset :: scp_quorum_set where
  "solo_qset = SCPQuorumSet 1 [1] []"

definition solo_driver :: driver where
  "solo_driver =
     \<lparr>signEnvelope = (\<lambda>_. []), getQSet = (\<lambda>h. if h = 9 then Some solo_qset else None),
      validateValue = (\<lambda>_ _ _. kFullyValidatedValue), extractValidValue = (\<lambda>_ _. None),
      combineCandidates = (\<lambda>_ cs. if cs = [] then None else Some (last cs)),
      computeHashNode = (\<lambda>_ _ _ _ n. 5), computeValueHash = (\<lambda>_ _ _ v. 3),
      computeTimeout = (\<lambda>n. 1)\<rparr>"

definition solo :: scp_ctx where
  "solo = \<lparr>ctx_driver = solo_driver, ctx_local = new_LocalNode (\<lambda>_. 9) 1 True solo_qset\<rparr>"

definition solo_start :: slot where
  "solo_start = new_Slot 3 (ctx_local solo)"

text \<open>The first ballot is prepared, committed and externalized within one call.\<close>

definition solo_end :: slot where
  "solo_end = snd (projr (Slot_bumpState solo [7] False solo_start))"

lemma solo_bump: "Slot_bumpState solo [7] False solo_start = Inr (True, solo_end)"
proof -
  have "case Slot_bumpState solo [7] False solo_start of Inl e \<Rightarrow> False | Inr (b, s) \<Rightarrow> b"
    by code_simp
  then show ?thesis
    by (cases "Slot_bumpState solo [7] False solo_start") (auto simp: solo_end_def)
qed

lemma solo_call: "slot_call solo UNIV solo_start solo_end"
  by (rule slot_call.bumped [OF solo_bump])

lemma solo_run: "slot_run solo_start solo_end"
  using solo_call by blast

lemma solo_externalized: "mPhase solo_end = SCP_PHASE_EXTERNALIZE"
  by code_simp

section \<open>Calls as steps of the abstract machine\<close>

text \<open>C2: every call of a slot that returns is a sequence of steps of the abstract ballot machine,
  in which the only messages taken in are the ballot envelopes the network delivered; between calls
  the invariant holds and no emission is pending.\<close>

theorem slot_call_refines:
  assumes "bp_inv s" "mCurrentMessageLevel s = 0" "slot_call ctx E s s'"
  shows "reach ctx (receivable E) s s' \<and> bp_inv s' \<and> mCurrentMessageLevel s' = 0"
proof -
  have s: "idle s" using assms by (simp add: idle_def)
  have p: "bpost ctx (receivable E) s s'" by (rule slot_call_bpost [OF assms(3) s])
  show ?thesis using p bpost_idle [OF p s] by (simp add: idle_def)
qed

theorem slot_call_refines_witness:
  "bp_inv solo_start \<and> slot_call solo UNIV solo_start solo_end \<and>
   reach solo (receivable UNIV) solo_start solo_end \<and> mPhase solo_end = SCP_PHASE_EXTERNALIZE"
  using slot_call_refines [OF _ _ solo_call] solo_call solo_externalized idle_new_Slot [of 3 "ctx_local solo"]
  by (simp add: idle_def solo_start_def)

text \<open>C3: the driver is told about one externalized value at most, when the slot externalizes,
  and that value is the value of the commit ballot.\<close>

theorem externalizes_once:
  assumes "slot_run (new_Slot i ln) s"
  shows "ext_events s =
    (if mPhase s = SCP_PHASE_EXTERNALIZE then [ValueExternalized i (bvalue (the (mCommit s)))] else [])"
proof -
  let ?n = "new_Slot i ln"
  have r: "advances ?n s" "ext_rel ?n s" using slot_run_induct [OF assms] by simp_all
  have "mPhase ?n = SCP_PHASE_PREPARE" "ext_events ?n = []" "mSlotIndex ?n = i" by (simp_all add: new_Slot_def)
  then show ?thesis using r by (auto simp: ext_rel_def advances_def split: if_splits)
qed

theorem externalizes_once_witness:
  "slot_run (new_Slot 3 (ctx_local solo)) solo_end \<and> ext_events solo_end = [ValueExternalized 3 [7]]"
proof -
  have "bvalue (the (mCommit solo_end)) = [7]" by code_simp
  then show ?thesis
    using externalizes_once [of 3 "ctx_local solo" solo_end] solo_run solo_externalized
    by (simp add: solo_start_def)
qed



text \<open>C6: after any run, the assertions of \<^verbatim>\<open>checkInvariants\<close> hold, except that the current ballot may
  have counter 0.\<close>

theorem checkInvariants_run:
  assumes "slot_run (new_Slot i ln) s"
  shows "bp_inv s \<and> checkInvariants s =
    (case mCurrentBallot s of Some b \<Rightarrow> dbgAssert (counter b \<noteq> 0) AssertCounterNonZero | None \<Rightarrow> Inr ())"
proof -
  have "idle s" using slot_run_induct [OF assms idle_new_Slot] by blast
  then have "bp_inv s" by (simp add: idle_def)
  then show ?thesis by (simp add: checkInvariants_exact)
qed

theorem checkInvariants_run_witness: "checkInvariants solo_end = Inr ()"
proof -
  have "mCurrentBallot solo_end = Some (SCPBallot 1 [7])" by code_simp
  then show ?thesis
    using checkInvariants_run [of 3 "ctx_local solo" solo_end] solo_run
    by (simp add: solo_start_def dbgAssert_def)
qed

section \<open>No internal failure\<close>

text \<open>C4: processing a ballot envelope for the slot returns, or fails for one of the reasons in
  \<^const>\<open>allowed\<close>, none of which is a null pointer, an out-of-range access or running out of nested
  emissions.  An envelope reported invalid changes nothing.\<close>

theorem processBallotEnvelope_no_failure:
  assumes "bp_inv s" "mCurrentMessageLevel s = 0" "st_slotIndex (env_statement env) = mSlotIndex s"
    and "st_pledges (env_statement env) = BALLOT pl"
  shows "case Slot_processEnvelope fuel ctx env False s of
      Inl e \<Rightarrow> allowed e
    | Inr (r, s') \<Rightarrow> bp_inv s' \<and> mCurrentMessageLevel s' = 0 \<and> (r = INVALID \<longrightarrow> s' = s)"
proof -
  have s: "idle s" using assms by (simp add: idle_def)
  let ?e = "ballotEnvelope pl env"
  have idx: "st_slotIndex (env_statement ?e) = mSlotIndex s"
    using assms(3) by (simp add: ballotEnvelope_def map_envelope_def map_statement_def)
  have "safe allowed (\<lambda>(r, s'). post ctx {?e} s s' \<and> (r = INVALID \<longrightarrow> s' = s))
      (Slot_processBallotEnvelope (emitCurrentStateStatement ctx) ctx ?e False s)"
    unfolding emitCurrentStateStatement_def
    by (rule em.Slot_processBallotEnvelope_safe [OF idle_ready' [OF s] idx]) (rule bstep.receive, simp_all)
  moreover have "Slot_processEnvelope fuel ctx env False s =
      Slot_processBallotEnvelope (emitCurrentStateStatement ctx) ctx ?e False s"
    using assms(4) by (simp add: Slot_processEnvelope_def)
  moreover have "post ctx {?e} s s' \<Longrightarrow> bp_inv s' \<and> mCurrentMessageLevel s' = 0" for s'
    using bpost_idle [OF post_bpost s, of ctx "{?e}" s'] unfolding idle_def by blast
  ultimately show ?thesis
    by (cases "Slot_processBallotEnvelope (emitCurrentStateStatement ctx) ctx ?e False s") auto
qed

definition solo_prepare :: scp_envelope where
  "solo_prepare = \<lparr>env_statement = \<lparr>st_nodeID = 2, st_slotIndex = 3,
     st_pledges = BALLOT (PREPARE \<lparr>prep_quorumSetHash = 9, prep_ballot = SCPBallot 1 [7], prep_prepared = None,
       prep_preparedPrime = None, prep_nC = 0, prep_nH = 0\<rparr>)\<rparr>, env_signature = []\<rparr>"

theorem processBallotEnvelope_no_failure_witness:
  "case Slot_processEnvelope 0 solo solo_prepare False solo_start of
     Inl e \<Rightarrow> False | Inr (r, s') \<Rightarrow> r = VALID \<and> bp_inv s'"
proof -
  have "case Slot_processEnvelope 0 solo solo_prepare False solo_start of Inl e \<Rightarrow> False | Inr (r, s') \<Rightarrow> r = VALID"
    by code_simp
  moreover have "case Slot_processEnvelope 0 solo solo_prepare False solo_start of
      Inl e \<Rightarrow> allowed e
    | Inr (r, s') \<Rightarrow> bp_inv s' \<and> mCurrentMessageLevel s' = 0 \<and> (r = INVALID \<longrightarrow> s' = solo_start)"
    by (rule processBallotEnvelope_no_failure)
      (use idle_new_Slot [of 3 "ctx_local solo"] in \<open>simp_all add: idle_def solo_start_def solo_prepare_def new_Slot_def\<close>)
  ultimately show ?thesis by (auto split: sum.splits)
qed

section \<open>The largest ballot counter\<close>

text \<open>C29: when the ballot timer expires at the largest counter, the counter of the next ballot wraps to
  0 and the assertion that ballots only move up fails.\<close>

theorem timer_at_largest_counter_fails:
  assumes "mPhase s = SCP_PHASE_PREPARE \<or> mPhase s = SCP_PHASE_CONFIRM"
    and "mCurrentBallot s = Some b" "counter b = UINT32_MAX" "bvalue b \<noteq> []"
  shows "Slot_ballotProtocolTimerExpired ctx s = Inl (DbgAssert AssertCurrentLeBallot)"
proof -
  have "SCPBallot 0 x < b" for x using assms(3) by (simp add: less_scp_ballot_def word_gt_0)
  then have "\<not> compareBallots b (SCPBallot 0 x) \<le> 0" for x by (simp add: compareBallots_iff not_le)
  with assms show ?thesis
    by (auto simp: Slot_ballotProtocolTimerExpired_def ballotProtocolTimerExpired_def abandonBallot_def Let_def
        bumpState_def bumpState_to_def updateCurrentValue_def dbgAssert_def split: option.splits)
qed

text \<open>Such states are reached without any fault: a validator that needs all four of its network, one of
  which has externalized while the two others are behind, adopts the counter of \<^verbatim>\<open>EXTERNALIZE\<close>
  statements, which is the largest one, hears from a quorum and arms its timer.\<close>

definition quad_qset :: scp_quorum_set where
  "quad_qset = SCPQuorumSet 4 [1, 2, 3, 4] []"

definition quad :: scp_ctx where
  "quad = \<lparr>ctx_driver = solo_driver\<lparr>getQSet := \<lambda>h. if h = 9 then Some quad_qset else None\<rparr>,
     ctx_local = new_LocalNode (\<lambda>_. 9) 1 True quad_qset\<rparr>"

definition peerEnvelope :: "node_id \<Rightarrow> ballot_pledges \<Rightarrow> scp_envelope" where
  "peerEnvelope n pl =
     \<lparr>env_statement = \<lparr>st_nodeID = n, st_slotIndex = 3, st_pledges = BALLOT pl\<rparr>, env_signature = []\<rparr>"

definition externalizedPledge :: ballot_pledges where
  "externalizedPledge = EXTERNALIZE \<lparr>ext_commit = SCPBallot 1 [7], ext_nH = 1, ext_commitQuorumSetHash = 9\<rparr>"

definition laggingPledge :: ballot_pledges where
  "laggingPledge = PREPARE \<lparr>prep_quorumSetHash = 9, prep_ballot = SCPBallot UINT32_MAX [7], prep_prepared = None,
     prep_preparedPrime = None, prep_nC = 0, prep_nH = 0\<rparr>"

definition deliver :: "scp_ctx \<Rightarrow> scp_envelope \<Rightarrow> slot \<Rightarrow> slot" where
  "deliver ctx e s = snd (projr (Slot_processEnvelope 0 ctx e False s))"

definition quad1 :: slot where "quad1 = deliver quad (peerEnvelope 2 externalizedPledge) (new_Slot 3 (ctx_local quad))"
definition quad2 :: slot where "quad2 = deliver quad (peerEnvelope 3 laggingPledge) quad1"
definition quad3 :: slot where "quad3 = deliver quad (peerEnvelope 4 laggingPledge) quad2"

lemma deliver_call:
  assumes "case Slot_processEnvelope 0 ctx e False s of Inl _ \<Rightarrow> False | Inr (r, _) \<Rightarrow> r = VALID"
  shows "slot_call ctx UNIV s (deliver ctx e s)"
proof -
  obtain s' where s': "Slot_processEnvelope 0 ctx e False s = Inr (VALID, s')"
    using assms by (cases "Slot_processEnvelope 0 ctx e False s") auto
  then have "deliver ctx e s = s'" by (simp add: deliver_def)
  with slot_call.process [OF UNIV_I s'] show ?thesis by simp
qed

lemma slot_run_call: "slot_run s s1 \<Longrightarrow> slot_call ctx UNIV s1 s2 \<Longrightarrow> slot_run s s2"
  by (rule rtranclp.rtrancl_into_rtrancl) blast+

lemma quad_run: "slot_run (new_Slot 3 (ctx_local quad)) quad3"
proof -
  have 1: "slot_call quad UNIV (new_Slot 3 (ctx_local quad)) quad1" unfolding quad1_def by (rule deliver_call) code_simp
  have 2: "slot_call quad UNIV quad1 quad2" unfolding quad2_def by (rule deliver_call) code_simp
  have 3: "slot_call quad UNIV quad2 quad3" unfolding quad3_def by (rule deliver_call) code_simp
  show ?thesis by (rule slot_run_call [OF slot_run_call [OF slot_run_call [OF rtranclp.rtrancl_refl 1] 2] 3])
qed

theorem timer_at_largest_counter_fails_witness:
  "slot_run (new_Slot 3 (ctx_local quad)) quad3 \<and>
   hd (mEvents quad3) = SetupTimer BALLOT_PROTOCOL_TIMER 1 \<and>
   Slot_ballotProtocolTimerExpired quad quad3 = Inl (DbgAssert AssertCurrentLeBallot)"
proof (intro conjI)
  show "slot_run (new_Slot 3 (ctx_local quad)) quad3" by (rule quad_run)
  show "hd (mEvents quad3) = SetupTimer BALLOT_PROTOCOL_TIMER 1" by code_simp
  have "mPhase quad3 = SCP_PHASE_CONFIRM" "mCurrentBallot quad3 = Some (SCPBallot UINT32_MAX [7])" by code_simp+
  then show "Slot_ballotProtocolTimerExpired quad quad3 = Inl (DbgAssert AssertCurrentLeBallot)"
    by (intro timer_at_largest_counter_fails [of _ "SCPBallot UINT32_MAX [7]"]) simp_all
qed

end
