(* ===== verification/Nomination_Properties.thy ===== *)
theory Nomination_Properties
  imports Slot_Properties
begin

text \<open>
  The properties of the nomination protocol: which statements are newer, who leads a round, and that
  neither a nomination message nor a nomination round can fail from within the protocol.
\<close>

section \<open>Leaders\<close>

text \<open>The quorum set whose nodes compete for the lead: the local one without the local node.\<close>

abbreviation leaderQSet :: "scp_ctx \<Rightarrow> scp_quorum_set" where
  "leaderQSet ctx \<equiv> normalizeQSet (mQSet (ctx_local ctx)) (Some (mNodeID (ctx_local ctx)))"

lemma count_nodes: "snd (forAllNodes (\<lambda>cur n. (True, n + 1)) q k) = k + length (qset_nodes q)" for k :: nat
proof -
  have "fold (\<lambda>_ n. n + 1) xs k = k + length xs" for xs :: "node_id list" by (induction xs arbitrary: k) auto
  then show ?thesis
    using forAllNodes_fold [where P = "\<lambda>_. True" and f = "\<lambda>cur n. (True, n + 1)" and q = q and s = k] by simp
qed

lemma updateRoundLeaders_loop:
  "updateRoundLeaders fuel ctx s = roundLeadersLoop fuel ctx (leaderQSet ctx) (1 + length (qset_nodes (leaderQSet ctx))) s"
  by (simp only: updateRoundLeaders_def Let_def count_nodes)

lemma updateRoundLeaders_spec:
  assumes "isQuorumSetSane (mQSet (ctx_local ctx)) ex" "mPreviousValue s \<noteq> []" "sset (mRoundLeaders s)"
    and "length (mRoundLeaders s) \<le> length (qset_nodes (leaderQSet ctx))"
    and "\<And>j. j < k \<Longrightarrow> roundLeaders ctx (leaderQSet ctx) s j \<subseteq> set (mRoundLeaders s)"
    and "\<not> roundLeaders ctx (leaderQSet ctx) s k \<subseteq> set (mRoundLeaders s)" "k < fuel"
  shows "\<exists>ls. set ls = set (mRoundLeaders s) \<union> roundLeaders ctx (leaderQSet ctx) s k \<and> sset ls \<and>
    updateRoundLeaders fuel ctx s = Inr (s\<lparr>mRoundNumber := mRoundNumber s + of_nat k, mRoundLeaders := ls\<rparr>)"
  unfolding updateRoundLeaders_loop
  by (rule roundLeadersLoop_first [OF normalizeQSet_weak [OF assms(1)] assms(2,3)])
    (use assms(4-) in auto)

lemma updateRoundLeaders_ends:
  assumes "isQuorumSetSane (mQSet (ctx_local ctx)) ex" "mPreviousValue s \<noteq> []" "sset (mRoundLeaders s)" "0 < fuel"
    and "length (qset_nodes (leaderQSet ctx)) < length (mRoundLeaders s) \<or>
      (\<exists>k < fuel. \<not> roundLeaders ctx (leaderQSet ctx) s k \<subseteq> set (mRoundLeaders s))"
  shows "\<exists>s'. updateRoundLeaders fuel ctx s = Inr s'"
proof (cases "length (qset_nodes (leaderQSet ctx)) < length (mRoundLeaders s)")
  case True
  with assms(4) show ?thesis unfolding updateRoundLeaders_loop by (cases fuel) auto
next
  case False
  let ?new = "\<lambda>k. \<not> roundLeaders ctx (leaderQSet ctx) s k \<subseteq> set (mRoundLeaders s)"
  from False assms(5) obtain k where k: "k < fuel" "?new k" by blast
  have least: "?new (LEAST k. ?new k)" using k(2) by (rule LeastI)
  have "(LEAST k. ?new k) \<le> k" using k(2) by (rule Least_le)
  then have "(LEAST k. ?new k) < fuel" using k(1) by simp
  from updateRoundLeaders_spec [OF assms(1-3) _ _ least this] False
  show ?thesis using not_less_Least by (metis not_less)
qed

text \<open>C9: the leaders of a round are the old leaders and the nodes of highest priority in the first
  round, counting from the current one, in which some such node is not a leader yet.\<close>

theorem updateRoundLeaders_first:
  assumes "isQuorumSetSane (mQSet (ctx_local ctx)) ex" "mPreviousValue s \<noteq> []" "sset (mRoundLeaders s)"
    and "length (mRoundLeaders s) \<le> length (qset_nodes (leaderQSet ctx))"
    and "\<And>j. j < k \<Longrightarrow> roundLeaders ctx (leaderQSet ctx) s j \<subseteq> set (mRoundLeaders s)"
    and "\<not> roundLeaders ctx (leaderQSet ctx) s k \<subseteq> set (mRoundLeaders s)" "k < fuel"
  shows "\<exists>ls. set ls = set (mRoundLeaders s) \<union> roundLeaders ctx (leaderQSet ctx) s k \<and> sset ls \<and>
    updateRoundLeaders fuel ctx s = Inr (s\<lparr>mRoundNumber := mRoundNumber s + of_nat k, mRoundLeaders := ls\<rparr>)"
  using assms by (rule updateRoundLeaders_spec)

lemma solo_qset_sane: "isQuorumSetSane (mQSet (ctx_local solo)) False"
  by code_simp

lemma solo_leaders:
  assumes "newRoundLeaders solo (leaderQSet solo) s = Inr [1]" "mPreviousValue s \<noteq> []"
  shows "roundLeaders solo (leaderQSet solo) s 0 = {1}"
proof -
  from newRoundLeaders_total [OF normalizeQSet_weak [OF solo_qset_sane] assms(2)]
  obtain ls where "newRoundLeaders solo (leaderQSet solo) s = Inr ls"
    "set ls = topNodes (priority solo (leaderQSet solo) s) (mNodeID (ctx_local solo)) (set (qset_nodes (leaderQSet solo)))"
    by blast
  with assms(1) show ?thesis by (simp add: roundLeaders_def)
qed

theorem updateRoundLeaders_first_witness:
  "\<exists>ls. set ls = {1} \<and> updateRoundLeaders 1 solo (solo_start\<lparr>mPreviousValue := [8]\<rparr>) =
     Inr (solo_start\<lparr>mPreviousValue := [8], mRoundLeaders := ls\<rparr>)"
proof -
  let ?s = "solo_start\<lparr>mPreviousValue := [8]\<rparr>"
  have r: "mRoundLeaders ?s = []" by (simp add: solo_start_def new_Slot_def)
  have "newRoundLeaders solo (leaderQSet solo) ?s = Inr [1]" by code_simp
  then have l: "roundLeaders solo (leaderQSet solo) ?s 0 = {1}" by (rule solo_leaders) simp
  have "\<exists>ls. set ls = set (mRoundLeaders ?s) \<union> roundLeaders solo (leaderQSet solo) ?s 0 \<and> sset ls \<and>
    updateRoundLeaders 1 solo ?s = Inr (?s\<lparr>mRoundNumber := mRoundNumber ?s + of_nat 0, mRoundLeaders := ls\<rparr>)"
    by (rule updateRoundLeaders_first [OF solo_qset_sane]) (simp_all add: r l)
  then show ?thesis using l r by auto
qed

section \<open>Newer statements\<close>

text \<open>C26: a nomination statement replaces another exactly when its votes and accepted values include
  those of the other and it says more.\<close>

theorem isNewerNomination_includes:
  assumes "isSane old" "isSane new"
  shows "isNewerNomination old new \<longleftrightarrow>
    set (nom_votes old) \<subseteq> set (nom_votes new) \<and> set (nom_accepted old) \<subseteq> set (nom_accepted new) \<and>
    (nom_votes old \<noteq> nom_votes new \<or> nom_accepted old \<noteq> nom_accepted new)"
  using assms by (rule isNewerNomination_iff)

definition small_nomination :: scp_nomination where
  "small_nomination = \<lparr>nom_quorumSetHash = 9, nom_votes = [[1], [2]], nom_accepted = []\<rparr>"

definition large_nomination :: scp_nomination where
  "large_nomination = \<lparr>nom_quorumSetHash = 9, nom_votes = [[1], [2], [3]], nom_accepted = [[2]]\<rparr>"

theorem isNewerNomination_includes_witness:
  "isSane small_nomination \<and> isNewerNomination small_nomination large_nomination
   \<and> \<not> isNewerNomination large_nomination small_nomination"
proof -
  have s: "isSane small_nomination" "isSane large_nomination" by code_simp+
  show ?thesis
    using s isNewerNomination_includes [OF s] isNewerNomination_includes [OF s(2,1)]
    by (simp add: small_nomination_def large_nomination_def)
qed

section \<open>No internal failure\<close>

text \<open>C7: processing a nomination envelope of another node ends after at most \<open>2 |U|\<close> nested
  emissions, where \<open>U\<close> is a finite set of values that has the values seen and those the driver extracts
  from them; it fails for the reasons only for which the ballot protocol may fail; votes, accepted
  values and candidates only grow and the invariant is kept.\<close>

theorem processNominationEnvelope_no_failure:
  assumes "nidle ctx U s" "2 * card U < Suc fuel + nom_size s"
    and "st_pledges (env_statement env) = NOMINATE nom" "st_slotIndex (env_statement env) = mSlotIndex s"
    and "st_nodeID (env_statement env) \<noteq> mNodeID (ctx_local ctx)"
    and "set (nom_votes nom) \<union> set (nom_accepted nom) \<subseteq> U"
  shows "case Slot_processEnvelope fuel ctx env False s of
      Inl e \<Rightarrow> allowed e
    | Inr (r, s') \<Rightarrow> nidle ctx U s' \<and> grows s s' \<and> (r = INVALID \<longrightarrow> s' = s)"
proof -
  let ?e = "nominationEnvelope nom env"
  have e: "st_pledges (env_statement ?e) = nom" "st_slotIndex (env_statement ?e) = mSlotIndex s"
    "st_nodeID (env_statement ?e) = st_nodeID (env_statement env)"
    using assms(4) by (simp_all add: nominationEnvelope_def map_envelope_def map_statement_def)
  have "safe allowed (\<lambda>(r, s'). npost ctx {} U s s' \<and>
      (r = INVALID \<longrightarrow> s' = s \<and> \<not> (isNewerNomination_for (st_nodeID (env_statement ?e)) (st_pledges (env_statement ?e)) s
         \<and> isSane (st_pledges (env_statement ?e)))))
    (Slot_processNominationEnvelope (emitNominationN fuel ctx) ctx ?e s)"
    by (rule nm.Slot_process_safe [OF assms(1,2) e(2)]) (use assms(5,6) e in auto)
  moreover have "Slot_processEnvelope fuel ctx env False s =
      Slot_processNominationEnvelope (emitNominationN fuel ctx) ctx ?e s"
    using assms(3) by (simp add: Slot_processEnvelope_def)
  moreover have "npost ctx {} U s s' \<Longrightarrow> nidle ctx U s' \<and> grows s s'" for s'
    using npost_nidle [of ctx "{}" U s s'] assms(1) unfolding npost_def by blast
  ultimately show ?thesis
    by (cases "Slot_processNominationEnvelope (emitNominationN fuel ctx) ctx ?e s") auto
qed

definition peer_nomination :: scp_envelope where
  "peer_nomination = \<lparr>env_statement = \<lparr>st_nodeID = 2, st_slotIndex = 3, st_pledges = NOMINATE large_nomination\<rparr>,
     env_signature = []\<rparr>"

lemma solo_nidle: "finite U \<Longrightarrow> nidle solo U solo_start"
  using idle_new_Slot [of 3 "ctx_local solo"] nom_inv_new_Slot [of solo 3 "ctx_local solo"]
  by (simp add: nidle_def idle_def solo_start_def driver_combines_def solo_def solo_driver_def within_def closed_values_def)
    (simp add: new_Slot_def)

theorem processNominationEnvelope_no_failure_witness:
  "case Slot_processEnvelope 9 solo peer_nomination False solo_start of
     Inl e \<Rightarrow> False | Inr (r, s') \<Rightarrow> r = VALID \<and> nidle solo {[1], [2], [3]} s'"
proof -
  have "case Slot_processEnvelope 9 solo peer_nomination False solo_start of Inl e \<Rightarrow> False | Inr (r, s') \<Rightarrow> r = VALID"
    by code_simp
  moreover have "case Slot_processEnvelope 9 solo peer_nomination False solo_start of
      Inl e \<Rightarrow> allowed e
    | Inr (r, s') \<Rightarrow> nidle solo {[1], [2], [3]} s' \<and> grows solo_start s' \<and> (r = INVALID \<longrightarrow> s' = solo_start)"
  proof (rule processNominationEnvelope_no_failure [of _ _ _ _ _ large_nomination])
    show "nidle solo {[1], [2], [3]} solo_start" by (rule solo_nidle) simp
    show "2 * card {[1], [2], [3] :: scp_value} < Suc 9 + nom_size solo_start" by simp
  qed (simp_all add: peer_nomination_def large_nomination_def solo_start_def new_Slot_def solo_def new_LocalNode_def)
  ultimately show ?thesis by (auto split: sum.splits)
qed

text \<open>C8: a nomination round started by the node itself ends and fails for the reasons only for which
  the ballot protocol may fail, when some round in reach has a new leader or all nodes lead.\<close>

theorem nominate_no_failure:
  assumes "nidle ctx U s" "2 * card U < fuel + nom_size s" "0 < fuel" "val \<in> U" "previousValue \<noteq> []"
    and "isQuorumSetSane (mQSet (ctx_local ctx)) ex"
    and "length (qset_nodes (leaderQSet ctx)) < length (mRoundLeaders s) \<or>
      (\<exists>k < fuel. \<not> roundLeaders ctx (leaderQSet ctx) (startRound timedout previousValue s) k \<subseteq> set (mRoundLeaders s))"
  shows "case Slot_nominate fuel ctx val previousValue timedout s of
      Inl e \<Rightarrow> allowed e
    | Inr (updated, s') \<Rightarrow> nidle ctx U s' \<and> grows s s'"
proof -
  let ?s2 = "startRound timedout previousValue s"
  have s2: "mPreviousValue ?s2 \<noteq> []" "mRoundLeaders ?s2 = mRoundLeaders s" "sset (mRoundLeaders s)"
    using assms(1,5) by (simp_all add: startRound_def Let_def nidle_def nom_inv_def)
  obtain s' where "updateRoundLeaders fuel ctx ?s2 = Inr s'"
    using updateRoundLeaders_ends [OF assms(6) s2(1) _ assms(3)] s2 assms(7) by auto
  with nominate_safe [OF assms(1,5,4,2,6), of timedout "{}"]
  have "safe allowed (\<lambda>(b, s'). npost ctx {} U s s') (Slot_nominate fuel ctx val previousValue timedout s)"
    unfolding Slot_nominate_def by simp
  moreover have "npost ctx {} U s s' \<Longrightarrow> nidle ctx U s' \<and> grows s s'" for s'
    using npost_nidle [of ctx "{}" U s s'] assms(1) unfolding npost_def by blast
  ultimately show ?thesis
    by (cases "Slot_nominate fuel ctx val previousValue timedout s") auto
qed

theorem nominate_no_failure_witness:
  "case Slot_nominate 3 solo [7] [8] False solo_start of
     Inl e \<Rightarrow> False
   | Inr (updated, s') \<Rightarrow> updated \<and> mPhase s' = SCP_PHASE_EXTERNALIZE \<and> nidle solo {[7]} s'"
proof -
  have "case Slot_nominate 3 solo [7] [8] False solo_start of
     Inl e \<Rightarrow> False | Inr (updated, s') \<Rightarrow> updated \<and> mPhase s' = SCP_PHASE_EXTERNALIZE"
    by code_simp
  moreover have "case Slot_nominate 3 solo [7] [8] False solo_start of
      Inl e \<Rightarrow> allowed e | Inr (updated, s') \<Rightarrow> nidle solo {[7]} s' \<and> grows solo_start s'"
  proof (rule nominate_no_failure [OF _ _ _ _ _ solo_qset_sane])
    show "nidle solo {[7]} solo_start" by (rule solo_nidle) simp
    let ?s = "startRound False [8] solo_start"
    have "newRoundLeaders solo (leaderQSet solo) ?s = Inr [1]" by code_simp
    then have "roundLeaders solo (leaderQSet solo) ?s 0 = {1}"
      by (rule solo_leaders) (simp add: startRound_def Let_def)
    then show "length (qset_nodes (leaderQSet solo)) < length (mRoundLeaders solo_start) \<or>
      (\<exists>k < 3. \<not> roundLeaders solo (leaderQSet solo) ?s k \<subseteq> set (mRoundLeaders solo_start))"
      by (intro disjI2 exI [of _ 0]) (simp add: solo_start_def new_Slot_def)
  qed simp_all
  ultimately show ?thesis by (auto split: sum.splits)
qed

end
