(* ===== verification/Scp_Properties.thy ===== *)
theory Scp_Properties
  imports Slot_Properties
begin

text \<open>
  The properties of \<^verbatim>\<open>SCP\<close>: its invariant, that slots do not interfere, and what the queries report.
\<close>

section \<open>The map of slots\<close>

definition scp_inv :: "scp_state \<Rightarrow> bool" where
  "scp_inv st \<longleftrightarrow> smap_ok (mKnownSlots st) \<and>
     (\<forall>i s. map_of (mKnownSlots st) i = Some s \<longrightarrow> mSlotIndex s = i \<and> idle s)"

lemma scp_invD:
  assumes "scp_inv st" "map_of (mKnownSlots st) i = Some s"
  shows "mSlotIndex s = i" "idle s"
  using assms by (simp_all add: scp_inv_def)

text \<open>The slot a call works on: the known one or a new one.\<close>

abbreviation slotOf :: "uint64 \<Rightarrow> scp_state \<Rightarrow> slot" where
  "slotOf i st \<equiv> (case map_of (mKnownSlots st) i of Some s \<Rightarrow> s | None \<Rightarrow> new_Slot i (mLocalNode st))"

lemma slotOf_inv:
  assumes "scp_inv st"
  shows "mSlotIndex (slotOf i st) = i" "idle (slotOf i st)"
  using assms by (auto simp: scp_inv_def new_Slot_def split: option.splits) (simp add: new_Slot_def [symmetric])

lemma smap_upd_twice: "smap_upd k v (smap_upd k w m) = smap_upd k v m"
  by (induction m rule: smap_upd.induct) auto

lemma withSlot_spec:
  "withSlot i f st = seq (f (slotOf i st)) (\<lambda>(r, s'). Inr (r, st\<lparr>mKnownSlots := smap_upd i s' (mKnownSlots st)\<rparr>))"
  by (cases "f (slotOf i st)")
    (auto simp: withSlot_def getSlot_def deref_def smap_upd_twice Let_def split: option.splits)

lemma scp_inv_upd:
  assumes "scp_inv st" "mSlotIndex s = i" "idle s"
  shows "scp_inv (st\<lparr>mKnownSlots := smap_upd i s (mKnownSlots st)\<rparr>)"
  using assms by (auto simp: scp_inv_def split: if_splits)

lemma scp_inv_call:
  assumes st: "scp_inv st" and call: "slot_call ctx E (slotOf i st) s'"
  shows "scp_inv (st\<lparr>mKnownSlots := smap_upd i s' (mKnownSlots st)\<rparr>)"
proof -
  have p: "bpost ctx (receivable E) (slotOf i st) s'" by (rule slot_call_bpost [OF call slotOf_inv(2) [OF st]])
  then have "advances (slotOf i st) s'"
    using reach_advances slotOf_inv(2) [OF st] by (auto simp: idle_def)
  then have "mSlotIndex s' = i" using slotOf_inv(1) [OF st, of i] by (simp add: advances_def)
  with st show ?thesis using bpost_idle [OF p slotOf_inv(2) [OF st]] by (rule scp_inv_upd)
qed

lemma map_of_dropWhile:
  "smap_ok m \<Longrightarrow> map_of (dropWhile (\<lambda>(i, s). i < k) m) j = (if j < k then None else map_of m j)"
proof (induction m)
  case (Cons p m)
  have "map_of m j = None" if "j \<le> fst p"
    using Cons.prems that by (fastforce simp: map_of_eq_None_iff)
  with Cons show ?case by (cases p) auto
qed simp

lemma smap_ok_dropWhile: "smap_ok m \<Longrightarrow> smap_ok (dropWhile P m)"
  by (induction m) auto

section \<open>Calls of the library\<close>

text \<open>One call of an entry point that returns, or the expiry of a timer of a slot.\<close>

inductive scp_call :: "scp_state \<Rightarrow> scp_state \<Rightarrow> bool" where
  received: "SCP_receiveEnvelope fuel d env st = Inr (r, st') \<Longrightarrow> scp_call st st'"
| nominated: "SCP_nominate fuel d i val prev st = Inr (b, st') \<Longrightarrow> scp_call st st'"
| stopped: "scp_call st (SCP_stopNomination i st)"
| purged: "scp_call st (SCP_purgeSlots i st)"
| updated: "scp_call st (SCP_updateLocalQuorumSet hashOf q st)"
| renominated: "map_of (mKnownSlots st) i = Some s \<Longrightarrow>
    Slot_nominate fuel (scp_context d st) val prev True s = Inr (b, s') \<Longrightarrow>
    scp_call st (st\<lparr>mKnownSlots := smap_upd i s' (mKnownSlots st)\<rparr>)"
| expired: "map_of (mKnownSlots st) i = Some s \<Longrightarrow>
    Slot_ballotProtocolTimerExpired (scp_context d st) s = Inr s' \<Longrightarrow>
    scp_call st (st\<lparr>mKnownSlots := smap_upd i s' (mKnownSlots st)\<rparr>)"

lemma receiveEnvelope_call:
  assumes "SCP_receiveEnvelope fuel d env st = Inr (r, st')"
  obtains s' where "slot_call (scp_context d st) {env} (slotOf (st_slotIndex (env_statement env)) st) s'"
    "st' = st\<lparr>mKnownSlots := smap_upd (st_slotIndex (env_statement env)) s' (mKnownSlots st)\<rparr>"
proof -
  from assms obtain s' where
    "Slot_processEnvelope fuel (scp_context d st) env False (slotOf (st_slotIndex (env_statement env)) st) = Inr (r, s')"
    "st' = st\<lparr>mKnownSlots := smap_upd (st_slotIndex (env_statement env)) s' (mKnownSlots st)\<rparr>"
    unfolding SCP_receiveEnvelope_def withSlot_spec by (auto simp: seq_Inr_iff)
  then show ?thesis using that slot_call.process [of env "{env}"] by blast
qed

lemma scp_inv_step: "scp_call st st' \<Longrightarrow> scp_inv st \<Longrightarrow> scp_inv st'"
proof (induction rule: scp_call.induct)
  case (received fuel d env st r st')
  from receiveEnvelope_call [OF received.hyps] scp_inv_call [OF received.prems] show ?case by metis
next
  case (nominated fuel d i val prev st b st')
  then obtain s' where s': "Slot_nominate fuel (scp_context d st) val prev False (slotOf i st) = Inr (b, s')"
    "st' = st\<lparr>mKnownSlots := smap_upd i s' (mKnownSlots st)\<rparr>"
    unfolding SCP_nominate_def withSlot_spec by (auto simp: seq_Inr_iff)
  then show ?case using scp_inv_call [OF nominated.prems slot_call.nominated [OF s'(1)]] by simp
next
  case (stopped st i)
  show ?case
  proof (cases "map_of (mKnownSlots st) i")
    case (Some s)
    then show ?thesis
      using scp_inv_call [OF stopped slot_call.stopped, of i] by (simp add: SCP_stopNomination_def getSlot_def)
  qed (use stopped in \<open>simp add: SCP_stopNomination_def getSlot_def\<close>)
next
  case (purged st i)
  then show ?case by (simp add: scp_inv_def SCP_purgeSlots_def map_of_dropWhile smap_ok_dropWhile)
next
  case (updated st hashOf q)
  then show ?case by (simp add: scp_inv_def SCP_updateLocalQuorumSet_def)
next
  case (renominated st i s fuel d val prev b s')
  then show ?case
    using scp_inv_call [OF renominated.prems, of "scp_context d st" UNIV i s'] slot_call.nominated [OF renominated.hyps(2)] by simp
next
  case (expired st i s d s')
  then show ?case
    using scp_inv_call [OF expired.prems, of "scp_context d st" UNIV i s'] slot_call.timer [OF expired.hyps(2)] by simp
qed

section \<open>Properties\<close>


definition solo_scp :: scp_state where
  "solo_scp = new_SCP (\<lambda>_. 9) 1 True solo_qset"

definition solo_scp_end :: scp_state where
  "solo_scp_end = snd (projr (SCP_nominate 3 solo_driver 3 [7] [8] solo_scp))"

lemma solo_scp_nominate: "SCP_nominate 3 solo_driver 3 [7] [8] solo_scp = Inr (True, solo_scp_end)"
proof -
  have "case SCP_nominate 3 solo_driver 3 [7] [8] solo_scp of Inl e \<Rightarrow> False | Inr (b, s) \<Rightarrow> b"
    by code_simp
  then show ?thesis
    by (cases "SCP_nominate 3 solo_driver 3 [7] [8] solo_scp") (auto simp: solo_scp_end_def)
qed


text \<open>C11: a received envelope changes the slot it is for and nothing else.\<close>

theorem receiveEnvelope_frame:
  assumes "scp_inv st" "SCP_receiveEnvelope fuel d env st = Inr (r, st')"
  shows "mLocalNode st' = mLocalNode st \<and> scp_inv st' \<and>
    (\<exists>s'. Slot_processEnvelope fuel (scp_context d st) env False (slotOf (st_slotIndex (env_statement env)) st) = Inr (r, s') \<and>
       map_of (mKnownSlots st') = (map_of (mKnownSlots st))(st_slotIndex (env_statement env) \<mapsto> s'))"
proof -
  let ?i = "st_slotIndex (env_statement env)"
  from assms(2) obtain s' where
    s': "Slot_processEnvelope fuel (scp_context d st) env False (slotOf ?i st) = Inr (r, s')"
    "st' = st\<lparr>mKnownSlots := smap_upd ?i s' (mKnownSlots st)\<rparr>"
    unfolding SCP_receiveEnvelope_def withSlot_spec by (auto simp: seq_Inr_iff)
  have "scp_inv st'" by (rule scp_inv_step [OF scp_call.received [OF assms(2)] assms(1)])
  moreover have "smap_ok (mKnownSlots st)" using assms(1) by (simp add: scp_inv_def)
  ultimately show ?thesis using s' by auto
qed

theorem receiveEnvelope_frame_witness:
  "\<exists>st'. SCP_receiveEnvelope 0 solo_driver solo_prepare solo_scp = Inr (VALID, st') \<and> map_of (mKnownSlots st') 4 = None"
proof -
  let ?r = "SCP_receiveEnvelope 0 solo_driver solo_prepare solo_scp"
  have "case ?r of Inl e \<Rightarrow> False | Inr (r, st') \<Rightarrow> r = VALID" by code_simp
  then obtain st' where st': "?r = Inr (VALID, st')" by (cases ?r) auto
  have "scp_inv solo_scp" by (simp add: scp_inv_def solo_scp_def new_SCP_def)
  from receiveEnvelope_frame [OF this st'] have "map_of (mKnownSlots st') 4 = None"
    by (auto simp: solo_prepare_def solo_scp_def new_SCP_def)
  with st' show ?thesis by blast
qed

text \<open>C28: purging removes exactly the slots below the bound.\<close>

theorem purgeSlots_exact:
  assumes "scp_inv st"
  shows "map_of (mKnownSlots (SCP_purgeSlots k st)) i = (if i < k then None else map_of (mKnownSlots st) i)"
  using assms by (simp add: scp_inv_def SCP_purgeSlots_def map_of_dropWhile)

theorem purgeSlots_exact_witness:
  "map_of (mKnownSlots (SCP_purgeSlots 4 solo_scp_end)) 3 = None"
proof -
  have "scp_inv solo_scp" by (simp add: scp_inv_def solo_scp_def new_SCP_def)
  then have "scp_inv solo_scp_end" by (rule scp_inv_step [OF scp_call.nominated [OF solo_scp_nominate]])
  from purgeSlots_exact [OF this, of 4 3] show ?thesis by simp
qed

lemma getStateLoop_info: "getStateLoop ks d node i st \<noteq> NO_INFO"
  by (induction ks) (auto simp: Let_def split: option.splits)

lemma classifyNode_counts:
  "fst (classifyNode d i st n q) \<and>
   mset (qi_disagree (snd (classifyNode d i st n q)) @ qi_missing (snd (classifyNode d i st n q)) @
     qi_delayed (snd (classifyNode d i st n q)) @ qi_agree (snd (classifyNode d i st n q))) =
   add_mset n (mset (qi_disagree q @ qi_missing q @ qi_delayed q @ qi_agree q))"
  using getStateLoop_info [of "[0..<NUM_SLOTS_TO_CHECK_FOR_REPORTING]" d n i st]
  by (cases "SCP_getState d n i st") (auto simp: classifyNode_def SCP_getState_def)

lemma classify_all:
  "mset (qi_disagree (fold (\<lambda>n q. snd (classifyNode d i st n q)) ns q) @
     qi_missing (fold (\<lambda>n q. snd (classifyNode d i st n q)) ns q) @
     qi_delayed (fold (\<lambda>n q. snd (classifyNode d i st n q)) ns q) @
     qi_agree (fold (\<lambda>n q. snd (classifyNode d i st n q)) ns q)) =
   mset ns + mset (qi_disagree q @ qi_missing q @ qi_delayed q @ qi_agree q)"
proof (induction ns arbitrary: q)
  case (Cons n ns)
  show ?case using Cons.IH [of "snd (classifyNode d i st n q)"] classifyNode_counts [of d i st n q] by simp
qed simp

text \<open>C27: the quorum report puts every node of the local quorum set into exactly one of its four
  classes.\<close>

theorem quorumInfo_partition:
  assumes "SCP_quorumInfo d i st = Some q"
  shows "mset (qi_disagree q @ qi_missing q @ qi_delayed q @ qi_agree q) = mset (qset_nodes (mQSet (mLocalNode st)))"
proof -
  let ?i = "if i = 0 then fst (last (mKnownSlots st)) else i"
  let ?e = "\<lparr>qi_disagree = [], qi_missing = [], qi_delayed = [], qi_agree = []\<rparr>"
  have q: "q = snd (forAllNodes (classifyNode d ?i st) (mQSet (mLocalNode st)) ?e)"
    using assms by (simp add: SCP_quorumInfo_def Let_def split: if_splits option.splits)
  have "forAllNodes (classifyNode d ?i st) (mQSet (mLocalNode st)) ?e =
      (True, fold (\<lambda>n q. snd (classifyNode d ?i st n q)) (qset_nodes (mQSet (mLocalNode st))) ?e)"
    by (rule conjunct1 [OF forAllNodes_fold [where P = "\<lambda>_. True"]]) (use classifyNode_counts in auto)
  then have "q = fold (\<lambda>n q. snd (classifyNode d ?i st n q)) (qset_nodes (mQSet (mLocalNode st))) ?e"
    unfolding q by simp
  with classify_all [of d ?i st "qset_nodes (mQSet (mLocalNode st))" ?e] show ?thesis by simp
qed

theorem quorumInfo_partition_witness:
  "\<exists>q. SCP_quorumInfo solo_driver 3 solo_scp_end = Some q \<and>
     mset (qi_disagree q @ qi_missing q @ qi_delayed q @ qi_agree q) = {#1#}"
proof -
  have "SCP_quorumInfo solo_driver 3 solo_scp_end \<noteq> None" by code_simp
  then obtain q where q: "SCP_quorumInfo solo_driver 3 solo_scp_end = Some q" by blast
  have "qset_nodes (mQSet (mLocalNode solo_scp_end)) = [1]" by code_simp
  with quorumInfo_partition [OF q] q show ?thesis by auto
qed

end
