(* ===== verification/Federated_Votes.thy ===== *)
theory Federated_Votes
  imports Ballot_Machine
begin

text \<open>
  The argument for agreement, on what the well-behaved nodes have said and accepted so far: for each
  node the ballots it ever accepted as prepared, the ballots it ever accepted as committed and the
  \<^verbatim>\<open>PREPARE\<close> statements it made.  A global invariant on these sets is kept whenever a node accepts
  something that federated voting supports and whenever it makes a statement its state allows.
\<close>

section \<open>Intact nodes\<close>

text \<open>A quorum as far as the well-behaved nodes \<open>I\<close> are concerned: \<open>W\<close> has some of them and contains a
  slice of each of them.\<close>

definition quorum_in :: "node_id set \<Rightarrow> (node_id \<Rightarrow> scp_quorum_set) \<Rightarrow> node_id set \<Rightarrow> bool" where
  "quorum_in I q W \<longleftrightarrow> W \<inter> I \<noteq> {} \<and> (\<forall>u \<in> W \<inter> I. sat W (q u))"

text \<open>The assumption on the network: every well-behaved node has a sane quorum set, can be satisfied by
  the well-behaved nodes and not without them, and any two quorums share a well-behaved node.\<close>

definition intact :: "node_id set \<Rightarrow> (node_id \<Rightarrow> scp_quorum_set) \<Rightarrow> bool" where
  "intact I q \<longleftrightarrow>
     (\<forall>u \<in> I. isQuorumSetSane (q u) False \<and> sat I (q u) \<and> \<not> sat (- I) (q u)) \<and>
     (\<forall>U W. quorum_in I q U \<longrightarrow> quorum_in I q W \<longrightarrow> U \<inter> W \<inter> I \<noteq> {})"

lemma intact_meet:
  assumes "intact I q" "quorum_in I q U" "quorum_in I q W"
  obtains z where "z \<in> U" "z \<in> W" "z \<in> I"
  using assms unfolding intact_def by blast

section \<open>Votes\<close>

text \<open>\<open>P u\<close> and \<open>C u\<close> are the ballots \<open>u\<close> accepted as prepared and as committed, \<open>S u\<close> its \<^verbatim>\<open>PREPARE\<close>
  statements.\<close>

type_synonym ballots = "node_id \<Rightarrow> scp_ballot set"

abbreviation below :: "scp_ballot \<Rightarrow> scp_ballot \<Rightarrow> bool" where
  "below a b \<equiv> counter a \<le> counter b \<and> bvalue a = bvalue b"

definition prepared :: "node_id set \<Rightarrow> ballots \<Rightarrow> scp_ballot \<Rightarrow> bool" where
  "prepared I P b \<longleftrightarrow> (\<exists>u \<in> I. \<exists>x \<in> P u. below b x)"

definition committed :: "node_id set \<Rightarrow> ballots \<Rightarrow> scp_ballot \<Rightarrow> bool" where
  "committed I C c \<longleftrightarrow> (\<exists>u \<in> I. c \<in> C u)"

definition votes_prepare :: "(node_id \<Rightarrow> scp_prepare set) \<Rightarrow> node_id \<Rightarrow> scp_ballot \<Rightarrow> bool" where
  "votes_prepare S z b \<longleftrightarrow> (\<exists>p \<in> S z. below b (prep_ballot p))"

definition commits_to :: "scp_prepare \<Rightarrow> scp_ballot \<Rightarrow> bool" where
  "commits_to p c \<longleftrightarrow>
     bvalue (prep_ballot p) = bvalue c \<and> prep_nC p \<noteq> 0 \<and> prep_nC p \<le> counter c \<and> counter c \<le> prep_nH p"

definition votes_commit :: "(node_id \<Rightarrow> scp_prepare set) \<Rightarrow> node_id \<Rightarrow> scp_ballot \<Rightarrow> bool" where
  "votes_commit S z c \<longleftrightarrow> (\<exists>p \<in> S z. commits_to p c)"

text \<open>\<open>conflicts b c\<close>: preparing \<open>b\<close> aborts \<open>c\<close>.\<close>

abbreviation conflicts :: "scp_ballot \<Rightarrow> scp_ballot \<Rightarrow> bool" where
  "conflicts b c \<equiv> c < b \<and> bvalue b \<noteq> bvalue c"

definition aborted :: "node_id set \<Rightarrow> ballots \<Rightarrow> scp_ballot \<Rightarrow> bool" where
  "aborted I P c \<longleftrightarrow> (\<exists>b. prepared I P b \<and> conflicts b c)"

definition votes_abort :: "(node_id \<Rightarrow> scp_prepare set) \<Rightarrow> node_id \<Rightarrow> scp_ballot \<Rightarrow> bool" where
  "votes_abort S z c \<longleftrightarrow> (\<exists>p \<in> S z. conflicts (prep_ballot p) c)"

section \<open>The global invariant\<close>

definition votes_inv ::
  "node_id set \<Rightarrow> (node_id \<Rightarrow> scp_quorum_set) \<Rightarrow> ballots \<Rightarrow> ballots \<Rightarrow> (node_id \<Rightarrow> scp_prepare set) \<Rightarrow> bool" where
  "votes_inv I q P C S \<longleftrightarrow>
     (\<forall>c. committed I C c \<longrightarrow> \<not> aborted I P c) \<and>
     (\<forall>c d. committed I C c \<longrightarrow> committed I C d \<longrightarrow> bvalue c = bvalue d) \<and>
     (\<forall>c. committed I C c \<longrightarrow>
        (\<exists>d U. committed I C d \<and> below d c \<and> prepared I P d \<and> quorum_in I q U \<and>
           (\<forall>z \<in> U \<inter> I. votes_commit S z d))) \<and>
     (\<forall>z \<in> I. \<forall>c. votes_commit S z c \<longrightarrow>
        prepared I P c \<or> (\<exists>d. committed I C d \<and> bvalue d = bvalue c)) \<and>
     (\<forall>z \<in> I. \<forall>c. votes_commit S z c \<longrightarrow> votes_abort S z c \<longrightarrow> aborted I P c) \<and>
     (\<forall>c. aborted I P c \<longrightarrow>
        (\<exists>W. quorum_in I q W \<and> (\<forall>z \<in> W \<inter> I. votes_abort S z c \<and> \<not> votes_commit S z c)) \<or>
        (\<exists>d. committed I C d \<and> bvalue d \<noteq> bvalue c \<and> d < c))"

lemma votes_invD:
  assumes "votes_inv I q P C S"
  shows inv_safe: "committed I C c \<Longrightarrow> \<not> aborted I P c"
    and inv_agree: "committed I C c \<Longrightarrow> committed I C d \<Longrightarrow> bvalue c = bvalue d"
    and inv_root: "committed I C c \<Longrightarrow>
      \<exists>d U. committed I C d \<and> below d c \<and> prepared I P d \<and> quorum_in I q U \<and> (\<forall>z \<in> U \<inter> I. votes_commit S z d)"
    and inv_vote: "z \<in> I \<Longrightarrow> votes_commit S z c \<Longrightarrow>
      prepared I P c \<or> (\<exists>d. committed I C d \<and> bvalue d = bvalue c)"
    and inv_retract: "z \<in> I \<Longrightarrow> votes_commit S z c \<Longrightarrow> votes_abort S z c \<Longrightarrow> aborted I P c"
    and inv_blocked: "aborted I P c \<Longrightarrow>
      (\<exists>W. quorum_in I q W \<and> (\<forall>z \<in> W \<inter> I. votes_abort S z c \<and> \<not> votes_commit S z c)) \<or>
      (\<exists>d. committed I C d \<and> bvalue d \<noteq> bvalue c \<and> d < c)"
  using assms unfolding votes_inv_def by blast+

lemma votes_inv_init: "votes_inv I q (\<lambda>_. {}) (\<lambda>_. {}) (\<lambda>_. {})"
  by (simp add: votes_inv_def committed_def prepared_def aborted_def votes_commit_def)

lemma below_le: "below a b \<Longrightarrow> a \<le> b"
  by (auto simp: less_eq_scp_ballot_def)

lemma below_less: "below a b \<Longrightarrow> c < a \<Longrightarrow> c < b"
  using below_le by (rule less_le_trans [rotated]) auto

lemma prepared_below: "prepared I P b \<Longrightarrow> below a b \<Longrightarrow> prepared I P a"
  unfolding prepared_def by (metis order_trans)

lemma prepared_mono: "prepared I P b \<Longrightarrow> (\<And>u. P u \<subseteq> P' u) \<Longrightarrow> prepared I P' b"
  unfolding prepared_def by blast

lemma aborted_mono: "aborted I P c \<Longrightarrow> (\<And>u. P u \<subseteq> P' u) \<Longrightarrow> aborted I P' c"
  unfolding aborted_def using prepared_mono by metis

lemma prepared_insert:
  "prepared I (P(v := insert x (P v))) b \<longleftrightarrow> prepared I P b \<or> v \<in> I \<and> below b x"
  by (auto simp: prepared_def)

lemma committed_insert:
  "committed I (C(v := insert x (C v))) c \<longleftrightarrow> committed I C c \<or> v \<in> I \<and> c = x"
  by (auto simp: committed_def)

lemma votes_insert:
  "votes_commit (S(v := insert p (S v))) z c \<longleftrightarrow> votes_commit S z c \<or> z = v \<and> commits_to p c"
  "votes_abort (S(v := insert p (S v))) z c \<longleftrightarrow> votes_abort S z c \<or> z = v \<and> conflicts (prep_ballot p) c"
  by (auto simp: votes_commit_def votes_abort_def)

lemma aborted_insert:
  "aborted I (P(v := insert x (P v))) c \<longleftrightarrow> aborted I P c \<or> v \<in> I \<and> conflicts x c"
proof -
  have "\<exists>b. below b x \<and> conflicts b c" if "conflicts x c" using that by blast
  moreover have "conflicts x c" if "below b x" "conflicts b c" for b using that below_less by auto
  ultimately show ?thesis unfolding aborted_def prepared_insert by blast
qed

section \<open>Accepting as prepared\<close>

text \<open>What federated voting gives when a node accepts a ballot as prepared.\<close>

definition prepare_support ::
  "node_id set \<Rightarrow> (node_id \<Rightarrow> scp_quorum_set) \<Rightarrow> ballots \<Rightarrow> ballots \<Rightarrow> (node_id \<Rightarrow> scp_prepare set) \<Rightarrow> scp_ballot \<Rightarrow> bool" where
  "prepare_support I q P C S x \<longleftrightarrow>
     prepared I P x \<or> (\<exists>d. committed I C d \<and> bvalue d = bvalue x) \<or>
     (\<exists>W. quorum_in I q W \<and> (\<forall>z \<in> W \<inter> I. votes_prepare S z x))"

lemma votes_prepare_abort: "votes_prepare S z x \<Longrightarrow> conflicts x c \<Longrightarrow> votes_abort S z c"
  unfolding votes_prepare_def votes_abort_def using below_less by metis

lemma prepare_safe:
  assumes q: "intact I q" and inv: "votes_inv I q P C S" and sup: "prepare_support I q P C S x"
    and c: "committed I C c"
  shows "\<not> conflicts x c"
proof
  assume x: "conflicts x c"
  from sup consider "prepared I P x" | d where "committed I C d" "bvalue d = bvalue x"
    | W where "quorum_in I q W" "\<forall>z \<in> W \<inter> I. votes_prepare S z x"
    unfolding prepare_support_def by blast
  then show False
  proof cases
    case 1
    with x have "aborted I P c" unfolding aborted_def by blast
    with inv_safe [OF inv c] show False ..
  next
    case 2
    with inv_agree [OF inv c 2(1)] x show False by simp
  next
    case 3
    from inv_root [OF inv c] obtain d U where d: "committed I C d" "below d c" "quorum_in I q U"
      "\<forall>z \<in> U \<inter> I. votes_commit S z d" by blast
    obtain z where z: "z \<in> U" "z \<in> W" "z \<in> I" by (rule intact_meet [OF q d(3) 3(1)])
    have "conflicts x d" using x d(2) below_le [of d c] by auto
    then have "votes_abort S z d" using votes_prepare_abort 3(2) z by blast
    with d(4) z have "aborted I P d" using inv_retract [OF inv z(3)] by blast
    with inv_safe [OF inv d(1)] show False ..
  qed
qed

lemma prepare_blocks:
  assumes inv: "votes_inv I q P C S" and sup: "prepare_support I q P C S x"
    and new: "\<not> aborted I P c" and x: "conflicts x c"
  shows "(\<exists>W. quorum_in I q W \<and> (\<forall>z \<in> W \<inter> I. votes_abort S z c \<and> \<not> votes_commit S z c)) \<or>
     (\<exists>d. committed I C d \<and> bvalue d \<noteq> bvalue c \<and> d < c)"
proof -
  from sup consider "prepared I P x" | d where "committed I C d" "bvalue d = bvalue x"
    | W where "quorum_in I q W" "\<forall>z \<in> W \<inter> I. votes_prepare S z x"
    unfolding prepare_support_def by blast
  then show ?thesis
  proof cases
    case 1
    with x have "aborted I P c" unfolding aborted_def by blast
    with new show ?thesis ..
  next
    case 2
    from inv_root [OF inv 2(1)] obtain d' where d': "committed I C d'" "below d' d" "prepared I P d'" by blast
    then have v: "bvalue d' \<noteq> bvalue c" using 2(2) x by simp
    have "\<not> c < d'" using new d'(3) v unfolding aborted_def by blast
    with v have "d' < c" by (metis not_less_iff_gr_or_eq)
    with d'(1) v show ?thesis by blast
  next
    case 3
    have "votes_abort S z c \<and> \<not> votes_commit S z c" if z: "z \<in> W \<inter> I" for z
    proof -
      have a: "votes_abort S z c" using votes_prepare_abort x 3(2) z by blast
      with new show ?thesis using inv_retract [OF inv, of z c] z by blast
    qed
    with 3(1) show ?thesis by blast
  qed
qed

lemma votes_inv_prepare:
  assumes q: "intact I q" and inv: "votes_inv I q P C S" and v: "v \<in> I"
    and sup: "prepare_support I q P C S x"
  shows "votes_inv I q (P(v := insert x (P v))) C S"
  unfolding votes_inv_def aborted_insert prepared_insert
proof (intro conjI allI ballI impI)
  fix c d
  assume c: "committed I C c"
  show "\<not> (aborted I P c \<or> v \<in> I \<and> conflicts x c)"
    using inv_safe [OF inv c] prepare_safe [OF q inv sup c] by blast
  show "bvalue c = bvalue d" if "committed I C d" using inv_agree [OF inv c that] .
  show "\<exists>d U. committed I C d \<and> below d c \<and> (prepared I P d \<or> v \<in> I \<and> below d x) \<and> quorum_in I q U \<and>
      (\<forall>z \<in> U \<inter> I. votes_commit S z d)"
    using inv_root [OF inv c] by blast
next
  fix z c
  assume z: "z \<in> I" and c: "votes_commit S z c"
  show "(prepared I P c \<or> v \<in> I \<and> below c x) \<or> (\<exists>d. committed I C d \<and> bvalue d = bvalue c)"
    using inv_vote [OF inv z c] by blast
  show "aborted I P c \<or> v \<in> I \<and> conflicts x c" if "votes_abort S z c"
    using inv_retract [OF inv z c that] by blast
next
  fix c
  assume "aborted I P c \<or> v \<in> I \<and> conflicts x c"
  then show "(\<exists>W. quorum_in I q W \<and> (\<forall>z \<in> W \<inter> I. votes_abort S z c \<and> \<not> votes_commit S z c)) \<or>
     (\<exists>d. committed I C d \<and> bvalue d \<noteq> bvalue c \<and> d < c)"
    using inv_blocked [OF inv, of c] prepare_blocks [OF inv sup, of c] by blast
qed

section \<open>Accepting as committed\<close>

text \<open>What federated voting gives when a node accepts a ballot as committed.\<close>

definition commit_support ::
  "node_id set \<Rightarrow> (node_id \<Rightarrow> scp_quorum_set) \<Rightarrow> ballots \<Rightarrow> (node_id \<Rightarrow> scp_prepare set) \<Rightarrow> scp_ballot \<Rightarrow> bool" where
  "commit_support I q C S c \<longleftrightarrow>
     (\<exists>d. committed I C d \<and> below d c) \<or> (\<exists>W. quorum_in I q W \<and> (\<forall>z \<in> W \<inter> I. votes_commit S z c))"

lemma aborted_below: "aborted I P c \<Longrightarrow> below d c \<Longrightarrow> aborted I P d"
  unfolding aborted_def using below_le le_less_trans by metis

lemma quorum_prepared:
  assumes inv: "votes_inv I q P C S" and W: "quorum_in I q W" "\<forall>z \<in> W \<inter> I. votes_commit S z c"
  shows "prepared I P c \<or> (\<exists>d. committed I C d \<and> bvalue d = bvalue c)"
proof -
  from W(1) obtain z where "z \<in> W \<inter> I" unfolding quorum_in_def by blast
  with W(2) show ?thesis using inv_vote [OF inv, of z c] by blast
qed

lemma commit_safe:
  assumes q: "intact I q" and inv: "votes_inv I q P C S" and sup: "commit_support I q C S c"
  shows "\<not> aborted I P c"
proof
  assume a: "aborted I P c"
  from sup consider d where "committed I C d" "below d c"
    | W where "quorum_in I q W" "\<forall>z \<in> W \<inter> I. votes_commit S z c"
    unfolding commit_support_def by blast
  then show False
  proof cases
    case 1
    with aborted_below [OF a 1(2)] inv_safe [OF inv 1(1)] show False by blast
  next
    case 2
    from inv_blocked [OF inv a] show False
    proof
      assume "\<exists>U. quorum_in I q U \<and> (\<forall>z \<in> U \<inter> I. votes_abort S z c \<and> \<not> votes_commit S z c)"
      then obtain U where U: "quorum_in I q U" "\<forall>z \<in> U \<inter> I. \<not> votes_commit S z c" by blast
      obtain z where "z \<in> U" "z \<in> W" "z \<in> I" by (rule intact_meet [OF q U(1) 2(1)])
      with U(2) 2(2) show False by blast
    next
      assume "\<exists>d. committed I C d \<and> bvalue d \<noteq> bvalue c \<and> d < c"
      then obtain d where d: "committed I C d" "bvalue d \<noteq> bvalue c" "d < c" by blast
      from quorum_prepared [OF inv 2] show False
      proof
        assume "prepared I P c"
        with d have "aborted I P d" unfolding aborted_def by metis
        with inv_safe [OF inv d(1)] show False ..
      next
        assume "\<exists>d. committed I C d \<and> bvalue d = bvalue c"
        with d show False using inv_agree [OF inv] by metis
      qed
    qed
  qed
qed

lemma commit_agrees:
  assumes q: "intact I q" and inv: "votes_inv I q P C S" and sup: "commit_support I q C S c"
    and d: "committed I C d"
  shows "bvalue d = bvalue c"
proof (rule ccontr)
  assume ne: "bvalue d \<noteq> bvalue c"
  have no: "\<not> (committed I C e \<and> bvalue e = bvalue c)" for e using inv_agree [OF inv d, of e] ne by auto
  with sup obtain W where W: "quorum_in I q W" "\<forall>z \<in> W \<inter> I. votes_commit S z c"
    unfolding commit_support_def by metis
  from quorum_prepared [OF inv W] no have c: "prepared I P c" by blast
  from inv_root [OF inv d] obtain d' where d': "committed I C d'" "below d' d" "prepared I P d'" by blast
  then have v: "bvalue d' \<noteq> bvalue c" using ne by simp
  have "\<not> d' < c" using inv_safe [OF inv d'(1)] c v unfolding aborted_def by metis
  moreover have "\<not> c < d'" using commit_safe [OF q inv sup] d'(3) v unfolding aborted_def by metis
  ultimately show False using v by (metis not_less_iff_gr_or_eq)
qed

lemma commit_root:
  assumes inv: "votes_inv I q P C S" and sup: "commit_support I q C S c"
  shows "\<exists>d U. (committed I C d \<or> d = c) \<and> below d c \<and> prepared I P d \<and> quorum_in I q U \<and>
    (\<forall>z \<in> U \<inter> I. votes_commit S z d)"
proof -
  from sup consider d where "committed I C d" "below d c"
    | W where "quorum_in I q W" "\<forall>z \<in> W \<inter> I. votes_commit S z c"
    unfolding commit_support_def by blast
  then show ?thesis
  proof cases
    case 1
    from inv_root [OF inv 1(1)] obtain d' U where "committed I C d'" "below d' d" "prepared I P d'"
      "quorum_in I q U" "\<forall>z \<in> U \<inter> I. votes_commit S z d'" by blast
    moreover from this 1(2) have "below d' c" by auto
    ultimately show ?thesis by blast
  next
    case 2
    show ?thesis
    proof (cases "prepared I P c")
      case True
      with 2 show ?thesis by blast
    next
      case False
      with quorum_prepared [OF inv 2] obtain d where d: "committed I C d" "bvalue d = bvalue c" by blast
      from inv_root [OF inv d(1)] obtain d' U where d': "committed I C d'" "below d' d" "prepared I P d'"
        "quorum_in I q U" "\<forall>z \<in> U \<inter> I. votes_commit S z d'" by blast
      have "\<not> below c d'" using False prepared_below [OF d'(3), of c] by blast
      with d' d(2) have "below d' c" by auto
      with d' show ?thesis by blast
    qed
  qed
qed

lemma votes_inv_commit:
  assumes q: "intact I q" and inv: "votes_inv I q P C S" and v: "v \<in> I"
    and sup: "commit_support I q C S x"
  shows "votes_inv I q P (C(v := insert x (C v))) S"
  unfolding votes_inv_def committed_insert
proof (intro conjI allI ballI impI)
  fix c
  assume c: "committed I C c \<or> v \<in> I \<and> c = x"
  show "\<not> aborted I P c" using c inv_safe [OF inv] commit_safe [OF q inv sup] by blast
  show "bvalue c = bvalue d" if d: "committed I C d \<or> v \<in> I \<and> d = x" for d
    using c d inv_agree [OF inv] commit_agrees [OF q inv sup] by metis
  show "\<exists>d U. (committed I C d \<or> v \<in> I \<and> d = x) \<and> below d c \<and> prepared I P d \<and> quorum_in I q U \<and>
      (\<forall>z \<in> U \<inter> I. votes_commit S z d)"
    using c
  proof
    assume "committed I C c"
    from inv_root [OF inv this] show ?thesis by blast
  next
    assume "v \<in> I \<and> c = x"
    with commit_root [OF inv sup] show ?thesis by blast
  qed
next
  fix z c
  assume z: "z \<in> I" and c: "votes_commit S z c"
  show "prepared I P c \<or> (\<exists>d. (committed I C d \<or> v \<in> I \<and> d = x) \<and> bvalue d = bvalue c)"
    using inv_vote [OF inv z c] by blast
  show "aborted I P c" if "votes_abort S z c" using inv_retract [OF inv z c that] .
next
  fix c
  assume "aborted I P c"
  from inv_blocked [OF inv this]
  show "(\<exists>W. quorum_in I q W \<and> (\<forall>z \<in> W \<inter> I. votes_abort S z c \<and> \<not> votes_commit S z c)) \<or>
     (\<exists>d. (committed I C d \<or> v \<in> I \<and> d = x) \<and> bvalue d \<noteq> bvalue c \<and> d < c)" by blast
qed

section \<open>Making a statement\<close>

lemma votes_inv_say:
  assumes inv: "votes_inv I q P C S" and v: "v \<in> I"
    and vote: "\<And>c. commits_to p c \<Longrightarrow> prepared I P c \<or> (\<exists>d. committed I C d \<and> bvalue d = bvalue c)"
    and old: "\<And>c. votes_commit S v c \<Longrightarrow> conflicts (prep_ballot p) c \<Longrightarrow> aborted I P c"
    and new: "\<And>c. commits_to p c \<Longrightarrow> \<not> votes_abort S v c"
  shows "votes_inv I q P C (S(v := insert p (S v)))"
proof -
  have self: "\<not> (commits_to p c \<and> conflicts (prep_ballot p) c)" for c by (auto simp: commits_to_def)
  show ?thesis
    unfolding votes_inv_def votes_insert
  proof (intro conjI allI ballI impI)
    fix c d
    assume c: "committed I C c"
    show "\<not> aborted I P c" using inv_safe [OF inv c] .
    show "bvalue c = bvalue d" if "committed I C d" using inv_agree [OF inv c that] .
    show "\<exists>d U. committed I C d \<and> below d c \<and> prepared I P d \<and> quorum_in I q U \<and>
        (\<forall>z \<in> U \<inter> I. votes_commit S z d \<or> z = v \<and> commits_to p d)"
      using inv_root [OF inv c] by blast
  next
    fix z c
    assume z: "z \<in> I" and c: "votes_commit S z c \<or> z = v \<and> commits_to p c"
    show "prepared I P c \<or> (\<exists>d. committed I C d \<and> bvalue d = bvalue c)"
      using c inv_vote [OF inv z] vote by blast
    show "aborted I P c" if "votes_abort S z c \<or> z = v \<and> conflicts (prep_ballot p) c"
      using c that inv_retract [OF inv z] old new self by blast
  next
    fix c
    assume "aborted I P c"
    from inv_blocked [OF inv this]
    show "(\<exists>W. quorum_in I q W \<and> (\<forall>z \<in> W \<inter> I.
        (votes_abort S z c \<or> z = v \<and> conflicts (prep_ballot p) c) \<and>
        \<not> (votes_commit S z c \<or> z = v \<and> commits_to p c))) \<or>
     (\<exists>d. committed I C d \<and> bvalue d \<noteq> bvalue c \<and> d < c)"
      using new by blast
  qed
qed

end
