(* ===== verification/Network.thy ===== *)
theory Network
  imports Federated_Votes
begin

text \<open>
  A network of nodes that run the ballot protocol on one slot.  The nodes in \<open>I\<close> take steps of the
  abstract machine; all others may send anything, as long as they cannot forge the statements of
  the nodes in \<open>I\<close>.  \<open>Network_Steps\<close> shows that the invariant defined here is kept.
\<close>

section \<open>Statements of a node\<close>

text \<open>What a node has said: its own statements in the history of its slot.\<close>

definition said :: "node_id \<Rightarrow> slot \<Rightarrow> ballot_statement set" where
  "said u s = {st. st_nodeID st = u \<and> map_statement BALLOT st \<in> fst ` set (mStatementsHistory s)}"

definition prepares :: "node_id \<Rightarrow> slot \<Rightarrow> scp_prepare set" where
  "prepares u s = {p. \<exists>st \<in> said u s. st_pledges st = PREPARE p}"

lemma said_core: "same_core s s' \<Longrightarrow> said u s' = said u s"
proof -
  have hist: "map_statement BALLOT st \<in> fst ` set (mStatementsHistory s) \<longleftrightarrow>
      map_statement BALLOT st \<in> fst ` set (ballotHistory s)" for st s
    by (force simp: image_iff)
  assume "same_core s s'"
  then have "ballotHistory s' = ballotHistory s" by (simp add: same_core_def)
  then show ?thesis unfolding said_def hist by simp
qed

lemma said_record:
  "said u (recordEnvelope e s) =
     said u s \<union> (if st_nodeID (env_statement e) = u then {env_statement e} else {})"
proof -
  have "map_statement BALLOT x = map_statement BALLOT y \<longleftrightarrow> x = y" for x y
    using map_statement_inj [of BALLOT] by (auto simp: inj_def)
  then show ?thesis by (auto simp: said_def)
qed

lemma said_history:
  "mStatementsHistory s' = mStatementsHistory s \<Longrightarrow> said u s' = said u s"
  by (simp add: said_def)

text \<open>A statement of a node agrees with what the node has accepted.\<close>

definition said_ok :: "local_node \<Rightarrow> scp_ballot set \<Rightarrow> scp_ballot set \<Rightarrow> ballot_statement \<Rightarrow> bool" where
  "said_ok ln P C st \<longleftrightarrow>
     (case st_pledges st of
        PREPARE p \<Rightarrow> prep_quorumSetHash p = mQSetHash ln \<and>
          set_option (prep_prepared p) \<union> set_option (prep_preparedPrime p) \<subseteq> P
      | CONFIRM c \<Rightarrow> SCPBallot (conf_nCommit c) (bvalue (conf_ballot c)) \<in> C
      | EXTERNALIZE e \<Rightarrow> ext_commit e \<in> C)"

definition is_prepare :: "ballot_statement \<Rightarrow> bool" where
  "is_prepare st \<longleftrightarrow> (case st_pledges st of PREPARE p \<Rightarrow> True | CONFIRM c \<Rightarrow> False | EXTERNALIZE e \<Rightarrow> False)"

text \<open>The envelopes a node holds are stored under their sender, and those of the nodes in \<open>I\<close> have been
  said.\<close>

definition messages_ok :: "node_id set \<Rightarrow> (node_id \<Rightarrow> ballot_statement set) \<Rightarrow> ballot_pledges env_map \<Rightarrow> bool" where
  "messages_ok I X m \<longleftrightarrow>
     (\<forall>(u, e) \<in> set m. st_nodeID (env_statement e) = u \<and> (u \<in> I \<longrightarrow> env_statement e \<in> X u))"

text \<open>What a driver answers for the quorum sets of the nodes in \<open>I\<close>: it may not know them yet, but it
  never takes one for another.\<close>

definition knows :: "node_id set \<Rightarrow> (node_id \<Rightarrow> local_node) \<Rightarrow> driver \<Rightarrow> bool" where
  "knows I ln d \<longleftrightarrow> (\<forall>u \<in> I. \<forall>q. getQSet d (mQSetHash (ln u)) = Some q \<longrightarrow> q = mQSet (ln u))"

section \<open>Federated voting among intact nodes\<close>

lemma vblocking_intact:
  assumes q: "intact I (mQSet \<circ> ln)" and v: "v \<in> I" and m: "messages_ok I X m"
    and block: "isVBlocking_map (mQSet (ln v)) m flt"
  shows "\<exists>u \<in> I. \<exists>st \<in> X u. flt st"
proof -
  have v_ok: "isQuorumSetSane (mQSet (ln v)) False" "sat I (mQSet (ln v))"
    using q v by (auto simp: intact_def)
  have "\<not> sat (- set (filterNodes m flt)) (mQSet (ln v))"
    using block isVBlocking_dual [OF sane_wf_qset [OF v_ok(1)]] by (simp add: isVBlocking_map_def)
  then have "\<not> I \<subseteq> - set (filterNodes m flt)" using v_ok(2) sat_mono by blast
  then obtain u e where u: "u \<in> I" "(u, e) \<in> set m" "flt (env_statement e)"
    by (auto simp: filterNodes_def)
  with m have "env_statement e \<in> X u" by (auto simp: messages_ok_def)
  with u show ?thesis by blast
qed

lemma quorum_intact:
  assumes q: "intact I (mQSet \<circ> ln)" and v: "v \<in> I" and m: "messages_ok I X m" "smap_ok m"
    and d: "knows I ln (ctx_driver ctx)"
    and said: "\<And>u st. u \<in> I \<Longrightarrow> st \<in> X u \<Longrightarrow> said_ok (ln u) (P u) (C u) st"
    and quorum: "isQuorum (mQSet (ln v)) m (\<lambda>st. getQuorumSetFromStatement ctx (map_statement BALLOT st)) flt"
  shows "(\<exists>u \<in> I. \<exists>st \<in> X u. flt st \<and> \<not> is_prepare st) \<or>
    (\<exists>W. quorum_in I (mQSet \<circ> ln) W \<and>
       (\<forall>z \<in> W \<inter> I. \<exists>st p. st \<in> X z \<and> st_pledges st = PREPARE p \<and> flt st))"
proof -
  let ?qf = "\<lambda>st. getQuorumSetFromStatement ctx (map_statement BALLOT st)"
  obtain W where W: "set W \<subseteq> set (filterNodes m flt)" "\<forall>w \<in> set W. quorumFilter m ?qf W w"
    "isQuorumSlice (mQSet (ln v)) W"
    using quorum unfolding isQuorum_iff by blast
  have msg: "\<exists>e. map_of m z = Some e \<and> env_statement e \<in> X z \<and> flt (env_statement e)" if z: "z \<in> set W \<inter> I" for z
  proof -
    obtain e where e: "(z, e) \<in> set m" "flt (env_statement e)" using W(1) z by (auto simp: filterNodes_def)
    moreover have "map_of m z = Some e" using e(1) smap_mem_iff [OF m(2)] by blast
    moreover have "env_statement e \<in> X z" using m(1) e(1) z by (auto simp: messages_ok_def)
    ultimately show ?thesis by blast
  qed
  show ?thesis
  proof (cases "\<exists>u \<in> I. \<exists>st \<in> X u. flt st \<and> \<not> is_prepare st")
    case False
    have z_ok: "\<exists>st p. st \<in> X z \<and> st_pledges st = PREPARE p \<and> flt st \<and> sat (set W) (mQSet (ln z))"
      if z: "z \<in> set W \<inter> I" for z
    proof -
      from msg [OF z] obtain e where e: "map_of m z = Some e" "env_statement e \<in> X z" "flt (env_statement e)" by blast
      with False z have "is_prepare (env_statement e)" by blast
      then obtain p where p: "st_pledges (env_statement e) = PREPARE p"
        by (auto simp: is_prepare_def split: ballot_pledges.splits)
      from said [OF _ e(2)] z p have h: "prep_quorumSetHash p = mQSetHash (ln z)" by (auto simp: said_ok_def)
      have "quorumFilter m ?qf W z" using W(2) z by blast
      then obtain qz where qz: "getQSet (ctx_driver ctx) (mQSetHash (ln z)) = Some qz" "isQuorumSlice qz W"
        using e(1) p h by (auto simp: quorumFilter_def getQuorumSetFromStatement_def split: option.splits)
      then have "sat (set W) (mQSet (ln z))" using d z by (auto simp: knows_def isQuorumSlice_sat)
      with e p show ?thesis by blast
    qed
    have "\<not> set W \<subseteq> - I"
      using sat_mono [of "set W" "mQSet (ln v)" "- I"] W(3) q v by (auto simp: intact_def isQuorumSlice_sat)
    then have "set W \<inter> I \<noteq> {}" by blast
    then have "quorum_in I (mQSet \<circ> ln) (set W)" using z_ok by (auto simp: quorum_in_def)
    with z_ok show ?thesis by blast
  qed simp
qed

text \<open>The supports of the four kinds of acceptance.\<close>

lemma said_has_prepared:
  assumes "u \<in> I" "said_ok l (P u) (C u) st" "hasPreparedBallot x st"
  shows "prepared I P x \<or> (\<exists>d. committed I C d \<and> bvalue d = bvalue x)"
proof (cases "st_pledges st")
  case (PREPARE p)
  then obtain y where "y \<in> P u" "below x y"
    using assms(2,3) by (auto simp: said_ok_def hasPreparedBallot_def lessAndCompatible_iff split: option.splits)
  with assms(1) show ?thesis by (auto simp: prepared_def)
next
  case (CONFIRM c)
  then have "committed I C (SCPBallot (conf_nCommit c) (bvalue (conf_ballot c)))" "bvalue (conf_ballot c) = bvalue x"
    using assms by (auto simp: said_ok_def hasPreparedBallot_def ballot_iffs committed_def)
  then show ?thesis by force
next
  case (EXTERNALIZE e)
  then have "committed I C (ext_commit e)" "bvalue (ext_commit e) = bvalue x"
    using assms by (auto simp: said_ok_def hasPreparedBallot_def ballot_iffs committed_def)
  then show ?thesis by blast
qed

lemma said_votes_prepare:
  assumes "u \<in> I" "said_ok l (P u) (C u) st" "votesPrepare x st" "\<not> is_prepare st"
  shows "\<exists>d. committed I C d \<and> bvalue d = bvalue x"
proof (cases "st_pledges st")
  case (CONFIRM c)
  then have "committed I C (SCPBallot (conf_nCommit c) (bvalue (conf_ballot c)))" "bvalue (conf_ballot c) = bvalue x"
    using assms by (auto simp: said_ok_def votesPrepare_def ballot_iffs committed_def)
  then show ?thesis by force
next
  case (EXTERNALIZE e)
  then have "committed I C (ext_commit e)" "bvalue (ext_commit e) = bvalue x"
    using assms by (auto simp: said_ok_def votesPrepare_def ballot_iffs committed_def)
  then show ?thesis by blast
qed (use assms(4) in \<open>simp add: is_prepare_def\<close>)

lemma said_commits:
  assumes "u \<in> I" "said_ok l (P u) (C u) st" "commitPredicate (SCPBallot n x) (lo, hi) st \<or>
    votesCommit (SCPBallot n x) (lo, hi) st \<and> \<not> is_prepare st"
  shows "\<exists>d. committed I C d \<and> below d (SCPBallot lo x)"
proof (cases "st_pledges st")
  case (CONFIRM c)
  then have "committed I C (SCPBallot (conf_nCommit c) x)" "conf_nCommit c \<le> lo"
    using assms by (auto simp: said_ok_def commitPredicate_def votesCommit_def areBallotsCompatible_def committed_def)
  then show ?thesis by force
next
  case (EXTERNALIZE e)
  then have "committed I C (ext_commit e)" "counter (ext_commit e) \<le> lo" "bvalue (ext_commit e) = x"
    using assms by (auto simp: said_ok_def commitPredicate_def votesCommit_def areBallotsCompatible_def committed_def)
  then show ?thesis by force
qed (use assms(3) in \<open>simp add: is_prepare_def commitPredicate_def\<close>)

lemma said_votes_commit:
  assumes "st_pledges st = PREPARE p" "votesCommit (SCPBallot n x) (lo, hi) st" "lo \<le> hi"
  shows "commits_to p (SCPBallot lo x)"
  using assms by (auto simp: votesCommit_def commits_to_def areBallotsCompatible_def)

section \<open>States of the network\<close>

text \<open>The slots of the nodes, and as history variables the ballots each node ever held as \<open>p\<close> or \<open>p'\<close> and
  those it ever held as \<open>c\<close> after accepting a commit.\<close>

record network =
  slots :: "node_id \<Rightarrow> slot"
  everPrepared :: ballots
  everCommitted :: ballots

abbreviation saidBy :: "network \<Rightarrow> node_id \<Rightarrow> ballot_statement set" where
  "saidBy N u \<equiv> said u (slots N u)"

abbreviation preparesBy :: "network \<Rightarrow> node_id \<Rightarrow> scp_prepare set" where
  "preparesBy N u \<equiv> prepares u (slots N u)"

definition heldPrepared :: "slot \<Rightarrow> scp_ballot set" where
  "heldPrepared s = set_option (mPrepared s) \<union> set_option (mPreparedPrime s)"

definition heldCommitted :: "slot \<Rightarrow> scp_ballot set" where
  "heldCommitted s = (if mPhase s = SCP_PHASE_PREPARE then {} else set_option (mCommit s))"

lemma held_cong:
  "mPrepared s' = mPrepared s \<Longrightarrow> mPreparedPrime s' = mPreparedPrime s \<Longrightarrow> heldPrepared s' = heldPrepared s"
  "mPhase s' = mPhase s \<Longrightarrow> mCommit s' = mCommit s \<Longrightarrow> heldCommitted s' = heldCommitted s"
  by (simp_all add: heldPrepared_def heldCommitted_def)

definition observe :: "node_id \<Rightarrow> slot \<Rightarrow> network \<Rightarrow> network" where
  "observe v s N =
     \<lparr>slots = (slots N)(v := s),
      everPrepared = (everPrepared N)(v := everPrepared N v \<union> heldPrepared s),
      everCommitted = (everCommitted N)(v := everCommitted N v \<union> heldCommitted s)\<rparr>"

lemma observe_simps [simp]:
  "slots (observe v s N) = (slots N)(v := s)"
  "everPrepared (observe v s N) = (everPrepared N)(v := everPrepared N v \<union> heldPrepared s)"
  "everCommitted (observe v s N) = (everCommitted N)(v := everCommitted N v \<union> heldCommitted s)"
  by (simp_all add: observe_def)

text \<open>The envelopes that may arrive: signatures cannot be forged, so that an envelope in the name of a
  node in \<open>I\<close> carries a statement this node has made.\<close>

definition authentic :: "node_id set \<Rightarrow> (node_id \<Rightarrow> slot) \<Rightarrow> ballot_envelope set" where
  "authentic I \<sigma> =
     {e. st_nodeID (env_statement e) \<in> I \<longrightarrow>
         env_statement e \<in> said (st_nodeID (env_statement e)) (\<sigma> (st_nodeID (env_statement e)))}"

text \<open>A step of a node in \<open>I\<close>, with whatever driver it has at the moment.\<close>

inductive net_step :: "node_id set \<Rightarrow> (node_id \<Rightarrow> local_node) \<Rightarrow> network \<Rightarrow> network \<Rightarrow> bool" for I ln where
  node: "v \<in> I \<Longrightarrow> ctx_local ctx = ln v \<Longrightarrow> knows I ln (ctx_driver ctx) \<Longrightarrow>
    bstep ctx (authentic I (slots N)) (slots N v) s' \<Longrightarrow> net_step I ln N (observe v s' N)"

definition net_init :: "uint64 \<Rightarrow> (node_id \<Rightarrow> local_node) \<Rightarrow> network" where
  "net_init i ln =
     \<lparr>slots = \<lambda>v. new_Slot i (ln v), everPrepared = \<lambda>_. {}, everCommitted = \<lambda>_. {}\<rparr>"

section \<open>The invariant of a node\<close>

definition window :: "slot \<Rightarrow> scp_ballot \<Rightarrow> bool" where
  "window s c \<longleftrightarrow>
     (\<exists>l h. mCommit s = Some l \<and> mHighBallot s = Some h \<and> bvalue c = bvalue h \<and>
        counter l \<le> counter c \<and> counter c \<le> counter h)"

abbreviation workingBallot :: "slot \<Rightarrow> scp_ballot" where
  "workingBallot s \<equiv> (case mCurrentBallot s of None \<Rightarrow> zero_ballot | Some b \<Rightarrow> b)"

text \<open>While a node is in the \<^verbatim>\<open>PREPARE\<close> phase: its statements are below its current ballot; a vote to
  commit is either still held or has been aborted; its statements do not go against the ballots it votes
  to commit; what it confirmed as prepared has been prepared or committed.\<close>

definition prepare_inv ::
  "node_id set \<Rightarrow> ballots \<Rightarrow> ballots \<Rightarrow> (node_id \<Rightarrow> scp_prepare set) \<Rightarrow> node_id \<Rightarrow> slot \<Rightarrow> bool" where
  "prepare_inv I P C S v s \<longleftrightarrow>
     (\<forall>p \<in> S v. prep_ballot p \<le> workingBallot s) \<and>
     (\<forall>c. votes_commit S v c \<longrightarrow> aborted I P c \<or> window s c) \<and>
     (\<forall>c. mCommit s = Some c \<longrightarrow> (\<forall>p \<in> S v. bvalue (prep_ballot p) = bvalue c \<or> prep_ballot p \<le> c)) \<and>
     (\<forall>h. mHighBallot s = Some h \<longrightarrow> prepared I P h \<or> (\<exists>d. committed I C d \<and> bvalue d = bvalue h))"

definition node_inv ::
  "node_id set \<Rightarrow> (node_id \<Rightarrow> local_node) \<Rightarrow> ballots \<Rightarrow> ballots \<Rightarrow> (node_id \<Rightarrow> ballot_statement set) \<Rightarrow>
   (node_id \<Rightarrow> scp_prepare set) \<Rightarrow> node_id \<Rightarrow> slot \<Rightarrow> bool" where
  "node_inv I ln P C X S v s \<longleftrightarrow>
     bp_inv s \<and> heldPrepared s \<subseteq> P v \<and> heldCommitted s \<subseteq> C v \<and>
     (\<forall>st \<in> X v. said_ok (ln v) (P v) (C v) st) \<and> messages_ok I X (mLatestEnvelopes s) \<and>
     (mPhase s = SCP_PHASE_PREPARE \<longrightarrow> prepare_inv I P C S v s)"

definition net_inv :: "node_id set \<Rightarrow> (node_id \<Rightarrow> local_node) \<Rightarrow> network \<Rightarrow> bool" where
  "net_inv I ln N \<longleftrightarrow>
     votes_inv I (mQSet \<circ> ln) (everPrepared N) (everCommitted N) (preparesBy N) \<and>
     (\<forall>v \<in> I. node_inv I ln (everPrepared N) (everCommitted N) (saidBy N) (preparesBy N) v (slots N v))"

text \<open>The invariant of a node only gets weaker when the others accept or say more.\<close>

lemma said_ok_mono: "said_ok ln P C st \<Longrightarrow> P \<subseteq> P' \<Longrightarrow> C \<subseteq> C' \<Longrightarrow> said_ok ln P' C' st"
  by (auto simp: said_ok_def split: ballot_pledges.splits)

lemma prepare_invI:
  assumes "\<And>p. p \<in> S v \<Longrightarrow> prep_ballot p \<le> workingBallot s"
    and "\<And>c. votes_commit S v c \<Longrightarrow> aborted I P c \<or> window s c"
    and "\<And>c p. mCommit s = Some c \<Longrightarrow> p \<in> S v \<Longrightarrow> bvalue (prep_ballot p) = bvalue c \<or> prep_ballot p \<le> c"
    and "\<And>h. mHighBallot s = Some h \<Longrightarrow> prepared I P h \<or> (\<exists>d. committed I C d \<and> bvalue d = bvalue h)"
  shows "prepare_inv I P C S v s"
  unfolding prepare_inv_def
  by (intro conjI allI ballI impI) (erule assms(1), erule assms(2), erule (1) assms(3), erule assms(4))

lemma prepare_invD:
  assumes "prepare_inv I P C S v s"
  shows prepare_inv_ballot: "p \<in> S v \<Longrightarrow> prep_ballot p \<le> workingBallot s"
    and prepare_inv_vote: "votes_commit S v c \<Longrightarrow> aborted I P c \<or> window s c"
    and prepare_inv_commit: "mCommit s = Some c \<Longrightarrow> p \<in> S v \<Longrightarrow> bvalue (prep_ballot p) = bvalue c \<or> prep_ballot p \<le> c"
    and prepare_inv_high: "mHighBallot s = Some h \<Longrightarrow> prepared I P h \<or> (\<exists>d. committed I C d \<and> bvalue d = bvalue h)"
  using assms unfolding prepare_inv_def by simp_all

lemma prepare_inv_mono:
  assumes inv: "prepare_inv I P C S v s" and "\<And>u. P u \<subseteq> P' u" "\<And>u. C u \<subseteq> C' u" and S: "S' v = S v"
  shows "prepare_inv I P' C' S' v s"
proof (rule prepare_invI)
  fix p c
  show "prep_ballot p \<le> workingBallot s" if "p \<in> S' v" using prepare_inv_ballot [OF inv] that S by simp
  show "bvalue (prep_ballot p) = bvalue c \<or> prep_ballot p \<le> c" if "mCommit s = Some c" "p \<in> S' v"
    using prepare_inv_commit [OF inv] that S by simp
next
  fix c
  assume "votes_commit S' v c"
  then have "votes_commit S v c" using S by (simp add: votes_commit_def)
  from prepare_inv_vote [OF inv this] show "aborted I P' c \<or> window s c"
    using aborted_mono [where P = P and P' = P', OF _ assms(2)] by blast
next
  fix h
  assume "mHighBallot s = Some h"
  have p: "prepared I P h \<Longrightarrow> prepared I P' h" by (rule prepared_mono [where P = P and P' = P', OF _ assms(2)])
  have c: "committed I C d \<Longrightarrow> committed I C' d" for d using assms(3) unfolding committed_def by blast
  from prepare_inv_high [OF inv \<open>mHighBallot s = Some h\<close>]
  show "prepared I P' h \<or> (\<exists>d. committed I C' d \<and> bvalue d = bvalue h)" by (auto dest: p c)
qed

lemma node_invD:
  assumes "node_inv I ln P C X S v s"
  shows node_inv_bp: "bp_inv s" and node_inv_prepared: "heldPrepared s \<subseteq> P v"
    and node_inv_committed: "heldCommitted s \<subseteq> C v"
    and node_inv_said: "st \<in> X v \<Longrightarrow> said_ok (ln v) (P v) (C v) st"
    and node_inv_messages: "messages_ok I X (mLatestEnvelopes s)"
    and node_inv_prepare: "mPhase s = SCP_PHASE_PREPARE \<Longrightarrow> prepare_inv I P C S v s"
  using assms unfolding node_inv_def by simp_all

lemma node_inv_mono:
  assumes inv: "node_inv I ln P C X S v s"
    and P: "\<And>u. P u \<subseteq> P' u" and C: "\<And>u. C u \<subseteq> C' u" and X: "\<And>u. X u \<subseteq> X' u" "X' v = X v" and S: "S' v = S v"
  shows "node_inv I ln P' C' X' S' v s"
  unfolding node_inv_def
proof (intro conjI ballI impI)
  show "bp_inv s" using node_inv_bp [OF inv] .
  show "heldPrepared s \<subseteq> P' v" using node_inv_prepared [OF inv] P by (rule subset_trans)
  show "heldCommitted s \<subseteq> C' v" using node_inv_committed [OF inv] C by (rule subset_trans)
  show "said_ok (ln v) (P' v) (C' v) st" if "st \<in> X' v" for st
    using said_ok_mono [OF node_inv_said [OF inv] P C] that X(2) by simp
  show "messages_ok I X' (mLatestEnvelopes s)"
    using node_inv_messages [OF inv] X(1) by (fastforce simp: messages_ok_def)
  show "prepare_inv I P' C' S' v s" if "mPhase s = SCP_PHASE_PREPARE"
    using node_inv_prepare [OF inv that] P C S by (rule prepare_inv_mono)
qed

lemma net_inv_init: "net_inv I ln (net_init i ln)"
proof -
  have "said u (new_Slot i l) = {}" "prepares u (new_Slot i l) = {}" for u l
    by (simp_all add: said_def prepares_def new_Slot_def)
  then show ?thesis
    using votes_inv_init [of I "mQSet \<circ> ln"] bp_inv_new_Slot
    by (simp add: net_inv_def net_init_def node_inv_def prepare_inv_def votes_commit_def messages_ok_def
        heldPrepared_def heldCommitted_def) (simp add: new_Slot_def)
qed

end
