(* ===== verification/Network_Steps.thy ===== *)
theory Network_Steps
  imports Network
begin

text \<open>
  Every step of a node in \<open>I\<close> keeps the invariant of the network.  What a node accepts or confirms has
  the support that the global invariant asks for, because quorums and v-blocking sets of an intact node
  contain intact nodes; what it says is allowed by what it holds.
\<close>

section \<open>Steps of a node\<close>

definition acting :: "node_id set \<Rightarrow> (node_id \<Rightarrow> local_node) \<Rightarrow> network \<Rightarrow> node_id \<Rightarrow> scp_ctx \<Rightarrow> bool" where
  "acting I ln N v ctx \<longleftrightarrow>
     net_inv I ln N \<and> intact I (mQSet \<circ> ln) \<and> v \<in> I \<and> ctx_local ctx = ln v \<and> mNodeID (ln v) = v \<and>
     knows I ln (ctx_driver ctx)"

lemma actingD:
  assumes "acting I ln N v ctx"
  shows acting_net: "net_inv I ln N" and acting_intact: "intact I (mQSet \<circ> ln)" and acting_in: "v \<in> I"
    and acting_local: "ctx_local ctx = ln v" and acting_id: "mNodeID (ln v) = v" and acting_knows: "knows I ln (ctx_driver ctx)"
  using assms by (simp_all add: acting_def)

lemma net_inv_votes:
  "net_inv I ln N \<Longrightarrow> votes_inv I (mQSet \<circ> ln) (everPrepared N) (everCommitted N) (preparesBy N)"
  by (simp add: net_inv_def)

lemma net_inv_node:
  "net_inv I ln N \<Longrightarrow> v \<in> I \<Longrightarrow>
   node_inv I ln (everPrepared N) (everCommitted N) (saidBy N) (preparesBy N) v (slots N v)"
  by (simp add: net_inv_def)

lemma acting_quorum:
  assumes a: "acting I ln N v ctx" and r: "federatedRatify ctx flt (slots N v)"
  shows "(\<exists>u \<in> I. \<exists>st \<in> saidBy N u. flt st \<and> \<not> is_prepare st) \<or>
    (\<exists>W. quorum_in I (mQSet \<circ> ln) W \<and>
       (\<forall>z \<in> W \<inter> I. \<exists>st p. st \<in> saidBy N z \<and> st_pledges st = PREPARE p \<and> flt st))"
proof -
  note n = net_inv_node [OF acting_net [OF a]]
  have "isQuorum (mQSet (ln v)) (mLatestEnvelopes (slots N v))
      (\<lambda>st. getQuorumSetFromStatement ctx (map_statement BALLOT st)) flt"
    using r acting_local [OF a] by (simp add: federatedRatify_def Slot_federatedRatify_def)
  moreover have "smap_ok (mLatestEnvelopes (slots N v))"
    using node_inv_bp [OF n [OF acting_in [OF a]]] by (simp add: bp_inv_def)
  ultimately show ?thesis
    using quorum_intact [OF acting_intact [OF a] acting_in [OF a] node_inv_messages [OF n [OF acting_in [OF a]]]
        _ acting_knows [OF a], of "everPrepared N" "everCommitted N"] node_inv_said [OF n] by blast
qed

lemma acting_vblocking:
  assumes a: "acting I ln N v ctx"
    and "isVBlocking_map (mQSet (ctx_local ctx)) (mLatestEnvelopes (slots N v)) flt"
  shows "\<exists>u \<in> I. \<exists>st \<in> saidBy N u. flt st"
  using vblocking_intact [OF acting_intact [OF a] acting_in [OF a]
      node_inv_messages [OF net_inv_node [OF acting_net [OF a] acting_in [OF a]]]] assms(2) acting_local [OF a] by simp

lemma acting_accept:
  assumes a: "acting I ln N v ctx" and r: "federatedAccept ctx voted accepted (slots N v)"
  shows "(\<exists>u \<in> I. \<exists>st \<in> saidBy N u. accepted st \<or> voted st \<and> \<not> is_prepare st) \<or>
    (\<exists>W. quorum_in I (mQSet \<circ> ln) W \<and>
       (\<forall>z \<in> W \<inter> I. \<exists>st p. st \<in> saidBy N z \<and> st_pledges st = PREPARE p \<and> voted st))"
proof -
  from r consider "isVBlocking_map (mQSet (ctx_local ctx)) (mLatestEnvelopes (slots N v)) accepted"
    | "federatedRatify ctx (\<lambda>st. accepted st \<or> voted st) (slots N v)"
    unfolding federatedAccept_def federatedRatify_def Slot_federatedAccept_iff by blast
  then show ?thesis
  proof cases
    case 1
    then show ?thesis using acting_vblocking [OF a] by blast
  next
    case 2
    from acting_quorum [OF a this] show ?thesis by blast
  qed
qed

text \<open>Supports.\<close>

lemma acting_said_ok:
  "acting I ln N v ctx \<Longrightarrow> u \<in> I \<Longrightarrow> st \<in> saidBy N u \<Longrightarrow> said_ok (ln u) (everPrepared N u) (everCommitted N u) st"
  using net_inv_node [OF acting_net] node_inv_said by blast

lemmas net_has_prepared = said_has_prepared [where P = "everPrepared N" and C = "everCommitted N"] for N
lemmas net_votes_prepare = said_votes_prepare [where P = "everPrepared N" and C = "everCommitted N"] for N
lemmas net_commits = said_commits [where P = "everPrepared N" and C = "everCommitted N"] for N

lemma accept_prepared_support:
  assumes a: "acting I ln N v ctx"
    and r: "federatedAccept ctx (votesPrepare x) (hasPreparedBallot x) (slots N v)"
  shows "prepare_support I (mQSet \<circ> ln) (everPrepared N) (everCommitted N) (preparesBy N) x"
  using acting_accept [OF a r]
proof
  assume "\<exists>u \<in> I. \<exists>st \<in> saidBy N u. hasPreparedBallot x st \<or> votesPrepare x st \<and> \<not> is_prepare st"
  then obtain u st where u: "u \<in> I" "st \<in> saidBy N u" "hasPreparedBallot x st \<or> votesPrepare x st \<and> \<not> is_prepare st"
    by blast
  note ok = acting_said_ok [OF a u(1,2)]
  from u(3) net_has_prepared [OF u(1) ok, of x] net_votes_prepare [OF u(1) ok, of x]
  show ?thesis unfolding prepare_support_def by blast
next
  assume "\<exists>W. quorum_in I (mQSet \<circ> ln) W \<and>
       (\<forall>z \<in> W \<inter> I. \<exists>st p. st \<in> saidBy N z \<and> st_pledges st = PREPARE p \<and> votesPrepare x st)"
  then obtain W where W: "quorum_in I (mQSet \<circ> ln) W"
    "\<forall>z \<in> W \<inter> I. \<exists>st p. st \<in> saidBy N z \<and> st_pledges st = PREPARE p \<and> votesPrepare x st" by blast
  have "votes_prepare (preparesBy N) z x" if z: "z \<in> W \<inter> I" for z
  proof -
    from W(2) z obtain st p where "st \<in> saidBy N z" "st_pledges st = PREPARE p" "votesPrepare x st" by blast
    then show ?thesis
      by (auto simp: votes_prepare_def prepares_def votesPrepare_def lessAndCompatible_iff)
  qed
  with W(1) show ?thesis unfolding prepare_support_def by blast
qed

lemma ratify_prepared_support:
  assumes a: "acting I ln N v ctx" and r: "federatedRatify ctx (hasPreparedBallot x) (slots N v)"
  shows "prepared I (everPrepared N) x \<or> (\<exists>d. committed I (everCommitted N) d \<and> bvalue d = bvalue x)"
proof -
  have "\<exists>u \<in> I. \<exists>st \<in> saidBy N u. hasPreparedBallot x st"
    using acting_quorum [OF a r] unfolding quorum_in_def by blast
  then show ?thesis using net_has_prepared acting_said_ok [OF a] by blast
qed

lemma accept_commit_support:
  assumes a: "acting I ln N v ctx" and r: "acceptCommitPred ctx (slots N v) (SCPBallot n x) (lo, hi)"
    and le: "lo \<le> hi"
  shows "commit_support I (mQSet \<circ> ln) (everCommitted N) (preparesBy N) (SCPBallot lo x)"
proof -
  from acting_accept [OF a r [unfolded acceptCommitPred_def]]
  show ?thesis
  proof
    assume "\<exists>u \<in> I. \<exists>st \<in> saidBy N u. commitPredicate (SCPBallot n x) (lo, hi) st \<or>
      votesCommit (SCPBallot n x) (lo, hi) st \<and> \<not> is_prepare st"
    then show ?thesis using net_commits acting_said_ok [OF a] unfolding commit_support_def by blast
  next
    assume "\<exists>W. quorum_in I (mQSet \<circ> ln) W \<and>
       (\<forall>z \<in> W \<inter> I. \<exists>st p. st \<in> saidBy N z \<and> st_pledges st = PREPARE p \<and> votesCommit (SCPBallot n x) (lo, hi) st)"
    then obtain W where W: "quorum_in I (mQSet \<circ> ln) W"
      "\<forall>z \<in> W \<inter> I. \<exists>st p. st \<in> saidBy N z \<and> st_pledges st = PREPARE p \<and> votesCommit (SCPBallot n x) (lo, hi) st"
      by blast
    have "votes_commit (preparesBy N) z (SCPBallot lo x)" if z: "z \<in> W \<inter> I" for z
      using W(2) z said_votes_commit [OF _ _ le] unfolding votes_commit_def prepares_def by blast
    with W(1) show ?thesis unfolding commit_support_def by blast
  qed
qed

lemma confirm_commit_support:
  assumes a: "acting I ln N v ctx" and r: "confirmCommitPred ctx (slots N v) (SCPBallot n x) (lo, hi)"
  shows "commit_support I (mQSet \<circ> ln) (everCommitted N) (preparesBy N) (SCPBallot lo x)"
proof -
  have "\<exists>u \<in> I. \<exists>st \<in> saidBy N u. commitPredicate (SCPBallot n x) (lo, hi) st"
    using acting_quorum [OF a r [unfolded confirmCommitPred_def]] unfolding quorum_in_def by blast
  then show ?thesis using net_commits acting_said_ok [OF a] unfolding commit_support_def by blast
qed

text \<open>A step of \<open>v\<close> keeps the invariant if it keeps the global one and that of \<open>v\<close>.\<close>

lemma net_inv_observe:
  assumes inv: "net_inv I ln N" and said: "said v (slots N v) \<subseteq> said v s"
    and votes: "votes_inv I (mQSet \<circ> ln) (everPrepared (observe v s N)) (everCommitted (observe v s N))
      (preparesBy (observe v s N))"
    and node: "node_inv I ln (everPrepared (observe v s N)) (everCommitted (observe v s N))
      (saidBy (observe v s N)) (preparesBy (observe v s N)) v s"
  shows "net_inv I ln (observe v s N)"
  unfolding net_inv_def
proof (intro conjI ballI)
  show "votes_inv I (mQSet \<circ> ln) (everPrepared (observe v s N)) (everCommitted (observe v s N))
      (preparesBy (observe v s N))" by (rule votes)
  fix u
  assume u: "u \<in> I"
  show "node_inv I ln (everPrepared (observe v s N)) (everCommitted (observe v s N))
      (saidBy (observe v s N)) (preparesBy (observe v s N)) u (slots (observe v s N) u)"
  proof (cases "u = v")
    case True
    then show ?thesis using node by simp
  next
    case False
    then have "slots (observe v s N) u = slots N u" by simp
    then show ?thesis
      using node_inv_mono [OF net_inv_node [OF inv u]] said by auto
  qed
qed

lemma observe_same:
  assumes "heldPrepared s \<subseteq> everPrepared N v"
  shows "everPrepared (observe v s N) = everPrepared N"
  using assms by (auto simp: fun_eq_iff)

lemma observe_same_committed:
  assumes "heldCommitted s \<subseteq> everCommitted N v"
  shows "everCommitted (observe v s N) = everCommitted N"
  using assms by (auto simp: fun_eq_iff)

lemma observe_said:
  assumes "said v s = said v (slots N v)"
  shows "saidBy (observe v s N) = saidBy N" "preparesBy (observe v s N) = preparesBy N"
  using assms by (auto simp: fun_eq_iff prepares_def)

text \<open>Steps in which a node neither accepts nor says anything new.\<close>

lemma net_inv_quiet:
  assumes a: "acting I ln N v ctx" and s: "said v s = said v (slots N v)"
    and P: "heldPrepared s \<subseteq> everPrepared N v" and C: "heldCommitted s \<subseteq> everCommitted N v"
    and bp: "bp_inv s" and m: "messages_ok I (saidBy N) (mLatestEnvelopes s)"
    and prep: "mPhase s = SCP_PHASE_PREPARE \<Longrightarrow> prepare_inv I (everPrepared N) (everCommitted N) (preparesBy N) v s"
  shows "net_inv I ln (observe v s N)"
proof (rule net_inv_observe [OF acting_net [OF a]])
  note same = observe_same [OF P] observe_same_committed [OF C] observe_said [OF s]
  show "said v (slots N v) \<subseteq> said v s" using s by simp
  show "votes_inv I (mQSet \<circ> ln) (everPrepared (observe v s N)) (everCommitted (observe v s N)) (preparesBy (observe v s N))"
    unfolding same by (rule net_inv_votes [OF acting_net [OF a]])
  show "node_inv I ln (everPrepared (observe v s N)) (everCommitted (observe v s N))
      (saidBy (observe v s N)) (preparesBy (observe v s N)) v s"
    unfolding same node_inv_def
    using P C bp m prep acting_said_ok [OF a acting_in [OF a]] by blast
qed

lemma acting_node:
  "acting I ln N v ctx \<Longrightarrow>
   node_inv I ln (everPrepared N) (everCommitted N) (saidBy N) (preparesBy N) v (slots N v)"
  using net_inv_node acting_net acting_in by blast

lemma step_other:
  assumes a: "acting I ln N v ctx" and c: "same_core (slots N v) s"
  shows "net_inv I ln (observe v s N)"
proof -
  note n = acting_node [OF a]
  have f: "mCurrentBallot s = mCurrentBallot (slots N v)" "mPrepared s = mPrepared (slots N v)"
     "mPreparedPrime s = mPreparedPrime (slots N v)" "mHighBallot s = mHighBallot (slots N v)"
     "mCommit s = mCommit (slots N v)" "mLatestEnvelopes s = mLatestEnvelopes (slots N v)"
     "mPhase s = mPhase (slots N v)"
    using c by (simp_all add: same_core_def)
  show ?thesis
  proof (rule net_inv_quiet [OF a said_core [OF c]])
    show "prepare_inv I (everPrepared N) (everCommitted N) (preparesBy N) v s" if "mPhase s = SCP_PHASE_PREPARE"
      using node_inv_prepare [OF n] that f unfolding prepare_inv_def window_def by simp
  qed (use node_inv_prepared [OF n] node_inv_committed [OF n] node_inv_messages [OF n]
      bp_inv_same_core [OF c node_inv_bp [OF n]] held_cong [of s "slots N v"] f in simp_all)
qed

lemma messages_ok_record:
  assumes "messages_ok I X m" "\<And>u. X u \<subseteq> X' u"
    and "st_nodeID (env_statement e) \<in> I \<Longrightarrow> env_statement e \<in> X' (st_nodeID (env_statement e))"
  shows "messages_ok I X' (smap_upd (st_nodeID (env_statement e)) e m)"
proof -
  have sub: "set (smap_upd k e m) \<subseteq> insert (k, e) (set m)" for k
    by (induction k e m rule: smap_upd.induct) auto
  show ?thesis
    unfolding messages_ok_def
  proof (intro ballI, clarify)
    fix u d
    assume "(u, d) \<in> set (smap_upd (st_nodeID (env_statement e)) e m)"
    then have "(u, d) = (st_nodeID (env_statement e), e) \<or> (u, d) \<in> set m" using sub by blast
    then show "st_nodeID (env_statement d) = u \<and> (u \<in> I \<longrightarrow> env_statement d \<in> X' u)"
    proof
      assume "(u, d) \<in> set m"
      with assms(1) have "st_nodeID (env_statement d) = u \<and> (u \<in> I \<longrightarrow> env_statement d \<in> X u)"
        by (auto simp: messages_ok_def)
      with assms(2) show ?thesis by blast
    qed (use assms(3) in simp)
  qed
qed

lemma step_receive:
  assumes a: "acting I ln N v ctx" and e: "e \<in> authentic I (slots N)"
  shows "net_inv I ln (observe v (recordEnvelope e (slots N v)) N)"
proof -
  note n = acting_node [OF a]
  show ?thesis
  proof (rule net_inv_quiet [OF a])
    show "said v (recordEnvelope e (slots N v)) = said v (slots N v)"
      using e acting_in [OF a] by (auto simp: said_record authentic_def)
    show "messages_ok I (saidBy N) (mLatestEnvelopes (recordEnvelope e (slots N v)))"
      unfolding recordEnvelope_simps
      by (rule messages_ok_record [OF node_inv_messages [OF n]]) (use e in \<open>auto simp: authentic_def\<close>)
    show "prepare_inv I (everPrepared N) (everCommitted N) (preparesBy N) v (recordEnvelope e (slots N v))"
      if "mPhase (recordEnvelope e (slots N v)) = SCP_PHASE_PREPARE"
      using node_inv_prepare [OF n] that unfolding prepare_inv_def window_def by simp
  qed (use node_inv_prepared [OF n] node_inv_committed [OF n] bp_inv_record [OF node_inv_bp [OF n]]
      held_cong [of "recordEnvelope e (slots N v)" "slots N v"] in simp_all)
qed

section \<open>Accepting and confirming as prepared\<close>

lemma prepare_inv_withPrepared:
  assumes inv: "prepare_inv I P C S v s" and v: "v \<in> I"
    and P: "\<And>u. P u \<subseteq> P' u" "heldPrepared (withPrepared x s) \<subseteq> P' v"
  shows "prepare_inv I P' C S v (withPrepared x s)"
proof -
  have inv': "prepare_inv I P' C S v s" by (rule prepare_inv_mono [OF inv P(1)]) simp_all
  show ?thesis
  proof (rule prepare_invI)
    fix c
    assume "votes_commit S v c"
    from prepare_inv_vote [OF inv' this] show "aborted I P' c \<or> window (withPrepared x s) c"
    proof
      assume w: "window s c"
      then obtain l h where lh: "mCommit s = Some l" "mHighBallot s = Some h" "bvalue c = bvalue h" "counter c \<le> counter h"
        unfolding window_def by blast
      show ?thesis
      proof (cases "mCommit (withPrepared x s) = mCommit s")
        case True
        with w show ?thesis by (simp add: window_def)
      next
        case False
        then have "abortsHigh (snd (setPrepared x s)) h"
          using lh(2) by (auto simp: withPrepared_def Let_def split: if_splits)
        then obtain y where y: "y \<in> heldPrepared (withPrepared x s)" "h \<le> y" "bvalue h \<noteq> bvalue y"
          by (auto simp: abortsHigh_def lessAndIncompatible_iff heldPrepared_def split: option.splits)
        then have "conflicts y c"
          using lh(3,4) below_le [of c h] by (metis order.not_eq_order_implies_strict order_trans)
        moreover have "prepared I P' y" using y(1) P(2) v by (auto simp: prepared_def)
        ultimately show ?thesis unfolding aborted_def by blast
      qed
    qed simp
  next
    fix c p
    assume "mCommit (withPrepared x s) = Some c" "p \<in> S v"
    then show "bvalue (prep_ballot p) = bvalue c \<or> prep_ballot p \<le> c"
      using withPrepared_commit [of x s] prepare_inv_commit [OF inv'] by auto
  qed (use prepare_inv_ballot [OF inv'] prepare_inv_high [OF inv'] in simp_all)
qed

lemma withPrepared_held:
  assumes "bp_inv s" "\<And>p'. mPreparedPrime s = Some p' \<Longrightarrow> p' < x"
    and "\<And>p. mPrepared s = Some p \<Longrightarrow> \<not> areBallotsLessAndCompatible x p"
  shows "x \<in> heldPrepared (withPrepared x s)" "heldPrepared (withPrepared x s) \<subseteq> insert x (heldPrepared s)"
proof -
  have "mPrepared (snd (setPrepared x s)) = Some (case mPrepared s of None \<Rightarrow> x | Some p \<Rightarrow> max p x)"
    "mPreparedPrime (snd (setPrepared x s)) =
       (case mPrepared s of
          None \<Rightarrow> None
        | Some p \<Rightarrow> if p < x then (if bvalue p = bvalue x then mPreparedPrime s else Some p) else Some x)"
    by (rule setPrepared_pair; use assms in blast)+
  then show "x \<in> heldPrepared (withPrepared x s)" "heldPrepared (withPrepared x s) \<subseteq> insert x (heldPrepared s)"
    by (auto simp: heldPrepared_def max_def split: option.splits if_splits)
qed

lemma step_accept_prepared:
  assumes a: "acting I ln N v ctx" and step: "bstep ctx R (slots N v) (withPrepared x (slots N v))"
    and p': "\<And>p'. mPreparedPrime (slots N v) = Some p' \<Longrightarrow> p' < x"
    and p: "\<And>p. mPrepared (slots N v) = Some p \<Longrightarrow> \<not> areBallotsLessAndCompatible x p"
    and accept: "federatedAccept ctx (votesPrepare x) (hasPreparedBallot x) (slots N v)"
    and c: "heldCommitted (withPrepared x (slots N v)) \<subseteq> heldCommitted (slots N v)"
  shows "net_inv I ln (observe v (withPrepared x (slots N v)) N)"
proof -
  let ?s = "slots N v" and ?s' = "withPrepared x (slots N v)"
  let ?P = "(everPrepared N)(v := insert x (everPrepared N v))"
  note n = acting_node [OF a]
  have held: "x \<in> heldPrepared ?s'" "heldPrepared ?s' \<subseteq> insert x (heldPrepared ?s)"
    by (rule withPrepared_held [OF node_inv_bp [OF n]]; use p' p in blast)+
  then have P: "everPrepared (observe v ?s' N) = ?P"
    using node_inv_prepared [OF n] by (auto simp: fun_eq_iff)
  have C: "everCommitted (observe v ?s' N) = everCommitted N"
    by (rule observe_same_committed [OF subset_trans [OF c node_inv_committed [OF n]]])
  have s: "said v ?s' = said v ?s" by (rule said_history) simp
  note same = P C observe_said [OF s]
  show ?thesis
  proof (rule net_inv_observe [OF acting_net [OF a]])
    show "said v ?s \<subseteq> said v ?s'" using s by simp
    show "votes_inv I (mQSet \<circ> ln) (everPrepared (observe v ?s' N)) (everCommitted (observe v ?s' N)) (preparesBy (observe v ?s' N))"
      unfolding same
      by (rule votes_inv_prepare [OF acting_intact [OF a] net_inv_votes [OF acting_net [OF a]] acting_in [OF a]
          accept_prepared_support [OF a accept]])
    show "node_inv I ln (everPrepared (observe v ?s' N)) (everCommitted (observe v ?s' N))
        (saidBy (observe v ?s' N)) (preparesBy (observe v ?s' N)) v ?s'"
      unfolding same node_inv_def
    proof (intro conjI ballI impI)
      show "bp_inv ?s'" using bp_inv_bstep [OF step node_inv_bp [OF n]] .
      show "heldPrepared ?s' \<subseteq> ?P v" using held(2) node_inv_prepared [OF n] by auto
      show "heldCommitted ?s' \<subseteq> everCommitted N v" using c node_inv_committed [OF n] by (rule subset_trans)
      show "messages_ok I (saidBy N) (mLatestEnvelopes ?s')" using node_inv_messages [OF n] by simp
      show "said_ok (ln v) (?P v) (everCommitted N v) st" if "st \<in> saidBy N v" for st
        by (rule said_ok_mono [OF node_inv_said [OF n that]]) auto
      show "prepare_inv I ?P (everCommitted N) (preparesBy N) v ?s'" if "mPhase ?s' = SCP_PHASE_PREPARE"
      proof (rule prepare_inv_withPrepared [OF _ acting_in [OF a]])
        show "prepare_inv I (everPrepared N) (everCommitted N) (preparesBy N) v ?s"
          using node_inv_prepare [OF n] that by simp
        show "heldPrepared ?s' \<subseteq> ?P v" using held(2) node_inv_prepared [OF n] by auto
      qed auto
    qed
  qed
qed

lemma zero_ballot_least: "zero_ballot \<le> b"
  by (simp add: zero_ballot_def less_eq_scp_ballot_def word_gt_0)

lemma workingBallot_mono: "ballot_le (mCurrentBallot s) (mCurrentBallot s') \<Longrightarrow> workingBallot s \<le> workingBallot s'"
  using zero_ballot_least by (auto simp: ballot_le_def split: option.splits)

lemma window_le: "window s c \<Longrightarrow> mHighBallot s = Some h \<Longrightarrow> c \<le> h \<and> bvalue c = bvalue h"
  by (auto simp: window_def less_eq_scp_ballot_def)

text \<open>A ballot confirmed as prepared that goes against a vote to commit has aborted it.\<close>

lemma confirmed_aborts:
  assumes inv: "votes_inv I q P C S" and z: "z \<in> I" "votes_commit S z c" and x: "conflicts x c"
    and sup: "prepared I P x \<or> (\<exists>d. committed I C d \<and> bvalue d = bvalue x)"
  shows "aborted I P c"
  using sup
proof
  assume "prepared I P x"
  with x show ?thesis unfolding aborted_def by blast
next
  assume "\<exists>d. committed I C d \<and> bvalue d = bvalue x"
  then obtain d where d: "committed I C d" "bvalue d = bvalue x" by blast
  from inv_root [OF inv d(1)] obtain e where e: "committed I C e" "below e d" "prepared I P e" by blast
  have v: "bvalue e \<noteq> bvalue c" using e(2) d(2) x by simp
  have "prepared I P c"
    using inv_vote [OF inv z] inv_agree [OF inv e(1)] v by metis
  then have "\<not> e < c" using inv_safe [OF inv e(1)] v unfolding aborted_def by metis
  then have "conflicts e c" using v by (metis not_less_iff_gr_or_eq)
  with e(3) show ?thesis unfolding aborted_def by blast
qed

lemma withConfirmed_compatible:
  assumes "case mCurrentBallot s of None \<Rightarrow> True | Some b \<Rightarrow> bvalue b = bvalue newH"
  shows "mHighBallot (withConfirmed newC newH s) = Some newH"
    "mCommit (withConfirmed newC newH s) = (if counter newC \<noteq> 0 then Some newC else mCommit s)"
  using assms by (auto simp: withConfirmed_def Let_def raiseTo_def split: option.splits)

lemma withConfirmed_high:
  assumes "mHighBallot (withConfirmed newC newH s) = Some h"
  shows "h = newH \<or> mHighBallot s = Some h"
  using assms
  by (cases "case mCurrentBallot s of None \<Rightarrow> True | Some b \<Rightarrow> bvalue b = bvalue newH")
    (auto simp: withConfirmed_def Let_def raiseTo_def split: option.splits if_splits)

lemma withConfirmed_commit:
  assumes "mCommit (withConfirmed newC newH s) = Some c" "bp_inv s"
  shows "c = newC \<and> counter newC \<noteq> 0 \<or> mCommit s = Some c"
  using assms
  by (cases "case mCurrentBallot s of None \<Rightarrow> True | Some b \<Rightarrow> bvalue b = bvalue newH")
    (auto simp: withConfirmed_def Let_def raiseTo_def split: option.splits if_splits)

lemma prepare_inv_withConfirmed:
  assumes votes: "votes_inv I q P C S" and inv: "prepare_inv I P C S v s" and v: "v \<in> I" and bp: "bp_inv s"
    and h: "\<And>h. mHighBallot s = Some h \<Longrightarrow> h < newH"
    and sup: "prepared I P newH \<or> (\<exists>d. committed I C d \<and> bvalue d = bvalue newH)"
    and c: "counter newC \<noteq> 0 \<Longrightarrow> mCommit s = None \<and> (\<forall>b. mCurrentBallot s = Some b \<longrightarrow> b \<le> newC)"
  shows "prepare_inv I P C S v (withConfirmed newC newH s)" (is "prepare_inv I P C S v ?s'")
proof (rule prepare_invI)
  fix p
  assume "p \<in> S v"
  moreover have "workingBallot s \<le> workingBallot ?s'"
    by (rule workingBallot_mono) (auto simp: ballot_le_def split: option.splits)
  ultimately show "prep_ballot p \<le> workingBallot ?s'" using prepare_inv_ballot [OF inv] order_trans by blast
next
  fix c
  assume vc: "votes_commit S v c"
  from prepare_inv_vote [OF inv vc] show "aborted I P c \<or> window ?s' c"
  proof
    assume w: "window s c"
    then obtain l high where lh: "mCommit s = Some l" "mHighBallot s = Some high" "bvalue c = bvalue high"
      "counter l \<le> counter c" "counter c \<le> counter high" unfolding window_def by blast
    from bp lh(2) obtain b where b: "mCurrentBallot s = Some b" "bvalue high = bvalue b"
      unfolding bp_inv_def lessAndCompatible_iff by blast
    show ?thesis
    proof (cases "bvalue b = bvalue newH")
      case True
      have "counter newC = 0" using assms(7) lh(1) by auto
      then have "mHighBallot ?s' = Some newH" "mCommit ?s' = Some l"
        using withConfirmed_compatible [of newH s newC] True b(1) lh(1) by simp_all
      moreover have "counter high \<le> counter newH" using less_ballot_counter [OF h [OF lh(2)]] .
      ultimately show ?thesis using lh b True unfolding window_def by auto
    next
      case False
      have "conflicts newH c"
        using window_le [OF w lh(2)] h [OF lh(2)] False b(2) by auto
      then show ?thesis using confirmed_aborts [OF votes v vc _ sup] by blast
    qed
  qed simp
next
  fix c p
  assume s': "mCommit ?s' = Some c" "p \<in> S v"
  from withConfirmed_commit [OF s'(1) bp] show "bvalue (prep_ballot p) = bvalue c \<or> prep_ballot p \<le> c"
  proof
    assume "mCommit s = Some c"
    then show ?thesis using prepare_inv_commit [OF inv] s'(2) by blast
  next
    assume "c = newC \<and> counter newC \<noteq> 0"
    then have new: "c = newC" "counter newC \<noteq> 0" by auto
    then have "workingBallot s \<le> newC" using assms(7) zero_ballot_least by (auto split: option.splits)
    then show ?thesis using prepare_inv_ballot [OF inv s'(2)] new(1) order_trans by blast
  qed
next
  fix high
  assume "mHighBallot ?s' = Some high"
  then have "high = newH \<or> mHighBallot s = Some high" by (rule withConfirmed_high)
  then show "prepared I P high \<or> (\<exists>d. committed I C d \<and> bvalue d = bvalue high)"
    using sup prepare_inv_high [OF inv] by blast
qed

lemma step_confirm_prepared:
  assumes a: "acting I ln N v ctx" and step: "bstep ctx R (slots N v) (withConfirmed newC newH (slots N v))"
    and phase: "mPhase (slots N v) = SCP_PHASE_PREPARE"
    and h: "\<And>h. mHighBallot (slots N v) = Some h \<Longrightarrow> h < newH"
    and r: "federatedRatify ctx (hasPreparedBallot newH) (slots N v)"
    and c: "counter newC \<noteq> 0 \<Longrightarrow> mCommit (slots N v) = None \<and> (\<forall>b. mCurrentBallot (slots N v) = Some b \<longrightarrow> b \<le> newC)"
  shows "net_inv I ln (observe v (withConfirmed newC newH (slots N v)) N)"
proof -
  let ?s' = "withConfirmed newC newH (slots N v)"
  note n = acting_node [OF a]
  show ?thesis
  proof (rule net_inv_quiet [OF a said_history])
    show "heldPrepared ?s' \<subseteq> everPrepared N v"
      using node_inv_prepared [OF n] held_cong(1) [of ?s' "slots N v"] by simp
    show "heldCommitted ?s' \<subseteq> everCommitted N v" using phase by (simp add: heldCommitted_def)
    show "bp_inv ?s'" using bp_inv_bstep [OF step node_inv_bp [OF n]] .
    show "prepare_inv I (everPrepared N) (everCommitted N) (preparesBy N) v ?s'"
      by (rule prepare_inv_withConfirmed [OF net_inv_votes [OF acting_net [OF a]] node_inv_prepare [OF n phase]
          acting_in [OF a] node_inv_bp [OF n]])
        (use h c ratify_prepared_support [OF a r] in blast)+
  qed (use node_inv_messages [OF n] in simp_all)
qed

lemma step_bump:
  assumes a: "acting I ln N v ctx" and step: "bstep ctx R (slots N v) (moveTo newb (slots N v))"
    and b: "\<And>b. mCurrentBallot (slots N v) = Some b \<Longrightarrow> b < newb"
    and c: "\<And>c. mCommit (slots N v) = Some c \<Longrightarrow> bvalue c = bvalue newb"
  shows "net_inv I ln (observe v (moveTo newb (slots N v)) N)"
proof -
  let ?s = "slots N v" and ?s' = "moveTo newb (slots N v)"
  note n = acting_node [OF a]
  have keep: "mCommit ?s' = mCommit ?s" "mCommit ?s \<noteq> None \<Longrightarrow> mHighBallot ?s' = mHighBallot ?s"
  proof -
    show "mCommit ?s' = mCommit ?s"
      using node_inv_bp [OF n] c by (auto simp: bp_inv_def lessAndCompatible_iff split: option.split)
    show "mHighBallot ?s' = mHighBallot ?s" if "mCommit ?s \<noteq> None"
      using that node_inv_bp [OF n] c by (auto simp: bp_inv_def lessAndCompatible_iff split: option.split)
  qed
  show ?thesis
  proof (rule net_inv_quiet [OF a said_history])
    show "heldPrepared ?s' \<subseteq> everPrepared N v"
      using node_inv_prepared [OF n] held_cong(1) [of ?s' ?s] by simp
    show "heldCommitted ?s' \<subseteq> everCommitted N v"
      using node_inv_committed [OF n] held_cong(2) [of ?s' ?s] keep(1) by simp
    show "bp_inv ?s'" using bp_inv_bstep [OF step node_inv_bp [OF n]] .
    show "prepare_inv I (everPrepared N) (everCommitted N) (preparesBy N) v ?s'"
      if phase: "mPhase ?s' = SCP_PHASE_PREPARE"
    proof -
      have inv: "prepare_inv I (everPrepared N) (everCommitted N) (preparesBy N) v ?s"
        using node_inv_prepare [OF n] phase by simp
      show ?thesis
      proof (rule prepare_invI)
        have "workingBallot ?s \<le> workingBallot ?s'"
          by (rule workingBallot_mono) (auto simp: ballot_le_def less_imp_le b split: option.split)
        then show "prep_ballot p \<le> workingBallot ?s'" if "p \<in> preparesBy N v" for p
          using prepare_inv_ballot [OF inv that] order_trans by blast
        show "aborted I (everPrepared N) c \<or> window ?s' c" if "votes_commit (preparesBy N) v c" for c
          using prepare_inv_vote [OF inv that] keep unfolding window_def by auto
        show "bvalue (prep_ballot p) = bvalue c \<or> prep_ballot p \<le> c"
          if "mCommit ?s' = Some c" "p \<in> preparesBy N v" for c p
          using prepare_inv_commit [OF inv] that keep(1) by simp
        show "prepared I (everPrepared N) h \<or> (\<exists>d. committed I (everCommitted N) d \<and> bvalue d = bvalue h)"
          if "mHighBallot ?s' = Some h" for h
          using prepare_inv_high [OF inv, of h] that by (auto split: option.splits if_splits)
      qed
    qed
  qed (use node_inv_messages [OF n] in simp_all)
qed

section \<open>Accepting and confirming a commit\<close>

lemma step_commit:
  assumes a: "acting I ln N v ctx" and step: "bstep ctx R (slots N v) s'"
    and sup: "commit_support I (mQSet \<circ> ln) (everCommitted N) (preparesBy N) c"
    and s': "mPhase s' \<noteq> SCP_PHASE_PREPARE" "mCommit s' = Some c" "heldPrepared s' \<subseteq> heldPrepared (slots N v)"
      "mLatestEnvelopes s' = mLatestEnvelopes (slots N v)" "mStatementsHistory s' = mStatementsHistory (slots N v)"
  shows "net_inv I ln (observe v s' N)"
proof -
  let ?C = "(everCommitted N)(v := insert c (everCommitted N v))"
  note n = acting_node [OF a]
  have held: "heldCommitted s' = {c}" using s'(1,2) by (simp add: heldCommitted_def)
  have C: "everCommitted (observe v s' N) = ?C" using held by (auto simp: fun_eq_iff)
  have P: "everPrepared (observe v s' N) = everPrepared N"
    by (rule observe_same [OF subset_trans [OF s'(3) node_inv_prepared [OF n]]])
  have s: "said v s' = said v (slots N v)" using s'(5) by (rule said_history)
  note same = P C observe_said [OF s]
  show ?thesis
  proof (rule net_inv_observe [OF acting_net [OF a]])
    show "said v (slots N v) \<subseteq> said v s'" using s by simp
    show "votes_inv I (mQSet \<circ> ln) (everPrepared (observe v s' N)) (everCommitted (observe v s' N)) (preparesBy (observe v s' N))"
      unfolding same
      by (rule votes_inv_commit [OF acting_intact [OF a] net_inv_votes [OF acting_net [OF a]] acting_in [OF a] sup])
    show "node_inv I ln (everPrepared (observe v s' N)) (everCommitted (observe v s' N))
        (saidBy (observe v s' N)) (preparesBy (observe v s' N)) v s'"
      unfolding same node_inv_def
    proof (intro conjI ballI impI)
      show "bp_inv s'" using bp_inv_bstep [OF step node_inv_bp [OF n]] .
      show "heldPrepared s' \<subseteq> everPrepared N v" using s'(3) node_inv_prepared [OF n] by (rule subset_trans)
      show "heldCommitted s' \<subseteq> ?C v" using held by simp
      show "messages_ok I (saidBy N) (mLatestEnvelopes s')" using node_inv_messages [OF n] s'(4) by simp
      show "said_ok (ln v) (everPrepared N v) (?C v) st" if "st \<in> saidBy N v" for st
        by (rule said_ok_mono [OF node_inv_said [OF n that]]) auto
    qed (use s'(1) in blast)
  qed
qed

section \<open>Making a statement\<close>

lemma prepare_statement_commits:
  assumes bp: "bp_inv s" and p: "prep_ballot p = workingBallot s"
    "prep_nC p = (case mCommit s of Some c \<Rightarrow> counter c | None \<Rightarrow> 0)"
    "prep_nH p = (case mHighBallot s of Some h \<Rightarrow> counter h | None \<Rightarrow> 0)"
    and c: "commits_to p c"
  shows "window s c"
proof -
  obtain l where l: "mCommit s = Some l" using c p(2) by (auto simp: commits_to_def split: option.splits)
  from bp l obtain h where h: "mHighBallot s = Some h" unfolding bp_inv_def by blast
  from bp h obtain b where b: "mCurrentBallot s = Some b" "bvalue h = bvalue b"
    unfolding bp_inv_def lessAndCompatible_iff by blast
  show ?thesis using c p l h b by (auto simp: window_def commits_to_def)
qed

lemma window_value:
  assumes "bp_inv s" "window s c"
  shows "bvalue c = bvalue (workingBallot s)" "\<exists>l. mCommit s = Some l \<and> below l c"
proof -
  from assms(2) obtain l h where lh: "mCommit s = Some l" "mHighBallot s = Some h" "bvalue c = bvalue h"
    "counter l \<le> counter c" unfolding window_def by blast
  from assms(1) lh(2) obtain b where "mCurrentBallot s = Some b" "bvalue h = bvalue b"
    unfolding bp_inv_def lessAndCompatible_iff by blast
  with lh(3) show "bvalue c = bvalue (workingBallot s)" by simp
  from assms(1) lh(1,2) have "bvalue l = bvalue h" unfolding bp_inv_def lessAndCompatible_iff by auto
  with lh show "\<exists>l. mCommit s = Some l \<and> below l c" by auto
qed

text \<open>A \<^verbatim>\<open>PREPARE\<close> statement with the ballots of the state.\<close>

lemma prepare_say:
  assumes votes: "votes_inv I q P C S" and inv: "prepare_inv I P C S v s" and v: "v \<in> I" and bp: "bp_inv s"
    and p: "prep_ballot p = workingBallot s"
      "prep_nC p = (case mCommit s of Some c \<Rightarrow> counter c | None \<Rightarrow> 0)"
      "prep_nH p = (case mHighBallot s of Some h \<Rightarrow> counter h | None \<Rightarrow> 0)"
  shows "votes_inv I q P C (S(v := insert p (S v)))" "prepare_inv I P C (S(v := insert p (S v))) v s"
proof -
  note win = prepare_statement_commits [OF bp p]
  show "votes_inv I q P C (S(v := insert p (S v)))"
  proof (rule votes_inv_say [OF votes v])
    fix c
    assume c: "commits_to p c"
    from win [OF c] obtain h where h: "mHighBallot s = Some h" "bvalue c = bvalue h" "counter c \<le> counter h"
      unfolding window_def by blast
    then show "prepared I P c \<or> (\<exists>d. committed I C d \<and> bvalue d = bvalue c)"
      using prepare_inv_high [OF inv h(1)] prepared_below [of I P h c] by auto
    obtain l where l: "mCommit s = Some l" "below l c" using window_value(2) [OF bp win [OF c]] by blast
    show "\<not> votes_abort S v c"
    proof
      assume "votes_abort S v c"
      then obtain p2 where p2: "p2 \<in> S v" "conflicts (prep_ballot p2) c" unfolding votes_abort_def by blast
      from prepare_inv_commit [OF inv l(1) p2(1)] p2(2) l(2) below_le [of l c] show False by auto
    qed
  next
    fix c
    assume c: "votes_commit S v c" "conflicts (prep_ballot p) c"
    from prepare_inv_vote [OF inv c(1)] show "aborted I P c"
      using window_value(1) [OF bp, of c] c(2) p(1) by auto
  qed
  show "prepare_inv I P C (S(v := insert p (S v))) v s"
  proof (rule prepare_invI)
    fix x
    assume "x \<in> (S(v := insert p (S v))) v"
    then show "prep_ballot x \<le> workingBallot s" using prepare_inv_ballot [OF inv] p(1) by auto
  next
    fix c
    assume "votes_commit (S(v := insert p (S v))) v c"
    then show "aborted I P c \<or> window s c"
      using prepare_inv_vote [OF inv] win unfolding votes_insert by blast
  next
    fix c x
    assume c: "mCommit s = Some c" and x: "x \<in> (S(v := insert p (S v))) v"
    have "bvalue (workingBallot s) = bvalue c"
      using bp c by (auto simp: bp_inv_def lessAndCompatible_iff)
    then show "bvalue (prep_ballot x) = bvalue c \<or> prep_ballot x \<le> c"
      using x prepare_inv_commit [OF inv c] p(1) by auto
  qed (rule prepare_inv_high [OF inv])
qed

lemma createStatement_cases:
  assumes "createStatement ctx s = Inr pl"
  obtains (PREPARE) p where "mPhase s = SCP_PHASE_PREPARE" "pl = PREPARE p"
      "prep_quorumSetHash p = mQSetHash (ctx_local ctx)" "prep_ballot p = workingBallot s"
      "prep_prepared p = mPrepared s" "prep_preparedPrime p = mPreparedPrime s"
      "prep_nC p = (case mCommit s of Some c \<Rightarrow> counter c | None \<Rightarrow> 0)"
      "prep_nH p = (case mHighBallot s of Some h \<Rightarrow> counter h | None \<Rightarrow> 0)"
  | (CONFIRM) con b c where "mPhase s = SCP_PHASE_CONFIRM" "pl = CONFIRM con" "mCurrentBallot s = Some b"
      "mCommit s = Some c" "conf_ballot con = b" "conf_nCommit con = counter c"
  | (EXTERNALIZE) ext c where "mPhase s = SCP_PHASE_EXTERNALIZE" "pl = EXTERNALIZE ext" "mCommit s = Some c"
      "ext_commit ext = c"
proof -
  have inv: "checkInvariants s = Inr ()"
    using assms by (cases "checkInvariants s") (auto simp: createStatement_def)
  show thesis
  proof (cases "mPhase s")
    case SCP_PHASE_PREPARE
    then show thesis using assms inv that(1) by (force simp: createStatement_def split: option.splits)
  next
    case SCP_PHASE_CONFIRM
    then obtain b p c h where f: "mCurrentBallot s = Some b" "mPrepared s = Some p" "mCommit s = Some c"
      "mHighBallot s = Some h"
      using assms inv by (auto simp: createStatement_def deref_def split: option.splits)
    then have "pl = CONFIRM \<lparr>conf_ballot = b, conf_nPrepared = counter p, conf_nCommit = counter c,
        conf_nH = counter h, conf_quorumSetHash = mQSetHash (ctx_local ctx)\<rparr>"
      using assms inv SCP_PHASE_CONFIRM by (simp add: createStatement_def deref_def)
    with SCP_PHASE_CONFIRM f show thesis by (intro that(2)) auto
  next
    case SCP_PHASE_EXTERNALIZE
    then obtain c h where f: "mCommit s = Some c" "mHighBallot s = Some h"
      using assms inv by (auto simp: createStatement_def deref_def split: option.splits)
    then have "pl = EXTERNALIZE \<lparr>ext_commit = c, ext_nH = counter h,
        ext_commitQuorumSetHash = mQSetHash (ctx_local ctx)\<rparr>"
      using assms inv SCP_PHASE_EXTERNALIZE by (simp add: createStatement_def deref_def)
    with SCP_PHASE_EXTERNALIZE f show thesis by (intro that(3)) auto
  qed
qed

text \<open>A statement of \<open>v\<close> that says \<open>st\<close>.\<close>

lemma prepares_record:
  assumes "st_nodeID (env_statement e) = v"
  shows "prepares v (recordEnvelope e s) =
    (case st_pledges (env_statement e) of PREPARE p \<Rightarrow> insert p (prepares v s) | _ \<Rightarrow> prepares v s)"
  using assms by (auto simp: prepares_def said_record split: ballot_pledges.splits)

lemma net_inv_say:
  assumes a: "acting I ln N v ctx" and e: "st_nodeID (env_statement e) = v"
    and ok: "said_ok (ln v) (everPrepared N v) (everCommitted N v) (env_statement e)"
    and votes: "votes_inv I (mQSet \<circ> ln) (everPrepared N) (everCommitted N)
      ((preparesBy N)(v := prepares v (recordEnvelope e (slots N v))))"
    and prep: "mPhase (slots N v) = SCP_PHASE_PREPARE \<Longrightarrow>
      prepare_inv I (everPrepared N) (everCommitted N)
        ((preparesBy N)(v := prepares v (recordEnvelope e (slots N v)))) v (slots N v)"
  shows "net_inv I ln (observe v (recordEnvelope e (slots N v)) N)"
proof -
  let ?s' = "recordEnvelope e (slots N v)" and ?N = "observe v (recordEnvelope e (slots N v)) N"
  note n = acting_node [OF a]
  have P: "heldPrepared ?s' \<subseteq> everPrepared N v" and C: "heldCommitted ?s' \<subseteq> everCommitted N v"
    using node_inv_prepared [OF n] node_inv_committed [OF n] held_cong [of ?s' "slots N v"] by simp_all
  have X: "saidBy ?N = (saidBy N)(v := insert (env_statement e) (saidBy N v))"
    using e by (auto simp: fun_eq_iff said_record)
  have S: "preparesBy ?N = (preparesBy N)(v := prepares v ?s')" by (auto simp: fun_eq_iff)
  note same = observe_same [OF P] observe_same_committed [OF C] X S
  show ?thesis
  proof (rule net_inv_observe [OF acting_net [OF a]])
    show "said v (slots N v) \<subseteq> said v ?s'" by (auto simp: said_record)
    show "votes_inv I (mQSet \<circ> ln) (everPrepared ?N) (everCommitted ?N) (preparesBy ?N)"
      unfolding same by (rule votes)
    show "node_inv I ln (everPrepared ?N) (everCommitted ?N) (saidBy ?N) (preparesBy ?N) v ?s'"
      unfolding same node_inv_def
    proof (intro conjI ballI impI)
      show "bp_inv ?s'" by (rule bp_inv_record [OF node_inv_bp [OF n]])
      show "messages_ok I ((saidBy N)(v := insert (env_statement e) (saidBy N v))) (mLatestEnvelopes ?s')"
        unfolding recordEnvelope_simps
        by (rule messages_ok_record [OF node_inv_messages [OF n]]) (use e in auto)
      show "said_ok (ln v) (everPrepared N v) (everCommitted N v) st"
        if "st \<in> ((saidBy N)(v := insert (env_statement e) (saidBy N v))) v" for st
        using that ok node_inv_said [OF n] by auto
      show "prepare_inv I (everPrepared N) (everCommitted N) ((preparesBy N)(v := prepares v ?s')) v ?s'"
        if "mPhase ?s' = SCP_PHASE_PREPARE"
        using prep that unfolding prepare_inv_def window_def by simp
    qed (rule P, rule C)
  qed
qed

lemma step_say:
  assumes a: "acting I ln N v ctx" and pl: "createStatement ctx (slots N v) = Inr pl"
    and e: "e = createEnvelope ctx BALLOT pl (slots N v)"
  shows "net_inv I ln (observe v (recordEnvelope e (slots N v)) N)"
proof -
  note n = acting_node [OF a] and votes = net_inv_votes [OF acting_net [OF a]]
  have f: "st_nodeID (env_statement e) = v" "st_pledges (env_statement e) = pl"
    using acting_local [OF a] acting_id [OF a] by (simp_all add: e createEnvelope_def Let_def)
  show ?thesis
  proof (rule net_inv_say [OF a f(1)]; use pl in \<open>cases rule: createStatement_cases\<close>)
    case (PREPARE p)
    then show "said_ok (ln v) (everPrepared N v) (everCommitted N v) (env_statement e)"
      using f(2) node_inv_prepared [OF n] acting_local [OF a] by (simp add: said_ok_def heldPrepared_def)
  next
    case (CONFIRM con b c)
    from node_inv_bp [OF n] CONFIRM(3,4) have "bvalue b = bvalue c"
      by (auto simp: bp_inv_def lessAndCompatible_iff)
    then have "SCPBallot (conf_nCommit con) (bvalue (conf_ballot con)) = c" using CONFIRM by (simp add: scp_ballot.expand)
    with CONFIRM show "said_ok (ln v) (everPrepared N v) (everCommitted N v) (env_statement e)"
      using f(2) node_inv_committed [OF n] by (simp add: said_ok_def heldCommitted_def)
  next
    case (EXTERNALIZE ext c)
    then show "said_ok (ln v) (everPrepared N v) (everCommitted N v) (env_statement e)"
      using f(2) node_inv_committed [OF n] by (simp add: said_ok_def heldCommitted_def)
  next
    case (PREPARE p)
    with prepare_say(1) [OF votes node_inv_prepare [OF n PREPARE(1)] acting_in [OF a] node_inv_bp [OF n] PREPARE(4,7,8)]
    show "votes_inv I (mQSet \<circ> ln) (everPrepared N) (everCommitted N)
      ((preparesBy N)(v := prepares v (recordEnvelope e (slots N v))))"
      using f(2) by (simp add: prepares_record [OF f(1)])
  next
    case (CONFIRM con b c)
    then show "votes_inv I (mQSet \<circ> ln) (everPrepared N) (everCommitted N)
      ((preparesBy N)(v := prepares v (recordEnvelope e (slots N v))))"
      using votes f(2) by (simp add: prepares_record [OF f(1)] fun_upd_idem)
  next
    case (EXTERNALIZE ext c)
    then show "votes_inv I (mQSet \<circ> ln) (everPrepared N) (everCommitted N)
      ((preparesBy N)(v := prepares v (recordEnvelope e (slots N v))))"
      using votes f(2) by (simp add: prepares_record [OF f(1)] fun_upd_idem)
  next
    case (PREPARE p)
    with prepare_say(2) [OF votes node_inv_prepare [OF n PREPARE(1)] acting_in [OF a] node_inv_bp [OF n] PREPARE(4,7,8)]
    show "prepare_inv I (everPrepared N) (everCommitted N)
        ((preparesBy N)(v := prepares v (recordEnvelope e (slots N v)))) v (slots N v)"
      using f(2) by (simp add: prepares_record [OF f(1)])
  qed simp_all
qed

section \<open>Every step keeps the invariant\<close>

lemma net_inv_bstep:
  assumes a: "acting I ln N v ctx" and step: "bstep ctx (authentic I (slots N)) (slots N v) s'"
  shows "net_inv I ln (observe v s' N)"
  using step
proof cases
  case other
  then show ?thesis by (rule step_other [OF a])
next
  case (receive e)
  then show ?thesis using step_receive [OF a] by simp
next
  case (say pl e)
  then show ?thesis using step_say [OF a] by blast
next
  case (accept_prepared x)
  have "heldCommitted s' \<subseteq> heldCommitted (slots N v)"
    using withPrepared_commit [of x "slots N v"] accept_prepared(1) by (auto simp: heldCommitted_def)
  then show ?thesis
    using step_accept_prepared [OF a] step accept_prepared by blast
next
  case (confirm_prepared newH newC)
  then show ?thesis using step_confirm_prepared [OF a, of _ newC newH] step by blast
next
  case (accept_commit x hi lo n)
  show ?thesis
    by (rule step_commit [OF a step accept_commit_support [OF a accept_commit(7,6)]])
      (use accept_commit in \<open>auto simp: heldPrepared_def\<close>)
next
  case (confirm_commit c x lo hi n)
  show ?thesis
    by (rule step_commit [OF a step confirm_commit_support [OF a]])
      (use confirm_commit in \<open>auto simp: heldPrepared_def\<close>)
next
  case (bump newb)
  then show ?thesis using step_bump [OF a, of _ newb] step by blast
qed

lemma net_inv_run:
  assumes i: "intact I (mQSet \<circ> ln)" and id: "\<And>v. v \<in> I \<Longrightarrow> mNodeID (ln v) = v"
    and run: "(net_step I ln)\<^sup>*\<^sup>* N N'" and inv: "net_inv I ln N"
  shows "net_inv I ln N'"
  using run
proof (induction rule: rtranclp_induct)
  case (step N1 N2)
  from step.hyps(2) obtain v ctx s' where v: "v \<in> I" "ctx_local ctx = ln v" "knows I ln (ctx_driver ctx)"
    "bstep ctx (authentic I (slots N1)) (slots N1 v) s'" and N2: "N2 = observe v s' N1"
    by (cases rule: net_step.cases) blast
  have "acting I ln N1 v ctx" using step.IH i v id [OF v(1)] by (simp add: acting_def)
  from net_inv_bstep [OF this v(4)] show ?case using N2 by simp
qed (rule inv)

section \<open>Agreement of the abstract machines\<close>

lemma net_inv_agree:
  assumes inv: "net_inv I ln N" and "u \<in> I" "v \<in> I" "c \<in> heldCommitted (slots N u)" "d \<in> heldCommitted (slots N v)"
  shows "bvalue c = bvalue d"
proof -
  have "committed I (everCommitted N) c" "committed I (everCommitted N) d"
    using node_inv_committed [OF net_inv_node [OF inv]] assms(2-5) by (auto simp: committed_def)
  then show ?thesis using inv_agree [OF net_inv_votes [OF inv]] by blast
qed

section \<open>Runs of a node\<close>

text \<open>What has been said stays said, so that a node may take the steps of a whole call one by one.\<close>

lemma authentic_mono:
  assumes "\<And>u. said u (\<sigma> u) \<subseteq> said u (\<sigma>' u)"
  shows "authentic I \<sigma> \<subseteq> authentic I \<sigma>'"
  using assms by (auto simp: authentic_def)

lemma said_bstep:
  assumes "bstep ctx R s s'"
  shows "said u s \<subseteq> said u s'"
  using assms
proof cases
  case other
  then show ?thesis using said_core by blast
next
  case (receive e)
  then show ?thesis by (auto simp: said_record)
next
  case (say pl e)
  then show ?thesis by (auto simp: said_record)
qed (simp_all add: said_def)

lemma bstep_weaken: "bstep ctx R s s' \<Longrightarrow> R \<subseteq> R' \<Longrightarrow> bstep ctx R' s s'"
  by (induction rule: bstep.induct) (blast intro: bstep.intros)+

lemma reach_net_run:
  assumes v: "v \<in> I" "ctx_local ctx = ln v" "knows I ln (ctx_driver ctx)"
    and run: "reach ctx R (slots N v) s'" and R: "R \<subseteq> authentic I (slots N)"
  shows "\<exists>N'. (net_step I ln)\<^sup>*\<^sup>* N N' \<and> slots N' = (slots N)(v := s') \<and> said v (slots N v) \<subseteq> said v s'"
  using run
proof (induction rule: rtranclp_induct)
  case base
  show ?case by (intro exI [of _ N]) simp
next
  case (step s1 s2)
  then obtain N1 where N1: "(net_step I ln)\<^sup>*\<^sup>* N N1" "slots N1 = (slots N)(v := s1)" "said v (slots N v) \<subseteq> said v s1"
    by blast
  have "authentic I (slots N) \<subseteq> authentic I (slots N1)" by (rule authentic_mono) (use N1(2,3) in auto)
  then have "bstep ctx (authentic I (slots N1)) (slots N1 v) s2"
    using bstep_weaken [OF step.hyps(2)] R N1(2) by auto
  then have "net_step I ln N1 (observe v s2 N1)" by (rule net_step.node [OF v])
  moreover have "slots (observe v s2 N1) = (slots N)(v := s2)" using N1(2) by simp
  ultimately show ?case using N1 said_bstep [OF step.hyps(2)] by (meson rtranclp.rtrancl_into_rtrancl subset_trans)
qed

end
