(* ===== verification/Agreement.thy ===== *)
theory Agreement
  imports Slot_Properties Network_Steps
begin

text \<open>
  Agreement of the nodes of a network on one slot.  The nodes in an intact set run the code of \<open>Slots\<close>:
  each transition is one call on one node's slot, with envelopes that were made by the node they name
  when this node is intact.  All other nodes behave arbitrarily.
\<close>

section \<open>A network of slots\<close>

inductive net_call ::
  "node_id set \<Rightarrow> (node_id \<Rightarrow> local_node) \<Rightarrow> (node_id \<Rightarrow> slot) \<Rightarrow> (node_id \<Rightarrow> slot) \<Rightarrow> bool" for I ln where
  call: "v \<in> I \<Longrightarrow> ctx_local ctx = ln v \<Longrightarrow> knows I ln (ctx_driver ctx) \<Longrightarrow>
    receivable E \<subseteq> authentic I \<sigma> \<Longrightarrow> slot_call ctx E (\<sigma> v) s' \<Longrightarrow> net_call I ln \<sigma> (\<sigma>(v := s'))"

lemma slot_call_UNIV: "slot_call ctx E s s' \<Longrightarrow> slot_call ctx UNIV s s'"
  by (induction rule: slot_call.induct) (blast intro: slot_call.intros)+

lemma net_run_simulates:
  assumes "(net_call I ln)\<^sup>*\<^sup>* (\<lambda>v. new_Slot i (ln v)) \<sigma>"
  shows "\<exists>N. (net_step I ln)\<^sup>*\<^sup>* (net_init i ln) N \<and> slots N = \<sigma> \<and> (\<forall>v. slot_run (new_Slot i (ln v)) (\<sigma> v))"
  using assms
proof (induction rule: rtranclp_induct)
  case base
  show ?case by (intro exI [of _ "net_init i ln"]) (simp add: net_init_def)
next
  case (step \<sigma> \<sigma>')
  then obtain N where N: "(net_step I ln)\<^sup>*\<^sup>* (net_init i ln) N" "slots N = \<sigma>"
    and runs: "\<And>v. slot_run (new_Slot i (ln v)) (\<sigma> v)" by blast
  from step.hyps(2) show ?case
  proof cases
    case (call v ctx E s')
    have "idle (\<sigma> v)" using slot_run_induct [OF runs idle_new_Slot] by blast
    then have "reach ctx (receivable E) (slots N v) s'" using slot_call_bpost [OF call(6)] N(2) by simp
    then obtain N' where N': "(net_step I ln)\<^sup>*\<^sup>* N N'" "slots N' = \<sigma>(v := s')"
      using reach_net_run [OF call(2-4), of "receivable E" N s'] call(5) N(2) by auto
    have "slot_run (new_Slot i (ln u)) ((\<sigma>(v := s')) u)" for u
      using runs slot_run_call [OF runs slot_call_UNIV [OF call(6)]] by simp
    with N' N(1) call(1) show ?thesis by (meson rtranclp_trans)
  qed
qed

lemma externalized_held:
  assumes "slot_run (new_Slot i l) s" "ValueExternalized j x \<in> set (mEvents s)"
  shows "\<exists>c \<in> heldCommitted s. bvalue c = x" "j = i"
proof -
  let ?n = "new_Slot i l"
  have r: "advances ?n s" "ext_rel ?n s" using slot_run_induct [OF assms(1)] by simp_all
  have n: "mPhase ?n = SCP_PHASE_PREPARE" "ext_events ?n = []" "mSlotIndex ?n = i" by (simp_all add: new_Slot_def)
  have "ValueExternalized j x \<in> set (ext_events s)" using assms(2) by simp
  moreover from this have "ext_events s \<noteq> []" by force
  then obtain c where "mPhase s = SCP_PHASE_EXTERNALIZE" "mCommit s = Some c"
      "ext_events s = [ValueExternalized (mSlotIndex s) (bvalue c)]"
    using r(2) n unfolding ext_rel_def by (metis (full_types))
  ultimately show "\<exists>c \<in> heldCommitted s. bvalue c = x" "j = i"
    using r(1) n(3) by (auto simp: heldCommitted_def advances_def)
qed

text \<open>C1: agreement.  Let \<open>I\<close> be an intact set of nodes: their quorum sets are sane, any two quorums
  of theirs meet in \<open>I\<close>, and the nodes outside of \<open>I\<close> neither can nor need to take part in their quorums.
  When the nodes of \<open>I\<close> run the code on one slot, in any interleaving, with any timers, driver answers and
  envelopes that do not forge statements of nodes of \<open>I\<close>, two of them never externalize different values.\<close>

theorem agreement:
  assumes "intact I (mQSet \<circ> ln)" "\<forall>v \<in> I. mNodeID (ln v) = v"
    and "(net_call I ln)\<^sup>*\<^sup>* (\<lambda>v. new_Slot i (ln v)) \<sigma>" and "u \<in> I" "v \<in> I"
    and "ValueExternalized j x \<in> set (mEvents (\<sigma> u))" "ValueExternalized k y \<in> set (mEvents (\<sigma> v))"
  shows "x = y"
proof -
  obtain N where N: "(net_step I ln)\<^sup>*\<^sup>* (net_init i ln) N" "slots N = \<sigma>" and runs: "\<And>v. slot_run (new_Slot i (ln v)) (\<sigma> v)"
    using net_run_simulates [OF assms(3)] by blast
  have inv: "net_inv I ln N" by (rule net_inv_run [OF assms(1) _ N(1) net_inv_init]) (use assms(2) in blast)
  show ?thesis
    using net_inv_agree [OF inv assms(4,5)] externalized_held(1) [OF runs assms(6)] externalized_held(1) [OF runs assms(7)] N(2)
    by blast
qed


section \<open>Two validators\<close>

definition duo_qset :: scp_quorum_set where
  "duo_qset = SCPQuorumSet 2 [1, 2] []"

definition duo_node :: "node_id \<Rightarrow> local_node" where
  "duo_node v = new_LocalNode (\<lambda>_. 9) v True duo_qset"

definition duo :: "node_id \<Rightarrow> scp_ctx" where
  "duo v = \<lparr>ctx_driver = solo_driver\<lparr>getQSet := \<lambda>h. if h = 9 then Some duo_qset else None\<rparr>, ctx_local = duo_node v\<rparr>"

definition lastSaid :: "node_id \<Rightarrow> slot \<Rightarrow> scp_envelope" where
  "lastSaid v s = map_envelope BALLOT (the (map_of (mLatestEnvelopes s) v))"

definition duo_net :: "slot \<times> slot \<Rightarrow> node_id \<Rightarrow> slot" where
  "duo_net ab v = (if v = 1 then fst ab else if v = 2 then snd ab else new_Slot 3 (duo_node v))"

text \<open>A sequence of deliveries: the last statement of one of the two is delivered to the other.\<close>

definition duo_deliver :: "node_id \<Rightarrow> node_id \<Rightarrow> slot \<Rightarrow> slot \<Rightarrow> slot option" where
  "duo_deliver v w s r =
     (let e = lastSaid w r in
      if st_nodeID (env_statement e) = w \<and> env_statement e \<in> set (map fst (mStatementsHistory r))
      then (case Slot_processEnvelope 0 (duo v) e False s of
              Inr (x, s') \<Rightarrow> Some s'
            | Inl _ \<Rightarrow> None)
      else None)"

primrec duo_deliveries :: "bool list \<Rightarrow> slot \<times> slot \<Rightarrow> (slot \<times> slot) option" where
  "duo_deliveries [] ab = Some ab"
| "duo_deliveries (d # ds) ab =
     (case ab of (a, b) \<Rightarrow>
        if d then (case duo_deliver 1 2 a b of Some a' \<Rightarrow> duo_deliveries ds (a', b) | None \<Rightarrow> None)
        else (case duo_deliver 2 1 b a of Some b' \<Rightarrow> duo_deliveries ds (a, b') | None \<Rightarrow> None))"

definition duo_run :: "bool list \<Rightarrow> (slot \<times> slot) option" where
  "duo_run ds =
     (case (Slot_bumpState (duo 1) [7] False (new_Slot 3 (duo_node 1)),
            Slot_bumpState (duo 2) [7] False (new_Slot 3 (duo_node 2))) of
        (Inr (_, a), Inr (_, b)) \<Rightarrow> duo_deliveries ds (a, b)
      | _ \<Rightarrow> None)"

definition duo_end :: "slot \<times> slot" where
  "duo_end = the (duo_run [True, False, True, False, True])"

lemma duo_local:
  "mQSet (duo_node v) = duo_qset" "mNodeID (duo_node v) = v" "ctx_local (duo v) = duo_node v"
  "knows I duo_node (ctx_driver (duo v))"
proof -
  have "normalizeQSet duo_qset None = duo_qset" by code_simp
  then show "mQSet (duo_node v) = duo_qset" for v by (simp add: duo_node_def new_LocalNode_def Let_def)
  then show "knows I duo_node (ctx_driver (duo v))" by (simp add: knows_def duo_def)
qed (simp_all add: duo_node_def new_LocalNode_def Let_def duo_def)

lemma duo_intact: "intact {1, 2} (mQSet \<circ> duo_node)"
proof -
  have "eff 2 = 2" by code_simp
  then have "sat U duo_qset \<longleftrightarrow> 1 \<in> U \<and> 2 \<in> U" for U by (auto simp: duo_qset_def)
  moreover have "isQuorumSetSane duo_qset False" by code_simp
  ultimately show ?thesis by (auto simp: intact_def quorum_in_def duo_local)
qed

lemma duo_net_upd [simp]:
  "duo_net (a, b) 1 = a" "duo_net (a, b) 2 = b"
  "(duo_net (a, b))(1 := a') = duo_net (a', b)" "(duo_net (a, b))(2 := b') = duo_net (a, b')"
  by (auto simp: fun_eq_iff duo_net_def)

lemma duo_delivered:
  assumes "v \<in> {1, 2}" "duo_deliver v w (\<sigma> v) (\<sigma> w) = Some s'"
  shows "net_call {1, 2} duo_node \<sigma> (\<sigma>(v := s'))"
proof -
  let ?e = "lastSaid w (\<sigma> w)"
  from assms(2) obtain x where p: "Slot_processEnvelope 0 (duo v) ?e False (\<sigma> v) = Inr (x, s')"
    and w: "st_nodeID (env_statement ?e) = w" "env_statement ?e \<in> set (map fst (mStatementsHistory (\<sigma> w)))"
    by (auto simp: duo_deliver_def Let_def split: if_splits sum.splits)
  have "e \<in> authentic {1, 2} \<sigma>" if e: "map_envelope BALLOT e = ?e" for e
  proof -
    have "map_statement BALLOT (env_statement e) = env_statement ?e" "st_nodeID (env_statement e) = st_nodeID (env_statement ?e)"
      unfolding e [symmetric] by (simp_all add: map_envelope_def map_statement_def)
    then have "env_statement e \<in> said w (\<sigma> w)" "st_nodeID (env_statement e) = w" using w by (simp_all add: said_def)
    then show ?thesis unfolding authentic_def by blast
  qed
  then have "receivable {?e} \<subseteq> authentic {1, 2} \<sigma>" by (auto simp: receivable_def)
  moreover have "slot_call (duo v) {?e} (\<sigma> v) s'" by (rule slot_call.process [OF _ p]) simp
  ultimately show ?thesis by (rule net_call.call [OF assms(1) duo_local(3,4)])
qed

lemma duo_deliveries_run:
  "duo_deliveries ds ab = Some ab' \<Longrightarrow> (net_call {1, 2} duo_node)\<^sup>*\<^sup>* (duo_net ab) (duo_net ab')"
proof (induction ds arbitrary: ab)
  case (Cons d ds)
  obtain a b where ab: "ab = (a, b)" by (cases ab)
  obtain ab1 where "net_call {1, 2} duo_node (duo_net ab) (duo_net ab1)" "duo_deliveries ds ab1 = Some ab'"
  proof (cases d)
    case True
    then obtain a' where "duo_deliver 1 2 a b = Some a'" "duo_deliveries ds (a', b) = Some ab'"
      using Cons.prems ab by (auto split: option.splits)
    then show ?thesis using that duo_delivered [of 1 2 "duo_net ab" a'] ab by simp
  next
    case False
    then obtain b' where "duo_deliver 2 1 b a = Some b'" "duo_deliveries ds (a, b') = Some ab'"
      using Cons.prems ab by (auto split: option.splits)
    then show ?thesis using that duo_delivered [of 2 1 "duo_net ab" b'] ab by simp
  qed
  then show ?case using Cons.IH by (meson converse_rtranclp_into_rtranclp)
qed simp

lemma duo_run_calls:
  assumes "duo_run ds = Some ab"
  shows "(net_call {1, 2} duo_node)\<^sup>*\<^sup>* (\<lambda>v. new_Slot 3 (duo_node v)) (duo_net ab)"
proof -
  let ?s = "\<lambda>v. new_Slot 3 (duo_node v)"
  from assms obtain x y a b where r: "Slot_bumpState (duo 1) [7] False (?s 1) = Inr (x, a)"
    "Slot_bumpState (duo 2) [7] False (?s 2) = Inr (y, b)" "duo_deliveries ds (a, b) = Some ab"
    by (auto simp: duo_run_def split: sum.splits)
  have bump: "net_call {1, 2} duo_node \<sigma> (\<sigma>(v := s'))"
    if "v \<in> {1, 2}" "Slot_bumpState (duo v) [7] False (\<sigma> v) = Inr (z, s')" for v z s' \<sigma>
    by (rule net_call.call [where \<sigma> = \<sigma> and v = v, OF that(1) duo_local(3,4) _ slot_call.bumped [where E = "{}", OF that(2)]]) (simp add: receivable_def)
  have s: "?s = duo_net (?s 1, ?s 2)" by (auto simp: duo_net_def)
  have "net_call {1, 2} duo_node (duo_net (?s 1, ?s 2)) (duo_net (a, ?s 2))"
    using bump [of 1 "duo_net (?s 1, ?s 2)"] r(1) by simp
  moreover have "net_call {1, 2} duo_node (duo_net (a, ?s 2)) (duo_net (a, b))"
    using bump [of 2 "duo_net (a, ?s 2)"] r(2) by simp
  ultimately show ?thesis
    using duo_deliveries_run [OF r(3)] s by (metis (no_types, lifting) converse_rtranclp_into_rtranclp)
qed

theorem agreement_witness:
  "intact {1, 2} (mQSet \<circ> duo_node) \<and>
   (net_call {1, 2} duo_node)\<^sup>*\<^sup>* (\<lambda>v. new_Slot 3 (duo_node v)) (duo_net duo_end) \<and>
   ValueExternalized 3 [7] \<in> set (mEvents (duo_net duo_end 2)) \<and>
   (\<forall>x. ValueExternalized 3 x \<in> set (mEvents (duo_net duo_end 1)) \<longleftrightarrow> x = [7])"
proof -
  have "case duo_run [True, False, True, False, True] of None \<Rightarrow> False | Some ab \<Rightarrow>
     ValueExternalized 3 [7] \<in> set (mEvents (fst ab)) \<and> ValueExternalized 3 [7] \<in> set (mEvents (snd ab))"
    by code_simp
  then obtain ab where run: "duo_run [True, False, True, False, True] = Some ab"
    and b: "ValueExternalized 3 [7] \<in> set (mEvents (duo_net duo_end 2))"
    and a: "ValueExternalized 3 [7] \<in> set (mEvents (duo_net duo_end 1))"
    by (cases "duo_run [True, False, True, False, True]") (auto simp: duo_end_def duo_net_def)
  have r: "(net_call {1, 2} duo_node)\<^sup>*\<^sup>* (\<lambda>v. new_Slot 3 (duo_node v)) (duo_net duo_end)"
    using duo_run_calls [OF run] run by (simp add: duo_end_def)
  have "x = [7]" if "ValueExternalized 3 x \<in> set (mEvents (duo_net duo_end 1))" for x
    by (rule agreement [OF duo_intact _ r _ _ that b]) (simp_all add: duo_local)
  with a b show ?thesis using duo_intact r by blast
qed

end
