(* ===== verification/Numeric_Spec.thy ===== *)
theory Numeric_Spec
  imports Numeric
begin

text \<open>
  The results of \<^verbatim>\<open>util/numeric.cpp\<close> over the integers, in the form the callers need: a quotient with its
  rounding, and the exact product.
\<close>

section \<open>Quotients\<close>

definition idiv :: "rounding \<Rightarrow> int \<Rightarrow> int \<Rightarrow> int" where
  "idiv r n d = (if r = ROUND_DOWN then n div d else (n + d - 1) div d)"

lemma int_div_round:
  assumes "0 \<le> n" "0 < d"
  shows "int (div_round r (nat n) (nat d)) = idiv r n d"
proof -
  have "int (nat n + nat d - 1) = n + d - 1" using assms by simp
  then show ?thesis using assms by (simp add: div_round_def idiv_def zdiv_int)
qed

lemma idiv_down: "0 < d \<Longrightarrow> d * idiv ROUND_DOWN n d \<le> n \<and> n < d * idiv ROUND_DOWN n d + d"
  unfolding idiv_def
  by (simp add: pos_mod_bound minus_mod_eq_mult_div [symmetric] algebra_simps)

lemma idiv_up: "0 < d \<Longrightarrow> n \<le> d * idiv ROUND_UP n d \<and> d * idiv ROUND_UP n d < n + d"
  using idiv_down [of d "n + d - 1"] unfolding idiv_def by auto

lemma idiv_down_le: "0 < d \<Longrightarrow> n \<le> d * k \<Longrightarrow> idiv ROUND_DOWN n d \<le> k"
  using idiv_down [of d n] by (meson mult_le_cancel_left_pos order_trans)

lemma idiv_up_le:
  assumes "0 < d" "n \<le> d * k"
  shows "idiv ROUND_UP n d \<le> k"
proof -
  have "d * idiv ROUND_UP n d < d * (k + 1)" using idiv_up [OF assms(1), of n] assms(2) by (simp add: algebra_simps)
  then show ?thesis using assms(1) by simp
qed

lemma idiv_down_ge:
  assumes "0 < d" "d * k \<le> n"
  shows "k \<le> idiv ROUND_DOWN n d"
proof -
  have "d * k < d * (idiv ROUND_DOWN n d + 1)" using idiv_down [OF assms(1), of n] assms(2) by (simp add: algebra_simps)
  then show ?thesis using assms(1) by simp
qed

lemma idiv_up_ge: "0 < d \<Longrightarrow> d * k \<le> n \<Longrightarrow> k \<le> idiv ROUND_UP n d"
  using idiv_up [of d n] by (meson mult_le_cancel_left_pos order_trans)

lemma idiv_nonneg [simp]: "0 \<le> n \<Longrightarrow> 0 < d \<Longrightarrow> 0 \<le> idiv r n d"
  by (simp add: idiv_def pos_imp_zdiv_nonneg_iff)

lemma idiv_exact [simp]: "0 < d \<Longrightarrow> idiv r (d * k) d = k" "0 < d \<Longrightarrow> idiv r (k * d) d = k"
proof -
  assume d: "0 < d"
  show "idiv r (d * k) d = k"
  proof (cases r)
    case ROUND_DOWN
    then show ?thesis using d by (simp add: idiv_def)
  next
    case ROUND_UP
    then show ?thesis using idiv_up_le [OF d, of "d * k" k] idiv_up_ge [OF d, of k "d * k"] by simp
  qed
  then show "idiv r (k * d) d = k" by (simp add: mult.commute)
qed

section \<open>Multiplication and division\<close>

lemma bigMultiply_int:
  assumes "0 \<le> a" "a \<le> INT64_MAX" "0 \<le> b" "b \<le> INT64_MAX"
  obtains w where "bigMultiply a b = Inr w" "uint w = a * b"
proof
  let ?w = "bigMultiplyUnsigned (word_of_int a) (word_of_int b)"
  show "bigMultiply a b = Inr ?w" using assms by (simp add: bigMultiply_def)
  have "unat ?w = nat a * nat b" using assms by (simp add: unat_word_of_int64 INT64_MAX_def)
  then show "uint ?w = a * b" using assms by (simp add: uint_nat)
qed

lemma bigDivide_int:
  assumes "0 \<le> A" "A \<le> INT64_MAX" "0 \<le> B" "B \<le> INT64_MAX" "0 < C" "C \<le> INT64_MAX"
  shows "\<exists>v. bigDivide r0 A B C r = Inr (idiv r (A * B) C \<le> INT64_MAX, v) \<and>
    (idiv r (A * B) C \<le> INT64_MAX \<longrightarrow> v = idiv r (A * B) C)"
proof -
  have "int (div_round r (nat A * nat B) (nat C)) = idiv r (A * B) C"
    using int_div_round [of "A * B" C r] assms by (simp add: nat_mult_distrib)
  then show ?thesis using bigDivide_spec [OF assms, of r0 r] by (simp add: fits_int64_def)
qed

lemma bigDivideOrThrow_int:
  assumes "0 \<le> A" "A \<le> INT64_MAX" "0 \<le> B" "B \<le> INT64_MAX" "0 < C" "C \<le> INT64_MAX"
    and "idiv r (A * B) C \<le> INT64_MAX"
  shows "bigDivideOrThrow A B C r = Inr (idiv r (A * B) C)"
  using bigDivide_int [OF assms(1-6), of 0 r] assms(7) by (auto simp: bigDivideOrThrow_def)

lemma bigDivideOrThrow128_int:
  assumes "0 < B" "B \<le> INT64_MAX" "idiv r (uint a) B \<le> INT64_MAX"
  shows "bigDivideOrThrow128 a B r = Inr (idiv r (uint a) B)"
proof -
  let ?B = "word_of_int B :: uint64"
  define q where "q = div_round r (unat a) (unat ?B)"
  have uB: "unat ?B = nat B" using assms by (simp add: unat_word_of_int64 INT64_MAX_def)
  have q: "int q = idiv r (uint a) B"
    unfolding q_def uB unat_eq_nat_uint [of a] by (rule int_div_round [OF uint_ge_0 assms(1)])
  have B0: "?B \<noteq> 0" using uB assms(1) by (metis unat_0 nat_0_iff not_le)
  have fit: "fits_int64 q" using assms(3) q by (simp add: fits_int64_def)
  from bigDivideUnsigned128_spec [OF B0, of 0 a r] fits_int64_64 [OF fit]
  have "bigDivideUnsigned128 0 a ?B r = Inr (q < 2 ^ 64, of_nat q)" by (auto simp: q_def)
  from signed_result [OF this, of 0] fit q show ?thesis
    using assms(1) by (auto simp: bigDivideOrThrow128_def bigDivide128_def)
qed

lemma hugeDivide_int:
  assumes a: "0 < a" "a \<le> INT32_MAX" and C: "0 < uint C" "uint C \<le> INT32_MAX * INT64_MAX"
  shows "\<exists>v. hugeDivide r0 a B C r = Inr (idiv r (a * uint B) (uint C) \<le> INT64_MAX, v) \<and>
    (idiv r (a * uint B) (uint C) \<le> INT64_MAX \<longrightarrow> v = idiv r (a * uint B) (uint C))"
proof -
  have C0: "C \<noteq> 0" using C(1) by auto
  have "int ((2 ^ 31 - 1) * (2 ^ 63 - 1)) = INT32_MAX * INT64_MAX" by (simp add: INT32_MAX_def INT64_MAX_def)
  then have "int (unat C) \<le> int ((2 ^ 31 - 1) * (2 ^ 63 - 1))" using C(2) by (simp only: uint_nat)
  then have Cle: "C \<le> word_of_int INT32_MAX * word_of_int INT64_MAX"
    unfolding word_le_nat_alt unat_huge_limit by (simp only: of_nat_le_iff)
  have "nat a * nat (uint B) = nat (a * uint B)" using a(1) by (simp only: nat_mult_distrib less_imp_le)
  then have "int (div_round r (nat a * unat B) (unat C)) = idiv r (a * uint B) (uint C)"
    unfolding unat_eq_nat_uint by (simp only: int_div_round [OF mult_nonneg_nonneg [OF less_imp_le [OF a(1)] uint_ge_0] C(1)])
  then show ?thesis using hugeDivide_spec [OF a C0 Cle, of r0 B r] by (simp add: fits_int64_def)
qed

end
