(* ===== verification/Offer_Exchange.thy ===== *)
theory Offer_Exchange
  imports Numeric_Spec
begin

text \<open>
  The arithmetic of crossing two offers and of exchanging with a liquidity pool
  (\<^verbatim>\<open>transactions/OfferExchange.cpp\<close>).  An \<^verbatim>\<open>int64_t\<close> or \<^verbatim>\<open>int32_t\<close> is an \<^typ>\<open>int\<close>; products are
  128-bit words as in the code, and the bounds proved below show that no operation leaves its type.
\<close>

section \<open>Definitions\<close>

text \<open>What the code throws: an error of the numeric helpers (among them \<^verbatim>\<open>releaseAssertOrThrow\<close>) or a
  \<^verbatim>\<open>std::runtime_error\<close> with its message; \<open>Undefined\<close> stands for what the language leaves undefined.\<close>

datatype tx_error = NumError num_error | RuntimeError string | Undefined string

definition num :: "num_error + 'a \<Rightarrow> tx_error + 'a" where
  "num r = (case r of Inl e \<Rightarrow> Inl (NumError e) | Inr x \<Rightarrow> Inr x)"

lemma num_simps [simp]: "num (Inl e) = Inl (NumError e)" "num (Inr x) = Inr x"
  by (simp_all add: num_def)

datatype rounding_type = NORMAL | PATH_PAYMENT_STRICT_SEND | PATH_PAYMENT_STRICT_RECEIVE

record price =
  price_n :: int
  price_d :: int

record exchange_result =
  er_numWheatReceived :: int
  er_numSheepSend :: int
  er_reduced :: bool

datatype exchange_result_type = RESULT_NORMAL | REDUCED_TO_ZERO | BOGUS

definition exchange_type :: "exchange_result \<Rightarrow> exchange_result_type" where
  "exchange_type r =
     (if er_numWheatReceived r \<noteq> 0 \<and> er_numSheepSend r \<noteq> 0 then RESULT_NORMAL
      else if er_reduced r then REDUCED_TO_ZERO else BOGUS)"

definition exchangeV2 :: "int \<Rightarrow> price \<Rightarrow> int \<Rightarrow> int \<Rightarrow> tx_error + exchange_result" where
  "exchangeV2 wheatReceived p maxWheatReceive maxSheepSend =
     (let reduced = wheatReceived > maxWheatReceive;
          wheat = min wheatReceived maxWheatReceive in
      seq (num (bigDivide 0 wheat (price_n p) (price_d p) ROUND_DOWN)) (\<lambda>(fits, q).
      let sheep = (if fits then q else INT64_MAX);
          reduced' = (reduced \<or> sheep > maxSheepSend);
          sheep' = min sheep maxSheepSend in
      seq (num (bigDivideOrThrow sheep' (price_d p) (price_n p) ROUND_DOWN)) (\<lambda>w.
      Inr \<lparr>er_numWheatReceived = w, er_numSheepSend = sheep', er_reduced = reduced'\<rparr>)))"

definition exchangeV3 :: "int \<Rightarrow> price \<Rightarrow> int \<Rightarrow> int \<Rightarrow> tx_error + exchange_result" where
  "exchangeV3 wheatReceived p maxWheatReceive maxSheepSend =
     (let reduced = wheatReceived > maxWheatReceive;
          wheat = min wheatReceived maxWheatReceive in
      seq (num (bigDivide 0 wheat (price_n p) (price_d p) ROUND_UP)) (\<lambda>(fits, q).
      let sheep = (if fits then q else INT64_MAX);
          reduced' = (reduced \<or> \<not> fits \<or> sheep > maxSheepSend);
          sheep' = min sheep maxSheepSend in
      seq (num (bigDivide 0 sheep' (price_d p) (price_n p) ROUND_DOWN)) (\<lambda>(fits2, q2).
      let newWheat = (if fits2 then q2 else INT64_MAX) in
      Inr \<lparr>er_numWheatReceived = min wheat newWheat, er_numSheepSend = sheep', er_reduced = reduced'\<rparr>)))"

definition checkPriceErrorBound :: "price \<Rightarrow> int \<Rightarrow> int \<Rightarrow> bool \<Rightarrow> tx_error + bool" where
  "checkPriceErrorBound p wheatReceive sheepSend canFavorWheat =
     (let errN = 100 * price_n p; errD = 100 * price_d p in
      seq (num (bigMultiply errN wheatReceive)) (\<lambda>lhs.
      seq (num (bigMultiply errD sheepSend)) (\<lambda>rhs.
      if canFavorWheat \<and> rhs > lhs then Inr True
      else let absDiff = (if lhs > rhs then lhs - rhs else rhs - lhs) in
        seq (num (bigMultiply (price_n p) wheatReceive)) (\<lambda>cap. Inr (absDiff \<le> cap)))))"

definition calculateOfferValue :: "int \<Rightarrow> int \<Rightarrow> int \<Rightarrow> int \<Rightarrow> tx_error + uint128" where
  "calculateOfferValue priceN priceD maxSend maxReceive =
     seq (num (bigMultiply maxSend priceN)) (\<lambda>sendValue.
     seq (num (bigMultiply maxReceive priceD)) (\<lambda>receiveValue.
     Inr (min sendValue receiveValue)))"

record exchange_result_v10 =
  numWheatReceived :: int
  numSheepSend :: int
  wheatStays :: bool

definition exchangeV10WithoutPriceErrorThresholds ::
  "price \<Rightarrow> int \<Rightarrow> int \<Rightarrow> int \<Rightarrow> int \<Rightarrow> rounding_type \<Rightarrow> tx_error + exchange_result_v10" where
  "exchangeV10WithoutPriceErrorThresholds p maxWheatSend maxWheatReceive maxSheepSend maxSheepReceive round =
     seq (calculateOfferValue (price_n p) (price_d p) maxWheatSend maxSheepReceive) (\<lambda>wheatValue.
     seq (calculateOfferValue (price_d p) (price_n p) maxSheepSend maxWheatReceive) (\<lambda>sheepValue.
     let stays = wheatValue > sheepValue in
     seq (if stays
          then if round = PATH_PAYMENT_STRICT_SEND
               then seq (num (bigDivideOrThrow128 sheepValue (price_n p) ROUND_DOWN)) (\<lambda>w.
                    Inr (w, min maxSheepSend maxSheepReceive))
               else if price_n p > price_d p \<or> round = PATH_PAYMENT_STRICT_RECEIVE
               then seq (num (bigDivideOrThrow128 sheepValue (price_n p) ROUND_DOWN)) (\<lambda>w.
                    seq (num (bigDivideOrThrow w (price_n p) (price_d p) ROUND_UP)) (\<lambda>s. Inr (w, s)))
               else seq (num (bigDivideOrThrow128 sheepValue (price_d p) ROUND_DOWN)) (\<lambda>s.
                    seq (num (bigDivideOrThrow s (price_d p) (price_n p) ROUND_DOWN)) (\<lambda>w. Inr (w, s)))
          else if price_n p > price_d p
               then seq (num (bigDivideOrThrow128 wheatValue (price_n p) ROUND_DOWN)) (\<lambda>w.
                    seq (num (bigDivideOrThrow w (price_n p) (price_d p) ROUND_DOWN)) (\<lambda>s. Inr (w, s)))
               else seq (num (bigDivideOrThrow128 wheatValue (price_d p) ROUND_DOWN)) (\<lambda>s.
                    seq (num (bigDivideOrThrow s (price_d p) (price_n p) ROUND_UP)) (\<lambda>w. Inr (w, s))))
       (\<lambda>(wheatReceive, sheepSend).
     if wheatReceive < 0 \<or> wheatReceive > min maxWheatReceive maxWheatSend
     then Inl (RuntimeError ''wheatReceive out of bounds'')
     else if sheepSend < 0 \<or> sheepSend > min maxSheepReceive maxSheepSend
     then Inl (RuntimeError ''sheepSend out of bounds'')
     else Inr \<lparr>numWheatReceived = wheatReceive, numSheepSend = sheepSend, wheatStays = stays\<rparr>)))"

definition applyPriceErrorThresholds ::
  "price \<Rightarrow> int \<Rightarrow> int \<Rightarrow> bool \<Rightarrow> rounding_type \<Rightarrow> tx_error + exchange_result_v10" where
  "applyPriceErrorThresholds p wheatReceive sheepSend stays round =
     seq (if wheatReceive > 0 \<and> sheepSend > 0
          then seq (num (bigMultiply wheatReceive (price_n p))) (\<lambda>wheatReceiveValue.
               seq (num (bigMultiply sheepSend (price_d p))) (\<lambda>sheepSendValue.
               if stays \<and> sheepSendValue < wheatReceiveValue
               then Inl (RuntimeError ''favored sheep when wheat stays'')
               else if \<not> stays \<and> sheepSendValue > wheatReceiveValue
               then Inl (RuntimeError ''favored wheat when sheep stays'')
               else if round = NORMAL
               then seq (checkPriceErrorBound p wheatReceive sheepSend False) (\<lambda>bounded.
                    Inr (if \<not> bounded then (0, 0) else (wheatReceive, sheepSend)))
               else seq (checkPriceErrorBound p wheatReceive sheepSend True) (\<lambda>bounded.
                    if \<not> bounded then Inl (RuntimeError ''exceeded price error bound'')
                    else Inr (wheatReceive, sheepSend))))
          else if round = PATH_PAYMENT_STRICT_SEND
          then if sheepSend = 0 then Inl (RuntimeError ''invalid amount of sheep sent'')
               else Inr (wheatReceive, sheepSend)
          else Inr (0, 0))
       (\<lambda>(w, s). Inr \<lparr>numWheatReceived = w, numSheepSend = s, wheatStays = stays\<rparr>)"

definition exchangeV10 ::
  "price \<Rightarrow> int \<Rightarrow> int \<Rightarrow> int \<Rightarrow> int \<Rightarrow> rounding_type \<Rightarrow> tx_error + exchange_result_v10" where
  "exchangeV10 p maxWheatSend maxWheatReceive maxSheepSend maxSheepReceive round =
     seq (exchangeV10WithoutPriceErrorThresholds p maxWheatSend maxWheatReceive maxSheepSend maxSheepReceive round)
       (\<lambda>before. applyPriceErrorThresholds p (numWheatReceived before) (numSheepSend before) (wheatStays before) round)"

definition adjustOffer :: "price \<Rightarrow> int \<Rightarrow> int \<Rightarrow> tx_error + int" where
  "adjustOffer p maxWheatSend maxSheepReceive =
     seq (exchangeV10 p maxWheatSend INT64_MAX INT64_MAX maxSheepReceive NORMAL) (\<lambda>res. Inr (numWheatReceived res))"

text \<open>The amounts are references: the result is whether the exchange is possible, and both amounts.\<close>

definition exchangeWithPool ::
  "int \<Rightarrow> int \<Rightarrow> int \<Rightarrow> int \<Rightarrow> int \<Rightarrow> int \<Rightarrow> int \<Rightarrow> rounding_type \<Rightarrow> tx_error + (bool \<times> int \<times> int)" where
  "exchangeWithPool reservesToPool maxSendToPool toPool reservesFromPool maxReceiveFromPool fromPool feeBps round =
     (let maxBps = 10000 in
      if feeBps < 0 \<or> maxBps \<le> feeBps then Inl (RuntimeError ''Liquidity pool fee out of range'')
      else if reservesToPool \<le> 0 \<or> reservesFromPool \<le> 0
      then Inl (RuntimeError ''non-positive reserve in exchangeWithPool'')
      else case round of
        PATH_PAYMENT_STRICT_SEND \<Rightarrow>
          if maxReceiveFromPool \<noteq> INT64_MAX then Inl (RuntimeError ''strict send with bounded receive?'')
          else let maxReceive = reservesFromPool in
            if maxSendToPool > INT64_MAX - reservesToPool then Inr (False, toPool, fromPool)
            else let send = maxSendToPool in
              seq (num (bigMultiply maxBps reservesToPool)) (\<lambda>d1.
              seq (num (bigMultiply (maxBps - feeBps) send)) (\<lambda>d2.
              seq (num (bigMultiply reservesFromPool send)) (\<lambda>b.
              seq (num (hugeDivide fromPool (maxBps - feeBps) b (d1 + d2) ROUND_DOWN)) (\<lambda>(res, receive).
              if res \<and> receive > maxReceive then Inl (RuntimeError ''received too much from pool'')
              else if res \<and> receive < 0 then Inl (RuntimeError ''fromPool is negative'')
              else Inr (res \<and> receive \<noteq> 0, send, receive)))))
      | PATH_PAYMENT_STRICT_RECEIVE \<Rightarrow>
          if maxSendToPool \<noteq> INT64_MAX then Inl (RuntimeError ''strict receive with bounded send?'')
          else let maxSend = INT64_MAX - reservesToPool in
            if maxReceiveFromPool \<ge> reservesFromPool then Inr (False, toPool, fromPool)
            else let receive = maxReceiveFromPool in
              seq (num (bigMultiply reservesToPool receive)) (\<lambda>b.
              seq (num (bigMultiply (reservesFromPool - receive) (maxBps - feeBps))) (\<lambda>c.
              seq (num (hugeDivide toPool maxBps b c ROUND_UP)) (\<lambda>(res, send).
              if res \<and> send < 0 then Inl (RuntimeError ''toPool is negative'')
              else Inr (res \<and> send \<le> maxSend, send, receive))))
      | NORMAL \<Rightarrow> Inl (RuntimeError ''Invalid rounding type''))"

section \<open>The crossing of two offers\<close>

definition price_ok :: "price \<Rightarrow> bool" where
  "price_ok p \<longleftrightarrow> 0 < price_n p \<and> price_n p \<le> INT32_MAX \<and> 0 < price_d p \<and> price_d p \<le> INT32_MAX"

definition amount :: "int \<Rightarrow> bool" where
  "amount a \<longleftrightarrow> 0 \<le> a \<and> a \<le> INT64_MAX"

lemma price_okD:
  assumes "price_ok p"
  shows "0 < price_n p" "price_n p \<le> INT64_MAX" "0 < price_d p" "price_d p \<le> INT64_MAX"
    "100 * price_n p \<le> INT64_MAX" "100 * price_d p \<le> INT64_MAX"
  using assms by (auto simp: price_ok_def INT32_MAX_def INT64_MAX_def)

lemma amountD: "amount a \<Longrightarrow> 0 \<le> a" "amount a \<Longrightarrow> a \<le> INT64_MAX"
  by (simp_all add: amount_def)

lemma amount_le: "amount b \<Longrightarrow> 0 \<le> a \<Longrightarrow> a \<le> b \<Longrightarrow> amount a"
  by (simp add: amount_def)

lemma amount_simps [simp]: "amount 0" "amount INT64_MAX" "amount a \<Longrightarrow> amount b \<Longrightarrow> amount (min a b)"
  by (auto simp: amount_def INT64_MAX_def min_def)

lemma calculateOfferValue_int:
  assumes "0 \<le> n" "n \<le> INT64_MAX" "0 \<le> d" "d \<le> INT64_MAX" "amount send" "amount receive"
  obtains w where "calculateOfferValue n d send receive = Inr w" "uint w = min (send * n) (receive * d)"
proof -
  obtain a b where "bigMultiply send n = Inr a" "uint a = send * n" "bigMultiply receive d = Inr b" "uint b = receive * d"
    using bigMultiply_int assms unfolding amount_def by metis
  moreover from this have "uint (min a b) = min (send * n) (receive * d)"
    by (simp add: min_def word_le_def)
  ultimately show ?thesis using that by (simp add: calculateOfferValue_def)
qed

text \<open>The sizes of the two offers, scaled to sheep times \<open>d\<close>, and the amounts exchanged.\<close>

definition wheatValue :: "price \<Rightarrow> int \<Rightarrow> int \<Rightarrow> int" where
  "wheatValue p maxWheatSend maxSheepReceive = min (maxWheatSend * price_n p) (maxSheepReceive * price_d p)"

definition sheepValue :: "price \<Rightarrow> int \<Rightarrow> int \<Rightarrow> int" where
  "sheepValue p maxWheatReceive maxSheepSend = min (maxSheepSend * price_d p) (maxWheatReceive * price_n p)"

definition amountsV10 :: "price \<Rightarrow> int \<Rightarrow> int \<Rightarrow> int \<Rightarrow> int \<Rightarrow> rounding_type \<Rightarrow> int \<times> int" where
  "amountsV10 p ws wr ss sr round =
     (let n = price_n p; d = price_d p; wv = wheatValue p ws sr; sv = sheepValue p wr ss in
      if sv < wv
      then if round = PATH_PAYMENT_STRICT_SEND then (idiv ROUND_DOWN sv n, min ss sr)
           else if n > d \<or> round = PATH_PAYMENT_STRICT_RECEIVE
           then (idiv ROUND_DOWN sv n, idiv ROUND_UP (idiv ROUND_DOWN sv n * n) d)
           else (idiv ROUND_DOWN (idiv ROUND_DOWN sv d * d) n, idiv ROUND_DOWN sv d)
      else if n > d then (idiv ROUND_DOWN wv n, idiv ROUND_DOWN (idiv ROUND_DOWN wv n * n) d)
           else (idiv ROUND_UP (idiv ROUND_DOWN wv d * d) n, idiv ROUND_DOWN wv d))"

lemma floor_bound:
  assumes "0 < n" "v \<le> a * n"
  shows "idiv ROUND_DOWN v n \<le> a"
  using idiv_down_le [OF assms(1), of v a] assms(2) by (simp add: mult.commute)

lemma floor_mult: "0 < n \<Longrightarrow> idiv ROUND_DOWN v n * n \<le> v"
  using idiv_down [of n v] by (simp add: mult.commute)

lemma ceil_bound:
  assumes "0 < n" "v \<le> a * n"
  shows "idiv ROUND_UP v n \<le> a"
  using idiv_up_le [OF assms(1), of v a] assms(2) by (simp add: mult.commute)

lemma ceil_mult: "0 < n \<Longrightarrow> v \<le> idiv ROUND_UP v n * n"
  using idiv_up [of n v] by (simp add: mult.commute)

lemma idiv_down_mono: "0 < d \<Longrightarrow> v \<le> v' \<Longrightarrow> idiv ROUND_DOWN v d \<le> idiv ROUND_DOWN v' d"
  by (simp add: idiv_def zdiv_mono1)

text \<open>One amount is rounded down from the smaller value, the other is computed from it.\<close>

lemma two_roundings:
  assumes "0 < n" "0 < d" "0 \<le> v" "v \<le> a * n" "v \<le> a' * n" "v \<le> b * d" "v \<le> b' * d"
  defines "x \<equiv> idiv ROUND_DOWN v n"
  shows "0 \<le> x" "x \<le> a" "x \<le> a'" "0 \<le> idiv r (x * n) d" "idiv r (x * n) d \<le> b" "idiv r (x * n) d \<le> b'"
    "x * n \<le> idiv ROUND_UP (x * n) d * d" "idiv ROUND_DOWN (x * n) d * d \<le> x * n" "x * n \<le> v"
proof -
  show x: "0 \<le> x" "x \<le> a" "x \<le> a'" "x * n \<le> v"
    using assms floor_bound [OF assms(1)] floor_mult [OF assms(1)] by auto
  show "0 \<le> idiv r (x * n) d" using x assms by simp
  have "x * n \<le> b * d" "x * n \<le> b' * d" using x(4) assms by linarith+
  then show "idiv r (x * n) d \<le> b" "idiv r (x * n) d \<le> b'"
    using floor_bound [OF assms(2)] ceil_bound [OF assms(2)] by (cases r; simp)+
  show "x * n \<le> idiv ROUND_UP (x * n) d * d" "idiv ROUND_DOWN (x * n) d * d \<le> x * n"
    using floor_mult [OF assms(2)] ceil_mult [OF assms(2)] by blast+
qed

lemma amountsV10_bounds:
  assumes p: "price_ok p" and a: "amount ws" "amount wr" "amount ss" "amount sr"
    and ws: "amountsV10 p ws wr ss sr round = (w, s)"
  shows "0 \<le> w" "w \<le> ws" "w \<le> wr" "0 \<le> s" "s \<le> ss" "s \<le> sr"
    and "sheepValue p wr ss < wheatValue p ws sr \<Longrightarrow> w * price_n p \<le> s * price_d p"
    and "\<not> sheepValue p wr ss < wheatValue p ws sr \<Longrightarrow> s * price_d p \<le> w * price_n p"
proof -
  let ?n = "price_n p" and ?d = "price_d p" and ?wv = "wheatValue p ws sr" and ?sv = "sheepValue p wr ss"
  note pd = price_okD(1,3) [OF p]
  have v: "0 \<le> ?wv" "?wv \<le> ws * ?n" "?wv \<le> sr * ?d" "0 \<le> ?sv" "?sv \<le> ss * ?d" "?sv \<le> wr * ?n"
    using a pd by (auto simp: wheatValue_def sheepValue_def amount_def)
  have "0 \<le> w \<and> w \<le> ws \<and> w \<le> wr \<and> 0 \<le> s \<and> s \<le> ss \<and> s \<le> sr \<and>
    (?sv < ?wv \<longrightarrow> w * ?n \<le> s * ?d) \<and> (\<not> ?sv < ?wv \<longrightarrow> s * ?d \<le> w * ?n)"
  proof (cases "?sv < ?wv")
    case stays: True
    then have sv: "?sv \<le> ws * ?n" "?sv \<le> sr * ?d" using v by linarith+
    note wheat = two_roundings [OF pd v(4) sv(1) v(6) v(5) sv(2)]
      and sheep = two_roundings [OF pd(2,1) v(4) v(5) sv(2) sv(1) v(6)]
    have "idiv ROUND_DOWN ?sv ?n * ?n \<le> min ss sr * ?d" using wheat(9) v sv by (simp add: min_def)
    then show ?thesis using ws stays wheat sheep a by (auto simp: amountsV10_def Let_def amount_def split: if_splits)
  next
    case goes: False
    then have wv: "?wv \<le> ss * ?d" "?wv \<le> wr * ?n" using v by linarith+
    note wheat = two_roundings [OF pd v(1,2) wv(2,1) v(3)]
      and sheep = two_roundings [OF pd(2,1) v(1) wv(1) v(3,2) wv(2)]
    show ?thesis using ws goes wheat sheep by (auto simp: amountsV10_def Let_def split: if_splits)
  qed
  then show "0 \<le> w" "w \<le> ws" "w \<le> wr" "0 \<le> s" "s \<le> ss" "s \<le> sr"
    "?sv < ?wv \<Longrightarrow> w * ?n \<le> s * ?d" "\<not> ?sv < ?wv \<Longrightarrow> s * ?d \<le> w * ?n" by blast+
qed

text \<open>The code computes these amounts and never throws.\<close>

lemma exchangeV10Without_exact:
  assumes p: "price_ok p" and a: "amount ws" "amount wr" "amount ss" "amount sr"
  shows "exchangeV10WithoutPriceErrorThresholds p ws wr ss sr round =
    (case amountsV10 p ws wr ss sr round of (w, s) \<Rightarrow>
       Inr \<lparr>numWheatReceived = w, numSheepSend = s, wheatStays = sheepValue p wr ss < wheatValue p ws sr\<rparr>)"
proof -
  let ?n = "price_n p" and ?d = "price_d p" and ?wv = "wheatValue p ws sr" and ?sv = "sheepValue p wr ss"
  note pd = price_okD [OF p] and ad = a [THEN amountD(1)] a [THEN amountD(2)]
  obtain x where x: "calculateOfferValue ?n ?d ws sr = Inr x" "uint x = ?wv"
    by (rule calculateOfferValue_int [of ?n ?d ws sr]) (use pd a in \<open>auto simp: wheatValue_def\<close>)
  obtain y where y: "calculateOfferValue ?d ?n ss wr = Inr y" "uint y = ?sv"
    by (rule calculateOfferValue_int [of ?d ?n ss wr]) (use pd a in \<open>auto simp: sheepValue_def\<close>)
  obtain w s where ws: "amountsV10 p ws wr ss sr round = (w, s)" by (cases "amountsV10 p ws wr ss sr round")
  note b = amountsV10_bounds [OF p a ws]
  have fits: "w \<le> INT64_MAX" "s \<le> INT64_MAX" using b ad by linarith+
  have stays: "y < x \<longleftrightarrow> ?sv < ?wv" by (simp add: word_less_def x y)
  note d128 = bigDivideOrThrow128_int [OF pd(1,2)] bigDivideOrThrow128_int [OF pd(3,4)]
  note d64 = bigDivideOrThrow_int [OF _ _ _ _ pd(1,2)] bigDivideOrThrow_int [OF _ _ _ _ pd(3,4)]
  show ?thesis
    using ws b fits pd ad
    by (auto simp: exchangeV10WithoutPriceErrorThresholds_def x y stays amountsV10_def Let_def d128 d64
        min_less_iff_disj simp del: idiv_nonneg split: if_splits)
qed

lemma idiv_zero [simp]: "0 < d \<Longrightarrow> idiv r 0 d = 0"
  using idiv_exact(1) [of d r 0] by simp

lemma rounded_zero:
  assumes "0 < n" "0 < d" "0 \<le> x" "r = ROUND_UP \<or> d \<le> n"
  shows "idiv r (x * n) d = 0 \<longleftrightarrow> x = 0"
proof
  assume z: "idiv r (x * n) d = 0"
  show "x = 0"
  proof (cases r)
    case ROUND_UP
    then show ?thesis using z ceil_mult [OF assms(2), of "x * n"] assms by (simp add: mult_le_0_iff)
  next
    case ROUND_DOWN
    then have "d \<le> n" using assms(4) by simp
    have "x * n < d" using z ROUND_DOWN idiv_down [OF assms(2), of "x * n"] by simp
    then have "\<not> 1 * n \<le> x * n" using \<open>d \<le> n\<close> by simp
    then have "\<not> 1 \<le> x" using assms(1) by (simp add: mult_le_cancel_right)
    then show ?thesis using assms(3) by simp
  qed
qed (use assms(2) in simp)

lemma amountsV10_zero:
  assumes p: "price_ok p" and a: "amount ws" "amount wr" "amount ss" "amount sr"
    and ws: "amountsV10 p ws wr ss sr round = (w, s)"
    and r: "round \<noteq> PATH_PAYMENT_STRICT_SEND \<or> \<not> sheepValue p wr ss < wheatValue p ws sr"
  shows "w = 0 \<longleftrightarrow> s = 0"
proof -
  note pd = price_okD(1,3) [OF p] and b = amountsV10_bounds(1,4) [OF p a ws]
  note z = rounded_zero [OF pd] rounded_zero [OF pd(2,1)]
  show ?thesis using ws r b pd by (auto simp: amountsV10_def Let_def z split: if_splits)
qed

lemma abs_word_diff: "uint (if lhs > rhs then lhs - rhs else rhs - lhs) = \<bar>uint lhs - uint rhs\<bar>"
  for lhs rhs :: uint128
proof -
  have "y \<le> x \<Longrightarrow> uint (x - y) = uint x - uint y" for x y :: uint128
    by (simp add: uint_sub_lem word_le_def)
  then show ?thesis by (auto simp: word_less_def not_less word_le_def)
qed

lemma checkPriceErrorBound_int:
  assumes p: "price_ok p" and a: "amount w" "amount s"
  shows "checkPriceErrorBound p w s fav =
    Inr (fav \<and> 100 * (price_n p * w) < 100 * (price_d p * s) \<or>
         \<bar>100 * (price_n p * w) - 100 * (price_d p * s)\<bar> \<le> price_n p * w)"
proof -
  note pd = price_okD [OF p] and ad = a [THEN amountD(1)] a [THEN amountD(2)]
  obtain l where l: "bigMultiply (100 * price_n p) w = Inr l" "uint l = 100 * (price_n p * w)"
    by (rule bigMultiply_int [of "100 * price_n p" w]) (use pd ad in \<open>auto simp: mult.assoc\<close>)
  obtain r where r: "bigMultiply (100 * price_d p) s = Inr r" "uint r = 100 * (price_d p * s)"
    by (rule bigMultiply_int [of "100 * price_d p" s]) (use pd ad in \<open>auto simp: mult.assoc\<close>)
  obtain c where c: "bigMultiply (price_n p) w = Inr c" "uint c = price_n p * w"
    by (rule bigMultiply_int [of "price_n p" w]) (use pd ad in auto)
  have diff: "(if l > r then l - r else r - l) \<le> c \<longleftrightarrow> \<bar>100 * (price_n p * w) - 100 * (price_d p * s)\<bar> \<le> price_n p * w"
    unfolding word_le_def abs_word_diff [of r l] l(2) r(2) c(2) ..
  have "l < r \<longleftrightarrow> 100 * (price_n p * w) < 100 * (price_d p * s)" unfolding word_less_def l(2) r(2) ..
  then show ?thesis
    unfolding checkPriceErrorBound_def Let_def l(1) r(1) c(1) num_simps seq_simps diff by auto
qed

text \<open>The relative error of the price is at most 1 percent.\<close>

definition bounded_error :: "price \<Rightarrow> int \<Rightarrow> int \<Rightarrow> bool" where
  "bounded_error p w s \<longleftrightarrow> \<bar>100 * (price_n p * w) - 100 * (price_d p * s)\<bar> \<le> price_n p * w"

lemma applyPriceErrorThresholds_normal:
  assumes p: "price_ok p" and a: "amount w" "amount s" and z: "w = 0 \<longleftrightarrow> s = 0"
    and f: "stays \<Longrightarrow> w * price_n p \<le> s * price_d p" "\<not> stays \<Longrightarrow> s * price_d p \<le> w * price_n p"
  shows "applyPriceErrorThresholds p w s stays NORMAL =
    Inr (if bounded_error p w s then \<lparr>numWheatReceived = w, numSheepSend = s, wheatStays = stays\<rparr>
         else \<lparr>numWheatReceived = 0, numSheepSend = 0, wheatStays = stays\<rparr>)"
proof (cases "w = 0")
  case True
  then show ?thesis using z by (simp add: applyPriceErrorThresholds_def)
next
  case False
  then have pos: "0 < w" "0 < s" using z a by (auto simp: amount_def)
  note pd = price_okD [OF p] and ad = a [THEN amountD(1)] a [THEN amountD(2)]
  obtain x where x: "bigMultiply w (price_n p) = Inr x" "uint x = w * price_n p"
    by (rule bigMultiply_int [of w "price_n p"]) (use pd ad in auto)
  obtain y where y: "bigMultiply s (price_d p) = Inr y" "uint y = s * price_d p"
    by (rule bigMultiply_int [of s "price_d p"]) (use pd ad in auto)
  have "stays \<Longrightarrow> \<not> y < x" "\<not> stays \<Longrightarrow> \<not> x < y" using f by (simp_all add: word_less_def x y)
  then show ?thesis using pos
    by (cases stays) (simp_all add: applyPriceErrorThresholds_def x(1) y(1) checkPriceErrorBound_int [OF p a] bounded_error_def)
qed

lemma applyPriceErrorThresholds_path:
  assumes p: "price_ok p" and a: "amount w" "amount s"
    and r: "round \<noteq> NORMAL" "round = PATH_PAYMENT_STRICT_RECEIVE \<Longrightarrow> w = 0 \<longleftrightarrow> s = 0"
      "round = PATH_PAYMENT_STRICT_SEND \<Longrightarrow> s \<noteq> 0"
    and f: "stays \<Longrightarrow> w * price_n p \<le> s * price_d p" "\<not> stays \<Longrightarrow> s * price_d p \<le> w * price_n p"
      "\<not> stays \<Longrightarrow> bounded_error p w s"
  shows "applyPriceErrorThresholds p w s stays round = Inr \<lparr>numWheatReceived = w, numSheepSend = s, wheatStays = stays\<rparr>"
proof (cases "0 < w \<and> 0 < s")
  case False
  then have "round \<noteq> PATH_PAYMENT_STRICT_SEND \<Longrightarrow> w = 0 \<and> s = 0"
    using a r by (cases round) (auto simp: amount_def)
  with False r(3) show ?thesis by (auto simp: applyPriceErrorThresholds_def)
next
  case True
  note pd = price_okD [OF p] and ad = a [THEN amountD(1)] a [THEN amountD(2)]
  obtain x where x: "bigMultiply w (price_n p) = Inr x" "uint x = w * price_n p"
    by (rule bigMultiply_int [of w "price_n p"]) (use pd ad in auto)
  obtain y where y: "bigMultiply s (price_d p) = Inr y" "uint y = s * price_d p"
    by (rule bigMultiply_int [of s "price_d p"]) (use pd ad in auto)
  have cmp: "stays \<Longrightarrow> \<not> y < x" "\<not> stays \<Longrightarrow> \<not> x < y" using f(1,2) by (simp_all add: word_less_def x y)
  have "100 * (price_n p * w) < 100 * (price_d p * s) \<or> bounded_error p w s"
  proof (cases "stays \<and> price_n p * w \<noteq> price_d p * s")
    case True
    then have "price_n p * w < price_d p * s" using f(1) by (simp add: mult.commute)
    then show ?thesis by linarith
  next
    case False
    then show ?thesis using f(3) True pd by (cases stays) (simp_all add: bounded_error_def)
  qed
  then have "checkPriceErrorBound p w s True = Inr True"
    by (auto simp: checkPriceErrorBound_int [OF p a] bounded_error_def)
  then show ?thesis using True cmp r(1) by (cases stays) (simp_all add: applyPriceErrorThresholds_def x(1) y(1))
qed

text \<open>C12: crossing two offers outside of a path payment never throws.  The amounts are within the limits of
  both parties; nothing is received for free; the price paid is within 1 percent of the price of the offer;
  and the rounding error favors the offer that stays in the book.\<close>

theorem exchangeV10_normal:
  assumes "price_ok p" "amount maxWheatSend" "amount maxWheatReceive" "amount maxSheepSend" "amount maxSheepReceive"
  shows "\<exists>r. exchangeV10 p maxWheatSend maxWheatReceive maxSheepSend maxSheepReceive NORMAL = Inr r \<and>
    0 \<le> numWheatReceived r \<and> numWheatReceived r \<le> min maxWheatReceive maxWheatSend \<and>
    0 \<le> numSheepSend r \<and> numSheepSend r \<le> min maxSheepReceive maxSheepSend \<and>
    (numWheatReceived r = 0 \<longleftrightarrow> numSheepSend r = 0) \<and> bounded_error p (numWheatReceived r) (numSheepSend r) \<and>
    (if wheatStays r then numWheatReceived r * price_n p \<le> numSheepSend r * price_d p
     else numSheepSend r * price_d p \<le> numWheatReceived r * price_n p)"
proof -
  obtain w s where ws: "amountsV10 p maxWheatSend maxWheatReceive maxSheepSend maxSheepReceive NORMAL = (w, s)"
    by fastforce
  let ?stays = "sheepValue p maxWheatReceive maxSheepSend < wheatValue p maxWheatSend maxSheepReceive"
  note b = amountsV10_bounds [OF assms ws] and z = amountsV10_zero [OF assms ws, simplified]
  have a: "amount w" "amount s" using b assms by (auto simp: amount_def)
  show ?thesis
    using b z applyPriceErrorThresholds_normal [OF assms(1) a z b(7,8)] exchangeV10Without_exact [OF assms, of NORMAL] ws
    by (auto simp: exchangeV10_def bounded_error_def)
qed

theorem exchangeV10_normal_witness:
  "price_ok \<lparr>price_n = 3, price_d = 2\<rparr> \<and>
   exchangeV10 \<lparr>price_n = 3, price_d = 2\<rparr> 10 100 13 100 NORMAL =
     Inr \<lparr>numWheatReceived = 8, numSheepSend = 12, wheatStays = True\<rparr> \<and>
   bounded_error \<lparr>price_n = 3, price_d = 2\<rparr> 8 12 \<and> (8 :: int) * 3 \<le> 12 * 2"
proof -
  let ?p = "\<lparr>price_n = 3, price_d = 2\<rparr>"
  have p: "price_ok ?p" by (simp add: price_ok_def INT32_MAX_def)
  have a: "amount 10" "amount 100" "amount 13" by (simp_all add: amount_def INT64_MAX_def)
  have e: "exchangeV10 ?p 10 100 13 100 NORMAL = Inr \<lparr>numWheatReceived = 8, numSheepSend = 12, wheatStays = True\<rparr>"
    by code_simp
  from exchangeV10_normal [OF p a(1,2,3,2)] e p show ?thesis by simp
qed

lemma exchangeV10_normal_amounts:
  assumes "price_ok p" "amount ws" "amount wr" "amount ss" "amount sr" "amountsV10 p ws wr ss sr NORMAL = (w, s)"
  shows "exchangeV10 p ws wr ss sr NORMAL =
    Inr \<lparr>numWheatReceived = if bounded_error p w s then w else 0, numSheepSend = if bounded_error p w s then s else 0,
      wheatStays = sheepValue p wr ss < wheatValue p ws sr\<rparr>"
proof -
  note b = amountsV10_bounds [OF assms] and z = amountsV10_zero [OF assms, simplified]
  have a: "amount w" "amount s" using b assms by (auto simp: amount_def)
  show ?thesis
    using applyPriceErrorThresholds_normal [OF assms(1) a z b(7,8)] exchangeV10Without_exact [OF assms(1-5), of NORMAL] assms(6)
    by (simp add: exchangeV10_def)
qed

section \<open>Adjusted offers\<close>

text \<open>A buyer without limits never outlasts the offer, so only the wheat value counts.\<close>

lemma unlimited_sheep_stays:
  assumes "price_ok p" "amount ws" "amount sr"
  shows "wheatValue p ws sr \<le> sheepValue p INT64_MAX INT64_MAX"
proof -
  have "ws * price_n p \<le> INT64_MAX * price_n p" "sr * price_d p \<le> INT64_MAX * price_d p"
    using amountD(2) [OF assms(2)] amountD(2) [OF assms(3)] price_okD(1,3) [OF assms(1)] by (intro mult_right_mono; simp)+
  then show ?thesis by (auto simp: wheatValue_def sheepValue_def min_def)
qed

definition offerAmounts :: "price \<Rightarrow> int \<Rightarrow> int \<times> int" where
  "offerAmounts p v =
     (if price_n p > price_d p
      then (idiv ROUND_DOWN v (price_n p), idiv ROUND_DOWN (idiv ROUND_DOWN v (price_n p) * price_n p) (price_d p))
      else (idiv ROUND_UP (idiv ROUND_DOWN v (price_d p) * price_d p) (price_n p), idiv ROUND_DOWN v (price_d p)))"

lemma amountsV10_goes:
  assumes "\<not> sheepValue p wr ss < wheatValue p ws sr"
  shows "amountsV10 p ws wr ss sr round = offerAmounts p (wheatValue p ws sr)"
  using assms by (simp add: amountsV10_def offerAmounts_def Let_def)

lemma adjustOffer_amounts:
  assumes p: "price_ok p" "amount ws" "amount sr" and w: "offerAmounts p (wheatValue p ws sr) = (w, s)"
  shows "adjustOffer p ws sr = Inr (if bounded_error p w s then w else 0)" "0 \<le> w" "w \<le> ws" "0 \<le> s" "s \<le> sr"
    "w = 0 \<longleftrightarrow> s = 0"
proof -
  have a: "amountsV10 p ws INT64_MAX INT64_MAX sr NORMAL = (w, s)"
    using amountsV10_goes unlimited_sheep_stays [OF p] w by (simp add: not_less)
  show "adjustOffer p ws sr = Inr (if bounded_error p w s then w else 0)"
    using exchangeV10_normal_amounts [OF p(1,2) _ _ p(3) a] by (simp add: adjustOffer_def)
  show "0 \<le> w" "w \<le> ws" "0 \<le> s" "s \<le> sr"
    using amountsV10_bounds [OF p(1,2) _ _ p(3) a] by simp_all
  show "w = 0 \<longleftrightarrow> s = 0" using amountsV10_zero [OF p(1,2) _ _ p(3) a] by simp
qed

text \<open>Adjusting to the wheat received gives the same amounts again.\<close>

lemma offerAmounts_again:
  assumes p: "price_ok p" "amount ws" "amount sr" and w: "offerAmounts p (wheatValue p ws sr) = (w, s)"
  shows "offerAmounts p (wheatValue p w sr) = (w, s)"
proof -
  let ?n = "price_n p" and ?d = "price_d p" and ?v = "wheatValue p ws sr"
  note pd = price_okD(1,3) [OF p(1)]
  have v: "0 \<le> ?v" "?v \<le> ws * ?n" "?v \<le> sr * ?d"
    using p pd by (auto simp: wheatValue_def amount_def)
  show ?thesis
  proof (cases "?n > ?d")
    case True
    then have ws': "w = idiv ROUND_DOWN ?v ?n" "s = idiv ROUND_DOWN (w * ?n) ?d"
      using w by (auto simp: offerAmounts_def)
    have "w * ?n \<le> sr * ?d" unfolding ws'(1) using floor_mult [OF pd(1)] v(3) by (rule order_trans)
    then have "wheatValue p w sr = w * ?n" by (simp add: wheatValue_def)
    then show ?thesis using True ws' pd by (simp add: offerAmounts_def)
  next
    case False
    then have ws': "s = idiv ROUND_DOWN ?v ?d" "w = idiv ROUND_UP (s * ?d) ?n"
      using w by (auto simp: offerAmounts_def)
    have "s \<le> sr" using floor_bound [OF pd(2) v(3)] ws' by simp
    then have "s * ?d \<le> wheatValue p w sr"
      using ceil_mult [OF pd(1), of "s * ?d"] ws' pd by (simp add: wheatValue_def)
    then have "s \<le> idiv ROUND_DOWN (wheatValue p w sr) ?d"
      by (intro idiv_down_ge [OF pd(2)]) (simp add: mult.commute)
    moreover have "idiv ROUND_DOWN (wheatValue p w sr) ?d \<le> s"
    proof -
      have "w * ?n \<le> ws * ?n" using adjustOffer_amounts(3) [OF p w] pd by (intro mult_right_mono) auto
      then have "wheatValue p w sr \<le> ?v" by (auto simp: wheatValue_def)
      then show ?thesis using ws'(1) idiv_down_mono [OF pd(2)] by simp
    qed
    ultimately have "idiv ROUND_DOWN (wheatValue p w sr) ?d = s" by simp
    then show ?thesis using False ws' by (simp add: offerAmounts_def)
  qed
qed

text \<open>C14: adjusting an offer never throws, never increases it, and has no effect on an offer that has
  already been adjusted.\<close>

theorem adjustOffer_idempotent:
  assumes "price_ok p" "amount maxWheatSend" "amount maxSheepReceive"
  shows "\<exists>a. adjustOffer p maxWheatSend maxSheepReceive = Inr a \<and> 0 \<le> a \<and> a \<le> maxWheatSend \<and>
    adjustOffer p a maxSheepReceive = Inr a"
proof -
  obtain w s where w: "offerAmounts p (wheatValue p maxWheatSend maxSheepReceive) = (w, s)" by fastforce
  note a = adjustOffer_amounts [OF assms w]
  have "amount w" using a assms(2) by (auto simp: amount_def)
  note again = adjustOffer_amounts(1) [OF assms(1) this assms(3) offerAmounts_again [OF assms w]]
  obtain w0 s0 where z: "offerAmounts p (wheatValue p 0 maxSheepReceive) = (w0, s0)" by fastforce
  have "adjustOffer p 0 maxSheepReceive = Inr 0"
    using adjustOffer_amounts [OF assms(1) _ assms(3) z] by auto
  then show ?thesis using a again assms(2) by (cases "bounded_error p w s") (auto simp: amount_def)
qed

theorem adjustOffer_idempotent_witness:
  "price_ok \<lparr>price_n = 2, price_d = 3\<rparr> \<and> adjustOffer \<lparr>price_n = 2, price_d = 3\<rparr> 1000 1000 = Inr 999 \<and>
   adjustOffer \<lparr>price_n = 2, price_d = 3\<rparr> 999 1000 = Inr 999"
proof -
  let ?p = "\<lparr>price_n = 2, price_d = 3\<rparr>"
  have p: "price_ok ?p" by (simp add: price_ok_def INT32_MAX_def)
  have a: "amount 1000" by (simp_all add: amount_def INT64_MAX_def)
  have e: "adjustOffer ?p 1000 1000 = Inr 999" by code_simp
  from adjustOffer_idempotent [OF p a a] e p show ?thesis by simp
qed

text \<open>An adjusted offer that is taken as a whole is taken within the bound on the error.\<close>

lemma adjusted_amounts:
  assumes p: "price_ok p" "amount ws" "amount sr" and adj: "adjustOffer p ws sr = Inr ws" "0 < ws"
    and w: "offerAmounts p (wheatValue p ws sr) = (w, s)"
  shows "w = ws" "bounded_error p w s" "0 < s"
proof -
  note a = adjustOffer_amounts [OF p w]
  show "w = ws" "bounded_error p w s" using a(1) adj by (auto split: if_splits)
  then show "0 < s" using a adj by auto
qed

text \<open>C15: crossing an adjusted offer during a path payment never throws.  The amounts are within the limits
  and the rounding error favors the offer that stays; an offer that is taken is taken as a whole, within
  1 percent of its price; if it stays, a strict send sells all the sheep that can be received, and a strict
  receive gets all the wheat it asks for as far as the sheep suffice.\<close>

theorem exchangeV10_path:
  assumes "price_ok p" "amount maxWheatSend" "amount maxWheatReceive" "amount maxSheepSend" "amount maxSheepReceive"
    and "0 < maxWheatSend" "0 < maxSheepSend" "round \<noteq> NORMAL" "adjustOffer p maxWheatSend maxSheepReceive = Inr maxWheatSend"
  shows "\<exists>r. exchangeV10 p maxWheatSend maxWheatReceive maxSheepSend maxSheepReceive round = Inr r \<and>
    0 \<le> numWheatReceived r \<and> numWheatReceived r \<le> min maxWheatReceive maxWheatSend \<and>
    0 \<le> numSheepSend r \<and> numSheepSend r \<le> min maxSheepReceive maxSheepSend \<and>
    (if wheatStays r
     then numWheatReceived r * price_n p \<le> numSheepSend r * price_d p \<and>
       (round = PATH_PAYMENT_STRICT_SEND \<longrightarrow> numSheepSend r = min maxSheepSend maxSheepReceive) \<and>
       (round = PATH_PAYMENT_STRICT_RECEIVE \<and> maxWheatReceive * price_n p \<le> maxSheepSend * price_d p \<longrightarrow>
          numWheatReceived r = maxWheatReceive)
     else numSheepSend r * price_d p \<le> numWheatReceived r * price_n p \<and> numWheatReceived r = maxWheatSend \<and>
       bounded_error p (numWheatReceived r) (numSheepSend r))"
proof -
  let ?stays = "sheepValue p maxWheatReceive maxSheepSend < wheatValue p maxWheatSend maxSheepReceive"
  note pd = price_okD [OF assms(1)]
  obtain w s where ws: "amountsV10 p maxWheatSend maxWheatReceive maxSheepSend maxSheepReceive round = (w, s)"
    by fastforce
  note b = amountsV10_bounds [OF assms(1-5) ws] and z = amountsV10_zero [OF assms(1-5) ws]
  have a: "amount w" "amount s" using b assms(2,4) by (auto simp: amount_def)
  have goes: "w = maxWheatSend \<and> bounded_error p w s \<and> 0 < s" if "\<not> ?stays"
    using adjusted_amounts [OF assms(1,2,5,9,6)] ws unfolding amountsV10_goes [OF that] by blast
  have stays: "round = PATH_PAYMENT_STRICT_SEND \<Longrightarrow> s = min maxSheepSend maxSheepReceive \<and> 0 < s"
    "round = PATH_PAYMENT_STRICT_RECEIVE \<Longrightarrow> maxWheatReceive * price_n p \<le> maxSheepSend * price_d p \<Longrightarrow> w = maxWheatReceive"
    if ?stays
  proof -
    have "0 \<le> sheepValue p maxWheatReceive maxSheepSend"
      using assms(3,4) pd by (simp add: sheepValue_def amount_def)
    then have "0 < maxSheepReceive * price_d p" using that by (simp add: wheatValue_def)
    then have "0 < maxSheepReceive" using pd(3) by (simp add: zero_less_mult_iff)
    with that show "s = min maxSheepSend maxSheepReceive \<and> 0 < s" if "round = PATH_PAYMENT_STRICT_SEND"
      using ws assms(7) that by (auto simp: amountsV10_def Let_def)
    show "w = maxWheatReceive" if "round = PATH_PAYMENT_STRICT_RECEIVE" "maxWheatReceive * price_n p \<le> maxSheepSend * price_d p"
    proof -
      have "sheepValue p maxWheatReceive maxSheepSend = maxWheatReceive * price_n p"
        using that(2) by (simp add: sheepValue_def)
      then show ?thesis using ws \<open>?stays\<close> that(1) pd(1) by (auto simp: amountsV10_def Let_def)
    qed
  qed
  have "applyPriceErrorThresholds p w s ?stays round = Inr \<lparr>numWheatReceived = w, numSheepSend = s, wheatStays = ?stays\<rparr>"
    by (rule applyPriceErrorThresholds_path [OF assms(1) a assms(8)]) (use z b stays goes in auto)
  then have "exchangeV10 p maxWheatSend maxWheatReceive maxSheepSend maxSheepReceive round =
      Inr \<lparr>numWheatReceived = w, numSheepSend = s, wheatStays = ?stays\<rparr>"
    using exchangeV10Without_exact [OF assms(1-5), of round] ws by (simp add: exchangeV10_def)
  then show ?thesis using b stays goes by auto
qed

theorem exchangeV10_path_witness:
  "adjustOffer \<lparr>price_n = 2, price_d = 3\<rparr> 150 1000 = Inr 150 \<and>
   exchangeV10 \<lparr>price_n = 2, price_d = 3\<rparr> 150 101 1000 1000 PATH_PAYMENT_STRICT_RECEIVE =
     Inr \<lparr>numWheatReceived = 101, numSheepSend = 68, wheatStays = True\<rparr> \<and>
   (101 :: int) * 2 \<le> 68 * 3"
proof -
  let ?p = "\<lparr>price_n = 2, price_d = 3\<rparr>"
  have p: "price_ok ?p" by (simp add: price_ok_def INT32_MAX_def)
  have a: "amount 150" "amount 101" "amount 1000" by (simp_all add: amount_def INT64_MAX_def)
  have adj: "adjustOffer ?p 150 1000 = Inr 150" by code_simp
  have e: "exchangeV10 ?p 150 101 1000 1000 PATH_PAYMENT_STRICT_RECEIVE =
      Inr \<lparr>numWheatReceived = 101, numSheepSend = 68, wheatStays = True\<rparr>" by code_simp
  from exchangeV10_path [OF p a(1,2,3,3) _ _ _ adj, of PATH_PAYMENT_STRICT_RECEIVE] e adj show ?thesis by simp
qed

section \<open>Liquidity pools\<close>

text \<open>The product of the reserves, with the fee taken from what is sent, does not decrease.\<close>

definition keeps_product :: "int \<Rightarrow> int \<Rightarrow> int \<Rightarrow> int \<Rightarrow> int \<Rightarrow> bool" where
  "keeps_product X Y fee t f \<longleftrightarrow> 10000 * X * Y \<le> (10000 * X + (10000 - fee) * t) * (Y - f)"

lemma keeps_product_reserves:
  assumes "keeps_product X Y fee t f" "0 \<le> fee" "0 \<le> t" "f \<le> Y"
  shows "X * Y \<le> (X + t) * (Y - f)"
proof -
  have "(10000 - fee) * t \<le> 10000 * t" using assms by (intro mult_right_mono) auto
  then have "(10000 * X + (10000 - fee) * t) * (Y - f) \<le> (10000 * X + 10000 * t) * (Y - f)"
    using assms by (intro mult_right_mono) auto
  then have "10000 * X * Y \<le> (10000 * X + 10000 * t) * (Y - f)" using assms(1) unfolding keeps_product_def by linarith
  moreover have "10000 * X * Y = 10000 * (X * Y)" "(10000 * X + 10000 * t) * (Y - f) = 10000 * ((X + t) * (Y - f))"
    by (simp_all add: algebra_simps)
  ultimately show ?thesis by linarith
qed

text \<open>The largest amount that can be taken out, and the smallest that must be put in.\<close>

lemma keeps_product_take: "keeps_product X Y fee t f \<longleftrightarrow> (10000 * X + (10000 - fee) * t) * f \<le> (10000 - fee) * (Y * t)"
  by (simp add: keeps_product_def algebra_simps)

lemma keeps_product_put: "keeps_product X Y fee t f \<longleftrightarrow> 10000 * (X * f) \<le> (Y - f) * (10000 - fee) * t"
  by (simp add: keeps_product_def algebra_simps)

abbreviation pool_args :: "int \<Rightarrow> int \<Rightarrow> int \<Rightarrow> bool" where
  "pool_args X Y fee \<equiv> 0 < X \<and> X \<le> INT64_MAX \<and> 0 < Y \<and> Y \<le> INT64_MAX \<and> 0 \<le> fee \<and> fee < 10000"

lemma exchangeWithPool_send:
  assumes "pool_args X Y fee" "0 \<le> t" "X + t \<le> INT64_MAX"
  defines "D \<equiv> 10000 * X + (10000 - fee) * t"
  defines "f \<equiv> idiv ROUND_DOWN ((10000 - fee) * (Y * t)) D"
  shows "exchangeWithPool X t t0 Y INT64_MAX f0 fee PATH_PAYMENT_STRICT_SEND = Inr (f \<noteq> 0, t, f)"
    and "0 \<le> f" "f \<le> Y" "keeps_product X Y fee t f" "\<And>f'. keeps_product X Y fee t f' \<Longrightarrow> f' \<le> f"
proof -
  have kt: "0 \<le> (10000 - fee) * t" "(10000 - fee) * t \<le> 10000 * t"
    using assms(1,2) mult_right_mono [of "10000 - fee" 10000 t] by simp_all
  then have D: "0 < D" "D \<le> 10000 * INT64_MAX" using assms(1,3) by (simp_all add: D_def)
  have num0: "0 \<le> (10000 - fee) * (Y * t)" using assms(1,2) by (intro mult_nonneg_nonneg) auto
  show f0: "0 \<le> f" using num0 D(1) by (simp add: f_def)
  have max: "f' \<le> f" if "D * f' \<le> (10000 - fee) * (Y * t)" for f'
    unfolding f_def by (rule idiv_down_ge [OF D(1) that])
  then show "\<And>f'. keeps_product X Y fee t f' \<Longrightarrow> f' \<le> f" by (simp add: keeps_product_take D_def)
  show "keeps_product X Y fee t f" using idiv_down [OF D(1)] by (simp add: keeps_product_take D_def f_def)
  have "0 \<le> 10000 * (X * Y)" using assms(1) by simp
  then have "(10000 - fee) * (Y * t) \<le> D * Y" by (simp add: D_def algebra_simps)
  then show fY: "f \<le> Y" unfolding f_def by (rule idiv_down_le [OF D(1)])
  obtain d1 where d1: "bigMultiply 10000 X = Inr d1" "uint d1 = 10000 * X"
    by (rule bigMultiply_int [of 10000 X]) (use assms in \<open>auto simp: INT64_MAX_def\<close>)
  obtain d2 where d2: "bigMultiply (10000 - fee) t = Inr d2" "uint d2 = (10000 - fee) * t"
    by (rule bigMultiply_int [of "10000 - fee" t]) (use assms in \<open>auto simp: INT64_MAX_def\<close>)
  obtain b where b: "bigMultiply Y t = Inr b" "uint b = Y * t"
    by (rule bigMultiply_int [of Y t]) (use assms in auto)
  have "uint d1 + uint d2 < 2 ^ LENGTH(128)" using D(2) unfolding d1 d2 D_def by (simp add: INT64_MAX_def)
  then have sum: "uint (d1 + d2) = D" using uint_add_lem [of d1 d2] unfolding d1(2) d2(2) D_def by blast
  have "D \<le> INT32_MAX * INT64_MAX" using D(2) by (simp add: INT32_MAX_def INT64_MAX_def)
  then have "hugeDivide f0 (10000 - fee) b (d1 + d2) ROUND_DOWN = Inr (True, f)"
    using hugeDivide_int [of "10000 - fee" "d1 + d2" f0 b ROUND_DOWN] assms(1) D(1) fY
    unfolding sum b(2) f_def [symmetric] by (auto simp: INT32_MAX_def)
  then show "exchangeWithPool X t t0 Y INT64_MAX f0 fee PATH_PAYMENT_STRICT_SEND = Inr (f \<noteq> 0, t, f)"
    using assms(1,3) f0 fY by (simp add: exchangeWithPool_def d1(1) d2(1) b(1))
qed

lemma exchangeWithPool_receive:
  assumes "pool_args X Y fee" "0 \<le> f" "f < Y"
  defines "D \<equiv> (Y - f) * (10000 - fee)"
  defines "t \<equiv> idiv ROUND_UP (10000 * (X * f)) D"
  shows "\<exists>t'. exchangeWithPool X INT64_MAX t0 Y f f0 fee PATH_PAYMENT_STRICT_RECEIVE =
      Inr (X + t \<le> INT64_MAX, t', f) \<and> (X + t \<le> INT64_MAX \<longrightarrow> t' = t)"
    and "0 \<le> t" "keeps_product X Y fee t f" "\<And>t'. keeps_product X Y fee t' f \<Longrightarrow> t \<le> t'"
proof -
  have D0: "0 < D" using assms by (simp add: D_def)
  have "(Y - f) * (10000 - fee) \<le> INT64_MAX * 10000" using assms by (intro mult_mono) auto
  then have D: "D \<le> INT32_MAX * INT64_MAX" unfolding D_def by (simp add: INT32_MAX_def INT64_MAX_def)
  show t0: "0 \<le> t" using assms D0 by (simp add: t_def)
  have min: "t \<le> t'" if "10000 * (X * f) \<le> D * t'" for t'
    unfolding t_def by (rule idiv_up_le [OF D0 that])
  then show "\<And>t'. keeps_product X Y fee t' f \<Longrightarrow> t \<le> t'" by (simp add: keeps_product_put D_def)
  show "keeps_product X Y fee t f" using idiv_up [OF D0] by (simp add: keeps_product_put D_def t_def)
  obtain b where b: "bigMultiply X f = Inr b" "uint b = X * f"
    by (rule bigMultiply_int [of X f]) (use assms in auto)
  obtain c where c: "bigMultiply (Y - f) (10000 - fee) = Inr c" "uint c = D"
    by (rule bigMultiply_int [of "Y - f" "10000 - fee"]) (use assms in \<open>auto simp: INT64_MAX_def D_def\<close>)
  obtain v where v: "hugeDivide t0 10000 b c ROUND_UP = Inr (t \<le> INT64_MAX, v)" "t \<le> INT64_MAX \<longrightarrow> v = t"
    using hugeDivide_int [of 10000 c t0 b ROUND_UP] D0 D unfolding c(2) b(2) t_def by (auto simp: INT32_MAX_def)
  show "\<exists>t'. exchangeWithPool X INT64_MAX t0 Y f f0 fee PATH_PAYMENT_STRICT_RECEIVE =
      Inr (X + t \<le> INT64_MAX, t', f) \<and> (X + t \<le> INT64_MAX \<longrightarrow> t' = t)"
    using assms(1,3) v t0 by (auto simp: exchangeWithPool_def b(1) c(1))
qed

text \<open>C13: an exchange with a liquidity pool never throws.  If it takes place, the reserves stay in range and their
  product does not decrease; a strict send gets as much as it can for what it sends, and a strict receive
  sends as little as it can for what it gets.\<close>

theorem exchangeWithPool_product:
  assumes "pool_args X Y fee"
    and "round = PATH_PAYMENT_STRICT_SEND \<and> amount maxSend \<and> maxReceive = INT64_MAX \<or>
      round = PATH_PAYMENT_STRICT_RECEIVE \<and> maxSend = INT64_MAX \<and> amount maxReceive"
  shows "\<exists>exchanged t f. exchangeWithPool X maxSend t0 Y maxReceive f0 fee round = Inr (exchanged, t, f) \<and>
    (exchanged \<longrightarrow>
       0 \<le> t \<and> X + t \<le> INT64_MAX \<and> 0 \<le> f \<and> f \<le> Y \<and> X * Y \<le> (X + t) * (Y - f) \<and> keeps_product X Y fee t f \<and>
       (round = PATH_PAYMENT_STRICT_SEND \<longrightarrow> t = maxSend \<and> (\<forall>f'. keeps_product X Y fee t f' \<longrightarrow> f' \<le> f)) \<and>
       (round = PATH_PAYMENT_STRICT_RECEIVE \<longrightarrow> f = maxReceive \<and> (\<forall>t'. keeps_product X Y fee t' f \<longrightarrow> t \<le> t')))"
  using assms(2)
proof
  assume send: "round = PATH_PAYMENT_STRICT_SEND \<and> amount maxSend \<and> maxReceive = INT64_MAX"
  show ?thesis
  proof (cases "X + maxSend \<le> INT64_MAX")
    case True
    have s: "0 \<le> maxSend" using send by (simp add: amount_def)
    note e = exchangeWithPool_send [OF assms(1) s True]
    show ?thesis using send s True e keeps_product_reserves [OF e(4) _ s e(3)] assms(1) by auto
  next
    case False
    then show ?thesis using send assms(1) by (auto simp: exchangeWithPool_def)
  qed
next
  assume receive: "round = PATH_PAYMENT_STRICT_RECEIVE \<and> maxSend = INT64_MAX \<and> amount maxReceive"
  show ?thesis
  proof (cases "maxReceive < Y")
    case True
    have r: "0 \<le> maxReceive" using receive by (simp add: amount_def)
    note e = exchangeWithPool_receive [OF assms(1) r True]
    show ?thesis
      using receive r True e(1) [of t0 f0] e(2-4) keeps_product_reserves [OF e(3) _ e(2)] assms(1) by (auto simp: less_imp_le)
  next
    case False
    then show ?thesis using receive assms(1) by (auto simp: exchangeWithPool_def)
  qed
qed

theorem exchangeWithPool_product_witness:
  "exchangeWithPool 1000 100 0 2000 INT64_MAX 0 30 PATH_PAYMENT_STRICT_SEND = Inr (True, 100, 181) \<and>
   (1000 :: int) * 2000 \<le> (1000 + 100) * (2000 - 181) \<and> \<not> keeps_product 1000 2000 30 100 182"
proof -
  have p: "pool_args 1000 2000 30" by (simp add: INT64_MAX_def)
  have e: "exchangeWithPool 1000 100 0 2000 INT64_MAX 0 30 PATH_PAYMENT_STRICT_SEND = Inr (True, 100, 181)" by code_simp
  have "amount 100" by (simp add: amount_def INT64_MAX_def)
  then have "keeps_product 1000 2000 30 100 f \<Longrightarrow> f \<le> 181" for f
    using exchangeWithPool_product [OF p, of PATH_PAYMENT_STRICT_SEND 100 INT64_MAX 0 0] e by auto
  from this [of 182] e show ?thesis by auto
qed

section \<open>The exchange of the older protocol versions\<close>

lemma sheep_rounded:
  assumes "price_ok p" "amount w" "amount s" "bigDivide 0 s (price_d p) (price_n p) ROUND_DOWN = Inr (fits, q)"
  shows "fits \<Longrightarrow> q * price_n p \<le> s * price_d p" "fits \<Longrightarrow> 0 \<le> q" "\<not> fits \<Longrightarrow> w * price_n p \<le> s * price_d p"
proof -
  note pd = price_okD [OF assms(1)] and ad = amountD [OF assms(2)] amountD [OF assms(3)]
  have i: "fits \<longleftrightarrow> idiv ROUND_DOWN (s * price_d p) (price_n p) \<le> INT64_MAX"
    "fits \<Longrightarrow> q = idiv ROUND_DOWN (s * price_d p) (price_n p)"
    using bigDivide_int [of s "price_d p" "price_n p" 0 ROUND_DOWN] pd ad assms(4) by auto
  show "q * price_n p \<le> s * price_d p" "0 \<le> q" if fits
    using i(2) [OF that] floor_mult [OF pd(1)] pd ad by simp_all
  show "w * price_n p \<le> s * price_d p" if "\<not> fits"
  proof -
    have "w \<le> idiv ROUND_DOWN (s * price_d p) (price_n p)" using i(1) that ad by simp
    then have "w * price_n p \<le> idiv ROUND_DOWN (s * price_d p) (price_n p) * price_n p" using pd by (intro mult_right_mono) auto
    then show ?thesis using floor_mult [OF pd(1), of "s * price_d p"] by linarith
  qed
qed

lemma exchangeV3_favors_seller:
  assumes "price_ok p" "amount wheatReceived" "amount maxWheatReceive" "amount maxSheepSend"
  shows "\<exists>r. exchangeV3 wheatReceived p maxWheatReceive maxSheepSend = Inr r \<and>
    0 \<le> er_numWheatReceived r \<and> er_numWheatReceived r \<le> min wheatReceived maxWheatReceive \<and>
    0 \<le> er_numSheepSend r \<and> er_numSheepSend r \<le> maxSheepSend \<and>
    er_numWheatReceived r * price_n p \<le> er_numSheepSend r * price_d p"
proof -
  let ?w = "min wheatReceived maxWheatReceive" and ?n = "price_n p" and ?d = "price_d p"
  note pd = price_okD [OF assms(1)]
  have w: "amount ?w" using assms by simp
  obtain fits q where q: "bigDivide 0 ?w ?n ?d ROUND_UP = Inr (fits, q)" "fits \<Longrightarrow> 0 \<le> q"
    using bigDivide_int [of ?w ?n ?d 0 ROUND_UP] pd amountD [OF w] by auto
  define s where "s = min (if fits then q else INT64_MAX) maxSheepSend"
  have s: "amount s" "s \<le> maxSheepSend" using assms(4) q(2) by (auto simp: s_def amount_def INT64_MAX_def)
  obtain fits2 q2 where q2: "bigDivide 0 s ?d ?n ROUND_DOWN = Inr (fits2, q2)"
    using bigDivide_int [of s ?d ?n 0 ROUND_DOWN] pd amountD [OF s(1)] by auto
  note r = sheep_rounded [OF assms(1) w s(1) q2]
  define w2 where "w2 = min ?w (if fits2 then q2 else INT64_MAX)"
  have w2: "0 \<le> w2" "w2 \<le> ?w" using r(2) amountD(1) [OF w] by (auto simp: w2_def INT64_MAX_def)
  have "w2 * ?n \<le> s * ?d"
  proof (cases fits2)
    case True
    then have "w2 * ?n \<le> q2 * ?n" using pd by (intro mult_right_mono) (auto simp: w2_def)
    then show ?thesis using r(1) [OF True] by linarith
  next
    case False
    then have "w2 * ?n \<le> ?w * ?n" using pd w2 by (intro mult_right_mono) auto
    then show ?thesis using r(3) [OF False] by linarith
  qed
  with w2 s show ?thesis
    using amountD(1) [OF s(1)] by (simp add: exchangeV3_def Let_def q(1) q2 s_def [symmetric] w2_def [symmetric])
qed

lemma exchangeV2_favors_seller:
  assumes "price_ok p" "amount wheatReceived" "amount maxWheatReceive" "amount maxSheepSend"
  shows "\<exists>r. exchangeV2 wheatReceived p maxWheatReceive maxSheepSend = Inr r \<and>
    0 \<le> er_numWheatReceived r \<and> er_numWheatReceived r \<le> min wheatReceived maxWheatReceive \<and>
    0 \<le> er_numSheepSend r \<and> er_numSheepSend r \<le> maxSheepSend \<and>
    er_numWheatReceived r * price_n p \<le> er_numSheepSend r * price_d p"
proof -
  let ?w = "min wheatReceived maxWheatReceive" and ?n = "price_n p" and ?d = "price_d p"
  note pd = price_okD [OF assms(1)]
  have w: "amount ?w" using assms by simp
  define x where "x = idiv ROUND_DOWN (?w * ?n) ?d"
  obtain q where q: "bigDivide 0 ?w ?n ?d ROUND_DOWN = Inr (x \<le> INT64_MAX, q)" "x \<le> INT64_MAX \<Longrightarrow> q = x"
    using bigDivide_int [of ?w ?n ?d 0 ROUND_DOWN] pd amountD [OF w] by (auto simp: x_def)
  have x0: "0 \<le> x" unfolding x_def by (rule idiv_nonneg) (use pd amountD(1) [OF w] in auto)
  define s where "s = min (if x \<le> INT64_MAX then q else INT64_MAX) maxSheepSend"
  have s: "amount s" "s \<le> maxSheepSend" "s \<le> x"
    using assms(4) q(2) x0 by (auto simp: s_def amount_def INT64_MAX_def)
  have "s * ?d \<le> x * ?d" using s(3) pd by (intro mult_right_mono) auto
  then have "s * ?d \<le> ?w * ?n" using floor_mult [OF pd(3), of "?w * ?n"] unfolding x_def [symmetric] by linarith
  then have b: "idiv ROUND_DOWN (s * ?d) ?n \<le> ?w" by (rule floor_bound [OF pd(1)])
  then have "bigDivideOrThrow s ?d ?n ROUND_DOWN = Inr (idiv ROUND_DOWN (s * ?d) ?n)"
    using order_trans [OF b amountD(2) [OF w]] by (intro bigDivideOrThrow_int) (use pd amountD [OF s(1)] in auto)
  then show ?thesis
    using b s amountD(1) [OF s(1)] pd floor_mult [OF pd(1)]
    by (simp add: exchangeV2_def Let_def q(1) s_def [symmetric])
qed

end
