(* ===== verification/Ledger_Types.thy ===== *)
theory Ledger_Types
  imports Scp_Types Offer_Exchange "HOL-Library.Product_Lexorder"
begin

text \<open>
  The entries and the header of the ledger (\<^verbatim>\<open>xdr/Stellar-ledger-entries.x\<close>, \<^verbatim>\<open>xdr/Stellar-ledger.x\<close>).  A
  struct is a record, a union a datatype; an extension whose version is 0 is \<^const>\<open>None\<close>.  Signed integers are
  \<^typ>\<open>int\<close>, unsigned ones are words of their width.
\<close>

section \<open>Assets\<close>

type_synonym account_id = uint256
type_synonym pool_id = hash

datatype asset =
    ASSET_TYPE_NATIVE
  | ASSET_TYPE_CREDIT_ALPHANUM4 opaque account_id
  | ASSET_TYPE_CREDIT_ALPHANUM12 opaque account_id

datatype asset_code = ASSET_CODE4 opaque | ASSET_CODE12 opaque

datatype trust_line_asset =
    TL_NATIVE
  | TL_CREDIT_ALPHANUM4 opaque account_id
  | TL_CREDIT_ALPHANUM12 opaque account_id
  | TL_POOL_SHARE pool_id

text \<open>XDR unions are ordered by their discriminant, then by the fields of the arm.\<close>

primrec asset_rank :: "asset \<Rightarrow> nat \<times> opaque \<times> account_id" where
  "asset_rank ASSET_TYPE_NATIVE = (0, [], 0)"
| "asset_rank (ASSET_TYPE_CREDIT_ALPHANUM4 code issuer) = (1, code, issuer)"
| "asset_rank (ASSET_TYPE_CREDIT_ALPHANUM12 code issuer) = (2, code, issuer)"

lemma asset_rank_inject [simp]: "asset_rank a = asset_rank b \<longleftrightarrow> a = b"
  by (cases a; cases b) auto

instantiation asset :: linorder
begin

definition less_eq_asset :: "asset \<Rightarrow> asset \<Rightarrow> bool" where
  "a \<le> b \<longleftrightarrow> asset_rank a \<le> asset_rank b"

definition less_asset :: "asset \<Rightarrow> asset \<Rightarrow> bool" where
  "a < b \<longleftrightarrow> asset_rank a < asset_rank b"

instance
proof
  fix a b c :: asset
  show "a < b \<longleftrightarrow> a \<le> b \<and> \<not> b \<le> a" unfolding less_asset_def less_eq_asset_def by (rule less_le_not_le)
  show "a \<le> a" by (simp add: less_eq_asset_def)
  show "a \<le> b \<Longrightarrow> b \<le> c \<Longrightarrow> a \<le> c" unfolding less_eq_asset_def by (rule order_trans)
  show "a \<le> b \<Longrightarrow> b \<le> a \<Longrightarrow> a = b" unfolding less_eq_asset_def by (metis order_antisym asset_rank_inject)
  show "a \<le> b \<or> b \<le> a" unfolding less_eq_asset_def by (rule linear)
qed

end

section \<open>Ledger entries\<close>

record liabilities =
  liab_buying :: int
  liab_selling :: int

datatype signer_key =
    SIGNER_KEY_TYPE_ED25519 uint256
  | SIGNER_KEY_TYPE_PRE_AUTH_TX uint256
  | SIGNER_KEY_TYPE_HASH_X uint256

record signer =
  signer_key :: signer_key
  signer_weight :: uint32

record account_ext_v2 =
  numSponsored :: uint32
  numSponsoring :: uint32
  signerSponsoringIDs :: "account_id option list"

record account_ext_v1 =
  aev1_liabilities :: liabilities
  aev1_ext :: "account_ext_v2 option"

text \<open>The four bytes of \<^verbatim>\<open>Thresholds\<close>.\<close>

record thresholds =
  THRESHOLD_MASTER_WEIGHT :: uint8
  THRESHOLD_LOW :: uint8
  THRESHOLD_MED :: uint8
  THRESHOLD_HIGH :: uint8

record account_entry =
  ae_accountID :: account_id
  ae_balance :: int
  ae_seqNum :: int
  ae_numSubEntries :: uint32
  ae_inflationDest :: "account_id option"
  ae_flags :: uint32
  ae_homeDomain :: opaque
  ae_thresholds :: thresholds
  ae_signers :: "signer list"
  ae_ext :: "account_ext_v1 option"

record trust_line_ext_v2 =
  liquidityPoolUseCount :: int

record trust_line_ext_v1 =
  tlv1_liabilities :: liabilities
  tlv1_ext :: "trust_line_ext_v2 option"

record trust_line_entry =
  tl_accountID :: account_id
  tl_asset :: trust_line_asset
  tl_balance :: int
  tl_limit :: int
  tl_flags :: uint32
  tl_ext :: "trust_line_ext_v1 option"

record offer_entry =
  oe_sellerID :: account_id
  oe_offerID :: int
  oe_selling :: asset
  oe_buying :: asset
  oe_amount :: int
  oe_price :: price
  oe_flags :: uint32

record data_entry =
  de_accountID :: account_id
  de_dataName :: opaque
  de_dataValue :: opaque

datatype claim_predicate =
    CLAIM_PREDICATE_UNCONDITIONAL
  | CLAIM_PREDICATE_AND "claim_predicate list"
  | CLAIM_PREDICATE_OR "claim_predicate list"
  | CLAIM_PREDICATE_NOT "claim_predicate option"
  | CLAIM_PREDICATE_BEFORE_ABSOLUTE_TIME int
  | CLAIM_PREDICATE_BEFORE_RELATIVE_TIME int

record claimant =
  cl_destination :: account_id
  cl_predicate :: claim_predicate

record claimable_balance_entry =
  cb_balanceID :: hash
  cb_claimants :: "claimant list"
  cb_asset :: asset
  cb_amount :: int
  cb_ext :: "uint32 option"

record liquidity_pool_parameters =
  assetA :: asset
  assetB :: asset
  pool_fee :: int

datatype change_trust_asset =
    CT_NATIVE
  | CT_CREDIT_ALPHANUM4 opaque account_id
  | CT_CREDIT_ALPHANUM12 opaque account_id
  | CT_POOL_SHARE liquidity_pool_parameters

record liquidity_pool_entry =
  lp_liquidityPoolID :: pool_id
  lp_params :: liquidity_pool_parameters
  lp_reserveA :: int
  lp_reserveB :: int
  lp_totalPoolShares :: int
  lp_poolSharesTrustLineCount :: int

datatype ledger_entry_data =
    ACCOUNT account_entry
  | TRUSTLINE trust_line_entry
  | OFFER offer_entry
  | DATA data_entry
  | CLAIMABLE_BALANCE claimable_balance_entry
  | LIQUIDITY_POOL liquidity_pool_entry

text \<open>The extension of an entry holds its sponsor, if it has one.\<close>

record ledger_entry =
  lastModifiedLedgerSeq :: uint32
  le_data :: ledger_entry_data
  le_ext :: "account_id option option"

datatype ledger_key =
    ACCOUNT_KEY account_id
  | TRUSTLINE_KEY account_id trust_line_asset
  | OFFER_KEY account_id int
  | DATA_KEY account_id opaque
  | CLAIMABLE_BALANCE_KEY hash
  | LIQUIDITY_POOL_KEY pool_id

definition LedgerEntryKey :: "ledger_entry \<Rightarrow> ledger_key" where
  "LedgerEntryKey e =
     (case le_data e of
        ACCOUNT a \<Rightarrow> ACCOUNT_KEY (ae_accountID a)
      | TRUSTLINE t \<Rightarrow> TRUSTLINE_KEY (tl_accountID t) (tl_asset t)
      | OFFER f \<Rightarrow> OFFER_KEY (oe_sellerID f) (oe_offerID f)
      | DATA d \<Rightarrow> DATA_KEY (de_accountID d) (de_dataName d)
      | CLAIMABLE_BALANCE c \<Rightarrow> CLAIMABLE_BALANCE_KEY (cb_balanceID c)
      | LIQUIDITY_POOL p \<Rightarrow> LIQUIDITY_POOL_KEY (lp_liquidityPoolID p))"

section \<open>The ledger header\<close>

record ledger_close_value_signature =
  lcs_nodeID :: node_id
  lcs_signature :: opaque

text \<open>The extension of a value is its signature; a value of the basic type has none.\<close>

record stellar_value =
  sv_txSetHash :: hash
  sv_closeTime :: uint64
  sv_upgrades :: "opaque list"
  sv_ext :: "ledger_close_value_signature option"

record ledger_header =
  lh_ledgerVersion :: uint32
  lh_previousLedgerHash :: hash
  lh_scpValue :: stellar_value
  lh_txSetResultHash :: hash
  lh_bucketListHash :: hash
  lh_ledgerSeq :: uint32
  lh_totalCoins :: int
  lh_feePool :: int
  lh_inflationSeq :: uint32
  lh_idPool :: uint64
  lh_baseFee :: uint32
  lh_basePercentageFee :: uint32
  lh_maxFee :: uint64
  lh_baseReserve :: uint32
  lh_maxTxSetSize :: uint32
  lh_skipList :: "hash list"
  lh_ext :: "uint32 option"

text \<open>\<^verbatim>\<open>ProtocolVersion::V_n\<close> is the number \<open>n\<close>.\<close>

definition protocolVersionIsBefore :: "uint32 \<Rightarrow> uint32 \<Rightarrow> bool" where
  "protocolVersionIsBefore protocolVersion beforeVersion = (protocolVersion < beforeVersion)"

definition protocolVersionStartsFrom :: "uint32 \<Rightarrow> uint32 \<Rightarrow> bool" where
  "protocolVersionStartsFrom protocolVersion fromVersion = (protocolVersion \<ge> fromVersion)"

lemma version_iff [simp]: "protocolVersionIsBefore v w \<longleftrightarrow> \<not> protocolVersionStartsFrom v w"
  by (simp add: protocolVersionIsBefore_def protocolVersionStartsFrom_def not_le)

end
