(* ===== verification/Ledger_Entries.thy ===== *)
theory Ledger_Entries
  imports Ledger_Types
begin

unbundle bit_operations_syntax

text \<open>
  Assets, flags, balances and liabilities of ledger entries (\<^verbatim>\<open>util/types.cpp\<close> and the part of
  \<^verbatim>\<open>transactions/TransactionUtils.cpp\<close> that works on one entry).  Functions that throw return an error; those
  that change an entry in place return it.
\<close>

section \<open>Assets and strings\<close>

definition isStringValid :: "opaque \<Rightarrow> bool" where
  "isStringValid str = list_all (\<lambda>c. 31 < c \<and> c < 127) str"

definition isalnum :: "uint8 \<Rightarrow> bool" where
  "isalnum b \<longleftrightarrow> 48 \<le> b \<and> b \<le> 57 \<or> 65 \<le> b \<and> b \<le> 90 \<or> 97 \<le> b \<and> b \<le> 122"

text \<open>The loop over an asset code: the number of characters, unless one is not allowed.\<close>

fun assetCodeChars :: "opaque \<Rightarrow> bool \<Rightarrow> nat \<Rightarrow> nat option" where
  "assetCodeChars [] zeros n = Some n"
| "assetCodeChars (b # bs) zeros n =
     (if b = 0 then assetCodeChars bs True n
      else if zeros then None
      else if b > 127 \<or> \<not> isalnum b then None
      else assetCodeChars bs zeros (Suc n))"

definition isAlphaNum4Valid :: "opaque \<Rightarrow> bool" where
  "isAlphaNum4Valid code = (case assetCodeChars code False 0 of None \<Rightarrow> False | Some n \<Rightarrow> n > 0)"

definition isAlphaNum12Valid :: "opaque \<Rightarrow> bool" where
  "isAlphaNum12Valid code = (case assetCodeChars code False 0 of None \<Rightarrow> False | Some n \<Rightarrow> n > 4)"

primrec isAssetValid :: "asset \<Rightarrow> uint32 \<Rightarrow> bool" where
  "isAssetValid ASSET_TYPE_NATIVE v = True"
| "isAssetValid (ASSET_TYPE_CREDIT_ALPHANUM4 code issuer) v = isAlphaNum4Valid code"
| "isAssetValid (ASSET_TYPE_CREDIT_ALPHANUM12 code issuer) v = isAlphaNum12Valid code"

primrec isTrustLineAssetValid :: "trust_line_asset \<Rightarrow> uint32 \<Rightarrow> bool" where
  "isTrustLineAssetValid TL_NATIVE v = True"
| "isTrustLineAssetValid (TL_CREDIT_ALPHANUM4 code issuer) v = isAlphaNum4Valid code"
| "isTrustLineAssetValid (TL_CREDIT_ALPHANUM12 code issuer) v = isAlphaNum12Valid code"
| "isTrustLineAssetValid (TL_POOL_SHARE pool) v = protocolVersionStartsFrom v 18"

definition LIQUIDITY_POOL_FEE_V18 :: int where
  "LIQUIDITY_POOL_FEE_V18 = 30"

primrec isChangeTrustAssetValid :: "change_trust_asset \<Rightarrow> uint32 \<Rightarrow> bool" where
  "isChangeTrustAssetValid CT_NATIVE v = True"
| "isChangeTrustAssetValid (CT_CREDIT_ALPHANUM4 code issuer) v = isAlphaNum4Valid code"
| "isChangeTrustAssetValid (CT_CREDIT_ALPHANUM12 code issuer) v = isAlphaNum12Valid code"
| "isChangeTrustAssetValid (CT_POOL_SHARE cp) v =
     (\<not> protocolVersionIsBefore v 18 \<and> isAssetValid (assetA cp) v \<and> isAssetValid (assetB cp) v \<and>
      assetA cp < assetB cp \<and> pool_fee cp = LIQUIDITY_POOL_FEE_V18)"

definition compareAsset :: "asset \<Rightarrow> asset \<Rightarrow> bool" where
  "compareAsset a b =
     (case (a, b) of
        (ASSET_TYPE_NATIVE, ASSET_TYPE_NATIVE) \<Rightarrow> True
      | (ASSET_TYPE_CREDIT_ALPHANUM4 c i, ASSET_TYPE_CREDIT_ALPHANUM4 d j) \<Rightarrow> i = j \<and> c = d
      | (ASSET_TYPE_CREDIT_ALPHANUM12 c i, ASSET_TYPE_CREDIT_ALPHANUM12 d j) \<Rightarrow> i = j \<and> c = d
      | _ \<Rightarrow> False)"

primrec getIssuer :: "asset \<Rightarrow> tx_error + account_id" where
  "getIssuer ASSET_TYPE_NATIVE = Inl (RuntimeError ''asset does not have an issuer'')"
| "getIssuer (ASSET_TYPE_CREDIT_ALPHANUM4 code issuer) = Inr issuer"
| "getIssuer (ASSET_TYPE_CREDIT_ALPHANUM12 code issuer) = Inr issuer"

primrec isIssuer_trustLine :: "account_id \<Rightarrow> trust_line_asset \<Rightarrow> bool" where
  "isIssuer_trustLine acc TL_NATIVE = False"
| "isIssuer_trustLine acc (TL_CREDIT_ALPHANUM4 code issuer) = (acc = issuer)"
| "isIssuer_trustLine acc (TL_CREDIT_ALPHANUM12 code issuer) = (acc = issuer)"
| "isIssuer_trustLine acc (TL_POOL_SHARE pool) = False"

primrec isIssuer_changeTrust :: "account_id \<Rightarrow> change_trust_asset \<Rightarrow> bool" where
  "isIssuer_changeTrust acc CT_NATIVE = False"
| "isIssuer_changeTrust acc (CT_CREDIT_ALPHANUM4 code issuer) = (acc = issuer)"
| "isIssuer_changeTrust acc (CT_CREDIT_ALPHANUM12 code issuer) = (acc = issuer)"
| "isIssuer_changeTrust acc (CT_POOL_SHARE cp) = False"

primrec getAsset :: "account_id \<Rightarrow> asset_code \<Rightarrow> asset" where
  "getAsset issuer (ASSET_CODE4 code) = ASSET_TYPE_CREDIT_ALPHANUM4 code issuer"
| "getAsset issuer (ASSET_CODE12 code) = ASSET_TYPE_CREDIT_ALPHANUM12 code issuer"

primrec assetToTrustLineAsset :: "asset \<Rightarrow> trust_line_asset" where
  "assetToTrustLineAsset ASSET_TYPE_NATIVE = TL_NATIVE"
| "assetToTrustLineAsset (ASSET_TYPE_CREDIT_ALPHANUM4 code issuer) = TL_CREDIT_ALPHANUM4 code issuer"
| "assetToTrustLineAsset (ASSET_TYPE_CREDIT_ALPHANUM12 code issuer) = TL_CREDIT_ALPHANUM12 code issuer"

section \<open>Flags\<close>

definition AUTH_REQUIRED_FLAG :: uint32 where "AUTH_REQUIRED_FLAG = 1"
definition AUTH_REVOCABLE_FLAG :: uint32 where "AUTH_REVOCABLE_FLAG = 2"
definition AUTH_IMMUTABLE_FLAG :: uint32 where "AUTH_IMMUTABLE_FLAG = 4"
definition AUTH_CLAWBACK_ENABLED_FLAG :: uint32 where "AUTH_CLAWBACK_ENABLED_FLAG = 8"
definition MASK_ACCOUNT_FLAGS :: uint32 where "MASK_ACCOUNT_FLAGS = 7"
definition MASK_ACCOUNT_FLAGS_V17 :: uint32 where "MASK_ACCOUNT_FLAGS_V17 = 15"
definition AUTHORIZED_FLAG :: uint32 where "AUTHORIZED_FLAG = 1"
definition AUTHORIZED_TO_MAINTAIN_LIABILITIES_FLAG :: uint32 where "AUTHORIZED_TO_MAINTAIN_LIABILITIES_FLAG = 2"
definition TRUSTLINE_CLAWBACK_ENABLED_FLAG :: uint32 where "TRUSTLINE_CLAWBACK_ENABLED_FLAG = 4"
definition MASK_TRUSTLINE_FLAGS :: uint32 where "MASK_TRUSTLINE_FLAGS = 1"
definition MASK_TRUSTLINE_FLAGS_V13 :: uint32 where "MASK_TRUSTLINE_FLAGS_V13 = 3"
definition MASK_TRUSTLINE_FLAGS_V17 :: uint32 where "MASK_TRUSTLINE_FLAGS_V17 = 7"

definition TRUSTLINE_AUTH_FLAGS :: uint32 where
  "TRUSTLINE_AUTH_FLAGS = AUTHORIZED_FLAG OR AUTHORIZED_TO_MAINTAIN_LIABILITIES_FLAG"

definition MASK_OFFERENTRY_FLAGS :: uint32 where "MASK_OFFERENTRY_FLAGS = 1"
definition MASK_CLAIMABLE_BALANCE_FLAGS :: uint32 where "MASK_CLAIMABLE_BALANCE_FLAGS = 1"
definition CLAIMABLE_BALANCE_CLAWBACK_ENABLED_FLAG :: uint32 where "CLAIMABLE_BALANCE_CLAWBACK_ENABLED_FLAG = 1"
definition DISABLE_LIQUIDITY_POOL_DEPOSIT_FLAG :: uint32 where "DISABLE_LIQUIDITY_POOL_DEPOSIT_FLAG = 2"
definition DISABLE_LIQUIDITY_POOL_WITHDRAWAL_FLAG :: uint32 where "DISABLE_LIQUIDITY_POOL_WITHDRAWAL_FLAG = 4"

lemmas flag_defs = AUTH_REQUIRED_FLAG_def AUTH_REVOCABLE_FLAG_def AUTH_IMMUTABLE_FLAG_def AUTH_CLAWBACK_ENABLED_FLAG_def
  MASK_ACCOUNT_FLAGS_def MASK_ACCOUNT_FLAGS_V17_def AUTHORIZED_FLAG_def AUTHORIZED_TO_MAINTAIN_LIABILITIES_FLAG_def
  TRUSTLINE_CLAWBACK_ENABLED_FLAG_def MASK_TRUSTLINE_FLAGS_def MASK_TRUSTLINE_FLAGS_V13_def MASK_TRUSTLINE_FLAGS_V17_def
  TRUSTLINE_AUTH_FLAGS_def MASK_OFFERENTRY_FLAGS_def MASK_CLAIMABLE_BALANCE_FLAGS_def
  CLAIMABLE_BALANCE_CLAWBACK_ENABLED_FLAG_def DISABLE_LIQUIDITY_POOL_DEPOSIT_FLAG_def
  DISABLE_LIQUIDITY_POOL_WITHDRAWAL_FLAG_def

definition isAuthorized :: "trust_line_entry \<Rightarrow> bool" where
  "isAuthorized trust = (tl_flags trust AND AUTHORIZED_FLAG \<noteq> 0)"

definition isAuthorizedToMaintainLiabilitiesUnsafe :: "uint32 \<Rightarrow> bool" where
  "isAuthorizedToMaintainLiabilitiesUnsafe flags = (flags AND TRUSTLINE_AUTH_FLAGS \<noteq> 0)"

definition isAuthorizedToMaintainLiabilities :: "trust_line_entry \<Rightarrow> bool" where
  "isAuthorizedToMaintainLiabilities trust =
     (case tl_asset trust of
        TL_POOL_SHARE pool \<Rightarrow> True
      | _ \<Rightarrow> isAuthorizedToMaintainLiabilitiesUnsafe (tl_flags trust))"

definition isClawbackEnabledOnTrustline :: "trust_line_entry \<Rightarrow> bool" where
  "isClawbackEnabledOnTrustline trust = (tl_flags trust AND TRUSTLINE_CLAWBACK_ENABLED_FLAG \<noteq> 0)"

definition isClawbackEnabledOnClaimableBalance :: "claimable_balance_entry \<Rightarrow> bool" where
  "isClawbackEnabledOnClaimableBalance cb =
     (case cb_ext cb of None \<Rightarrow> False | Some flags \<Rightarrow> flags AND CLAIMABLE_BALANCE_CLAWBACK_ENABLED_FLAG \<noteq> 0)"

definition claimableBalanceFlagIsValid :: "claimable_balance_entry \<Rightarrow> bool" where
  "claimableBalanceFlagIsValid cb = (case cb_ext cb of None \<Rightarrow> True | Some flags \<Rightarrow> flags = MASK_CLAIMABLE_BALANCE_FLAGS)"

definition isLedgerHeaderFlagSet :: "ledger_header \<Rightarrow> uint32 \<Rightarrow> bool" where
  "isLedgerHeaderFlagSet header flag = (case lh_ext header of None \<Rightarrow> False | Some flags \<Rightarrow> flags AND flag \<noteq> 0)"

definition isPoolDepositDisabled :: "ledger_header \<Rightarrow> bool" where
  "isPoolDepositDisabled header = isLedgerHeaderFlagSet header DISABLE_LIQUIDITY_POOL_DEPOSIT_FLAG"

definition isPoolWithdrawalDisabled :: "ledger_header \<Rightarrow> bool" where
  "isPoolWithdrawalDisabled header = isLedgerHeaderFlagSet header DISABLE_LIQUIDITY_POOL_WITHDRAWAL_FLAG"

definition trustLineFlagAuthIsValid :: "uint32 \<Rightarrow> bool" where
  "trustLineFlagAuthIsValid flag = (\<not> flag AND TRUSTLINE_AUTH_FLAGS = TRUSTLINE_AUTH_FLAGS)"

definition trustLineFlagMaskCheckIsValid :: "uint32 \<Rightarrow> uint32 \<Rightarrow> bool" where
  "trustLineFlagMaskCheckIsValid flag v =
     (if protocolVersionIsBefore v 13 then flag AND NOT MASK_TRUSTLINE_FLAGS = 0
      else if protocolVersionIsBefore v 17 then flag AND NOT MASK_TRUSTLINE_FLAGS_V13 = 0
      else flag AND NOT MASK_TRUSTLINE_FLAGS_V17 = 0)"

definition trustLineFlagIsValid :: "uint32 \<Rightarrow> uint32 \<Rightarrow> bool" where
  "trustLineFlagIsValid flag v \<longleftrightarrow>
     trustLineFlagMaskCheckIsValid flag v \<and> (protocolVersionIsBefore v 13 \<or> trustLineFlagAuthIsValid flag)"

definition accountFlagMaskCheckIsValid :: "uint32 \<Rightarrow> uint32 \<Rightarrow> bool" where
  "accountFlagMaskCheckIsValid flag v =
     (if protocolVersionIsBefore v 17 then flag AND NOT MASK_ACCOUNT_FLAGS = 0 else flag AND NOT MASK_ACCOUNT_FLAGS_V17 = 0)"

definition accountFlagClawbackIsValid :: "uint32 \<Rightarrow> uint32 \<Rightarrow> bool" where
  "accountFlagClawbackIsValid flag v =
     (\<not> (protocolVersionStartsFrom v 17 \<and> flag AND AUTH_CLAWBACK_ENABLED_FLAG \<noteq> 0 \<and> flag AND AUTH_REVOCABLE_FLAG = 0))"

definition accountFlagIsValid :: "uint32 \<Rightarrow> uint32 \<Rightarrow> bool" where
  "accountFlagIsValid flag v \<longleftrightarrow> accountFlagMaskCheckIsValid flag v \<and> accountFlagClawbackIsValid flag v"

section \<open>Balances and liabilities\<close>

definition hasAccountEntryExtV2 :: "account_entry \<Rightarrow> bool" where
  "hasAccountEntryExtV2 ae = (case ae_ext ae of None \<Rightarrow> False | Some e1 \<Rightarrow> aev1_ext e1 \<noteq> None)"

definition hasTrustLineEntryExtV2 :: "trust_line_entry \<Rightarrow> bool" where
  "hasTrustLineEntryExtV2 trust = (case tl_ext trust of None \<Rightarrow> False | Some e1 \<Rightarrow> tlv1_ext e1 \<noteq> None)"

definition prepareAccountEntryExtensionV1 :: "account_entry \<Rightarrow> account_ext_v1" where
  "prepareAccountEntryExtensionV1 ae =
     (case ae_ext ae of
        None \<Rightarrow> \<lparr>aev1_liabilities = \<lparr>liab_buying = 0, liab_selling = 0\<rparr>, aev1_ext = None\<rparr>
      | Some e1 \<Rightarrow> e1)"

definition prepareTrustLineEntryExtensionV1 :: "trust_line_entry \<Rightarrow> trust_line_ext_v1" where
  "prepareTrustLineEntryExtensionV1 trust =
     (case tl_ext trust of
        None \<Rightarrow> \<lparr>tlv1_liabilities = \<lparr>liab_buying = 0, liab_selling = 0\<rparr>, tlv1_ext = None\<rparr>
      | Some e1 \<Rightarrow> e1)"

text \<open>\<open>stellar::addBalance\<close> on a number: whether it was added, and the new number.\<close>

definition addToBalance :: "int \<Rightarrow> int \<Rightarrow> int \<Rightarrow> tx_error + (bool \<times> int)" where
  "addToBalance balance delta maxBalance =
     (if \<not> balance \<ge> 0 then Inl (RuntimeError ''balance >= 0'')
      else if \<not> maxBalance \<ge> 0 then Inl (RuntimeError ''maxBalance >= 0'')
      else if delta = 0 then Inr (True, balance)
      else if delta < - balance then Inr (False, balance)
      else if maxBalance - balance < delta then Inr (False, balance)
      else Inr (True, balance + delta))"

definition getMinBalance_for :: "ledger_header \<Rightarrow> uint32 \<Rightarrow> uint32 \<Rightarrow> uint32 \<Rightarrow> tx_error + int" where
  "getMinBalance_for lh subentries sponsoring sponsored =
     (if protocolVersionIsBefore (lh_ledgerVersion lh) 14 \<and> (sponsored \<noteq> 0 \<or> sponsoring \<noteq> 0)
      then Inl (RuntimeError ''unexpected sponsorship state'')
      else if protocolVersionIsBefore (lh_ledgerVersion lh) 9
      then Inr (uint ((2 + subentries) * lh_baseReserve lh))
      else let effEntries = 2 + uint subentries + uint sponsoring - uint sponsored in
        if effEntries < 0 then Inl (RuntimeError ''unexpected account state'')
        else Inr (effEntries * uint (lh_baseReserve lh)))"

definition getMinBalance :: "ledger_header \<Rightarrow> account_entry \<Rightarrow> tx_error + int" where
  "getMinBalance header acc =
     (case (if protocolVersionStartsFrom (lh_ledgerVersion header) 14 then Option.bind (ae_ext acc) aev1_ext else None) of
        None \<Rightarrow> getMinBalance_for header (ae_numSubEntries acc) 0 0
      | Some e2 \<Rightarrow> getMinBalance_for header (ae_numSubEntries acc) (numSponsoring e2) (numSponsored e2))"

definition account_liabilities :: "account_entry \<Rightarrow> liabilities" where
  "account_liabilities acc = (case ae_ext acc of None \<Rightarrow> \<lparr>liab_buying = 0, liab_selling = 0\<rparr> | Some e1 \<Rightarrow> aev1_liabilities e1)"

definition trust_liabilities :: "trust_line_entry \<Rightarrow> liabilities" where
  "trust_liabilities trust = (case tl_ext trust of None \<Rightarrow> \<lparr>liab_buying = 0, liab_selling = 0\<rparr> | Some e1 \<Rightarrow> tlv1_liabilities e1)"

definition getLiabilities :: "ledger_header \<Rightarrow> ledger_entry \<Rightarrow> tx_error + liabilities" where
  "getLiabilities header le =
     (if protocolVersionIsBefore (lh_ledgerVersion header) 10
      then Inl (RuntimeError ''Liabilities accessed before version 10'')
      else case le_data le of
        ACCOUNT acc \<Rightarrow> Inr (account_liabilities acc)
      | TRUSTLINE trust \<Rightarrow> Inr (trust_liabilities trust)
      | _ \<Rightarrow> Inl (RuntimeError ''Unknown LedgerEntry type''))"

definition getSellingLiabilities :: "ledger_header \<Rightarrow> ledger_entry \<Rightarrow> tx_error + int" where
  "getSellingLiabilities header le = seq (getLiabilities header le) (\<lambda>l. Inr (liab_selling l))"

definition getBuyingLiabilities :: "ledger_header \<Rightarrow> ledger_entry \<Rightarrow> tx_error + int" where
  "getBuyingLiabilities header le = seq (getLiabilities header le) (\<lambda>l. Inr (liab_buying l))"

definition checkAuthorization :: "ledger_header \<Rightarrow> trust_line_entry \<Rightarrow> tx_error + bool" where
  "checkAuthorization header trust =
     (if protocolVersionIsBefore (lh_ledgerVersion header) 10 then Inr (isAuthorized trust)
      else if \<not> isAuthorizedToMaintainLiabilities trust then Inl (RuntimeError ''Invalid authorization'')
      else Inr True)"

definition getAvailableBalance :: "ledger_header \<Rightarrow> ledger_entry \<Rightarrow> tx_error + int" where
  "getAvailableBalance header le =
     seq (case le_data le of
            ACCOUNT acc \<Rightarrow> seq (getMinBalance header acc) (\<lambda>m. Inr (ae_balance acc - m))
          | TRUSTLINE trust \<Rightarrow> seq (checkAuthorization header trust) (\<lambda>_. Inr (tl_balance trust))
          | _ \<Rightarrow> Inl (RuntimeError ''Unknown LedgerEntry type''))
       (\<lambda>avail.
          if protocolVersionStartsFrom (lh_ledgerVersion header) 10
          then seq (getSellingLiabilities header le) (\<lambda>s. Inr (avail - s))
          else Inr avail)"

definition getMaxAmountReceive :: "ledger_header \<Rightarrow> ledger_entry \<Rightarrow> tx_error + int" where
  "getMaxAmountReceive header le =
     (case le_data le of
        ACCOUNT acc \<Rightarrow>
          if protocolVersionStartsFrom (lh_ledgerVersion header) 10
          then seq (getBuyingLiabilities header le) (\<lambda>b. Inr (INT64_MAX - (ae_balance acc + b)))
          else Inr INT64_MAX
      | TRUSTLINE trust \<Rightarrow>
          seq (checkAuthorization header trust) (\<lambda>ok.
            if \<not> ok then Inr 0
            else if protocolVersionStartsFrom (lh_ledgerVersion header) 10
            then seq (getBuyingLiabilities header le) (\<lambda>b. Inr (tl_limit trust - tl_balance trust - b))
            else Inr (tl_limit trust - tl_balance trust))
      | _ \<Rightarrow> Inl (RuntimeError ''Unknown LedgerEntry type''))"

definition addBalanceSkipAuthorization ::
  "ledger_header \<Rightarrow> ledger_entry \<Rightarrow> trust_line_entry \<Rightarrow> int \<Rightarrow> tx_error + (bool \<times> ledger_entry)" where
  "addBalanceSkipAuthorization header entry trust delta =
     seq (addToBalance (tl_balance trust) delta (tl_limit trust)) (\<lambda>(ok, newBalance).
       if \<not> ok then Inr (False, entry)
       else if protocolVersionStartsFrom (lh_ledgerVersion header) 10
       then seq (getSellingLiabilities header entry) (\<lambda>s.
              if newBalance < s then Inr (False, entry)
              else seq (getBuyingLiabilities header entry) (\<lambda>b.
                if newBalance > tl_limit trust - b then Inr (False, entry)
                else Inr (True, entry\<lparr>le_data := TRUSTLINE (trust\<lparr>tl_balance := newBalance\<rparr>)\<rparr>)))
       else Inr (True, entry\<lparr>le_data := TRUSTLINE (trust\<lparr>tl_balance := newBalance\<rparr>)\<rparr>))"

definition addBalance :: "ledger_header \<Rightarrow> ledger_entry \<Rightarrow> int \<Rightarrow> tx_error + (bool \<times> ledger_entry)" where
  "addBalance header entry delta =
     (case le_data entry of
        ACCOUNT acc \<Rightarrow>
          if delta = 0 then Inr (True, entry)
          else seq (addToBalance (ae_balance acc) delta INT64_MAX) (\<lambda>(ok, newBalance).
            if \<not> ok then Inr (False, entry)
            else let entry' = entry\<lparr>le_data := ACCOUNT (acc\<lparr>ae_balance := newBalance\<rparr>)\<rparr> in
              if protocolVersionStartsFrom (lh_ledgerVersion header) 10
              then seq (getMinBalance header acc) (\<lambda>minBalance.
                     seq (getSellingLiabilities header entry) (\<lambda>s.
                       if delta < 0 \<and> newBalance - minBalance < s then Inr (False, entry)
                       else seq (getBuyingLiabilities header entry) (\<lambda>b.
                         if newBalance > INT64_MAX - b then Inr (False, entry) else Inr (True, entry'))))
              else Inr (True, entry'))
      | TRUSTLINE trust \<Rightarrow>
          if delta = 0 then Inr (True, entry)
          else seq (checkAuthorization header trust) (\<lambda>ok.
            if \<not> ok then Inr (False, entry) else addBalanceSkipAuthorization header entry trust delta)
      | _ \<Rightarrow> Inl (RuntimeError ''Unknown LedgerEntry type''))"

definition addBuyingLiabilities :: "ledger_header \<Rightarrow> ledger_entry \<Rightarrow> int \<Rightarrow> tx_error + (bool \<times> ledger_entry)" where
  "addBuyingLiabilities header entry delta =
     seq (getBuyingLiabilities header entry) (\<lambda>buyingLiab.
       if delta = 0 then Inr (True, entry)
       else case le_data entry of
         ACCOUNT acc \<Rightarrow>
           seq (addToBalance buyingLiab delta (INT64_MAX - ae_balance acc)) (\<lambda>(res, b).
             if \<not> res then Inr (False, entry)
             else let e1 = prepareAccountEntryExtensionV1 acc in
               Inr (True, entry\<lparr>le_data :=
                 ACCOUNT (acc\<lparr>ae_ext := Some (e1\<lparr>aev1_liabilities := (aev1_liabilities e1)\<lparr>liab_buying := b\<rparr>\<rparr>)\<rparr>)\<rparr>))
       | TRUSTLINE trust \<Rightarrow>
           seq (checkAuthorization header trust) (\<lambda>ok.
             if \<not> ok then Inr (False, entry)
             else seq (addToBalance buyingLiab delta (tl_limit trust - tl_balance trust)) (\<lambda>(res, b).
               if \<not> res then Inr (False, entry)
               else let e1 = prepareTrustLineEntryExtensionV1 trust in
                 Inr (True, entry\<lparr>le_data :=
                   TRUSTLINE (trust\<lparr>tl_ext := Some (e1\<lparr>tlv1_liabilities := (tlv1_liabilities e1)\<lparr>liab_buying := b\<rparr>\<rparr>)\<rparr>)\<rparr>)))
       | _ \<Rightarrow> Inl (RuntimeError ''Unknown LedgerEntry type''))"

definition addSellingLiabilities :: "ledger_header \<Rightarrow> ledger_entry \<Rightarrow> int \<Rightarrow> tx_error + (bool \<times> ledger_entry)" where
  "addSellingLiabilities header entry delta =
     seq (getSellingLiabilities header entry) (\<lambda>sellingLiab.
       if delta = 0 then Inr (True, entry)
       else case le_data entry of
         ACCOUNT acc \<Rightarrow>
           seq (getMinBalance header acc) (\<lambda>minBalance.
             if ae_balance acc - minBalance < 0 then Inr (False, entry)
             else seq (addToBalance sellingLiab delta (ae_balance acc - minBalance)) (\<lambda>(res, s).
               if \<not> res then Inr (False, entry)
               else let e1 = prepareAccountEntryExtensionV1 acc in
                 Inr (True, entry\<lparr>le_data :=
                   ACCOUNT (acc\<lparr>ae_ext := Some (e1\<lparr>aev1_liabilities := (aev1_liabilities e1)\<lparr>liab_selling := s\<rparr>\<rparr>)\<rparr>)\<rparr>)))
       | TRUSTLINE trust \<Rightarrow>
           seq (checkAuthorization header trust) (\<lambda>ok.
             if \<not> ok then Inr (False, entry)
             else seq (addToBalance sellingLiab delta (tl_balance trust)) (\<lambda>(res, s).
               if \<not> res then Inr (False, entry)
               else let e1 = prepareTrustLineEntryExtensionV1 trust in
                 Inr (True, entry\<lparr>le_data :=
                   TRUSTLINE (trust\<lparr>tl_ext := Some (e1\<lparr>tlv1_liabilities := (tlv1_liabilities e1)\<lparr>liab_selling := s\<rparr>\<rparr>)\<rparr>)\<rparr>)))
       | _ \<Rightarrow> Inl (RuntimeError ''Unknown LedgerEntry type''))"

definition getMinimumLimit :: "ledger_header \<Rightarrow> ledger_entry \<Rightarrow> trust_line_entry \<Rightarrow> tx_error + int" where
  "getMinimumLimit header le trust =
     (if protocolVersionStartsFrom (lh_ledgerVersion header) 10
      then seq (getBuyingLiabilities header le) (\<lambda>b. Inr (tl_balance trust + b))
      else Inr (tl_balance trust))"

definition getOfferLiabilities :: "ledger_header \<Rightarrow> offer_entry \<Rightarrow> tx_error + exchange_result_v10" where
  "getOfferLiabilities header oe =
     (if protocolVersionIsBefore (lh_ledgerVersion header) 10
      then Inl (RuntimeError ''Offer liabilities calculated before version 10'')
      else exchangeV10WithoutPriceErrorThresholds (oe_price oe) (oe_amount oe) INT64_MAX INT64_MAX INT64_MAX NORMAL)"

definition getOfferBuyingLiabilities :: "ledger_header \<Rightarrow> offer_entry \<Rightarrow> tx_error + int" where
  "getOfferBuyingLiabilities header oe = seq (getOfferLiabilities header oe) (\<lambda>r. Inr (numSheepSend r))"

definition getOfferSellingLiabilities :: "ledger_header \<Rightarrow> offer_entry \<Rightarrow> tx_error + int" where
  "getOfferSellingLiabilities header oe = seq (getOfferLiabilities header oe) (\<lambda>r. Inr (numWheatReceived r))"

definition getStartingSequenceNumber :: "uint32 \<Rightarrow> tx_error + int" where
  "getStartingSequenceNumber ledgerSeq =
     (if uint ledgerSeq > INT32_MAX then Inl (RuntimeError ''overflowed getStartingSequenceNumber'')
      else Inr (uint ledgerSeq * 2 ^ 32))"

definition getPoolWithdrawalAmount :: "int \<Rightarrow> int \<Rightarrow> int \<Rightarrow> tx_error + int" where
  "getPoolWithdrawalAmount amountPoolShares totalPoolShares reserve =
     (if amountPoolShares > totalPoolShares then Inl (RuntimeError ''Invalid amountPoolShares'')
      else num (bigDivideOrThrow amountPoolShares reserve totalPoolShares ROUND_DOWN))"

end
