(* ===== verification/Tx_Types.thy ===== *)
theory Tx_Types
  imports Ledger_Entries
begin

text \<open>
  Transactions and operations (\<^verbatim>\<open>xdr/Stellar-transaction.x\<close>), and the state of the ledger they are checked
  against.  An operation body has one constructor per arm of the union, with the fields of its struct.
\<close>

section \<open>Operations\<close>

datatype muxed_account = KEY_TYPE_ED25519 uint256 | KEY_TYPE_MUXED_ED25519 uint64 uint256

primrec toAccountID :: "muxed_account \<Rightarrow> account_id" where
  "toAccountID (KEY_TYPE_ED25519 key) = key"
| "toAccountID (KEY_TYPE_MUXED_ED25519 i key) = key"

definition toMuxedAccount :: "account_id \<Rightarrow> muxed_account" where
  "toMuxedAccount a = KEY_TYPE_ED25519 a"

record set_options_op =
  so_inflationDest :: "account_id option"
  so_clearFlags :: "uint32 option"
  so_setFlags :: "uint32 option"
  so_masterWeight :: "uint32 option"
  so_lowThreshold :: "uint32 option"
  so_medThreshold :: "uint32 option"
  so_highThreshold :: "uint32 option"
  so_homeDomain :: "opaque option"
  so_signer :: "signer option"

datatype operation_body =
    CreateAccountOp account_id int
  | PaymentOp muxed_account asset int
  | PathPaymentStrictReceiveOp asset int muxed_account asset int "asset list"
  | ManageSellOfferOp asset asset int price int
  | CreatePassiveSellOfferOp asset asset int price
  | SetOptionsOp set_options_op
  | ChangeTrustOp change_trust_asset int
  | AllowTrustOp account_id asset_code uint32
  | AccountMergeOp muxed_account
  | InflationOp
  | ManageDataOp opaque "opaque option"
  | BumpSequenceOp int
  | ManageBuyOfferOp asset asset int price int
  | PathPaymentStrictSendOp asset int muxed_account asset int "asset list"
  | CreateClaimableBalanceOp asset int "claimant list"
  | ClaimClaimableBalanceOp hash
  | BeginSponsoringFutureReservesOp account_id
  | EndSponsoringFutureReservesOp
  | RevokeSponsorshipEntryOp ledger_key
  | RevokeSponsorshipSignerOp account_id signer_key
  | ClawbackOp asset muxed_account int
  | ClawbackClaimableBalanceOp hash
  | SetTrustLineFlagsOp account_id asset uint32 uint32
  | LiquidityPoolDepositOp pool_id int int price price
  | LiquidityPoolWithdrawOp pool_id int int int

record operation =
  op_sourceAccount :: "muxed_account option"
  op_body :: operation_body

section \<open>Transactions\<close>

record time_bounds =
  minTime :: uint64
  maxTime :: uint64

datatype memo = MEMO_NONE | MEMO_TEXT opaque | MEMO_ID uint64 | MEMO_HASH hash | MEMO_RETURN hash

text \<open>The first four bytes of a signature are a hint: the last four bytes of the key.\<close>

record decorated_signature =
  ds_hint :: uint32
  ds_signature :: opaque

text \<open>\<^verbatim>\<open>TransactionV0\<close> and \<^verbatim>\<open>Transaction\<close> have these fields; they differ in the type of the source.\<close>

record transaction =
  tx_fee :: uint64
  tx_seqNum :: int
  tx_timeBounds :: "time_bounds option"
  tx_memo :: memo
  tx_operations :: "operation list"

datatype tx_source = ENVELOPE_TYPE_TX_V0 uint256 | ENVELOPE_TYPE_TX muxed_account

record tx_envelope =
  env_source :: tx_source
  env_tx :: transaction
  env_signatures :: "decorated_signature list"

record fee_bump_transaction =
  fb_feeSource :: muxed_account
  fb_fee :: int
  fb_innerTx :: tx_envelope

record fee_bump_envelope =
  fbe_tx :: fee_bump_transaction
  fbe_signatures :: "decorated_signature list"

text \<open>A frame (\<^verbatim>\<open>TransactionFrameBase\<close>) is made from an envelope: the second kind wraps the first.\<close>

datatype tx_frame = TransactionFrame tx_envelope | FeeBumpTransactionFrame fee_bump_envelope

section \<open>Results\<close>

datatype tx_result_code =
    txSUCCESS | txFAILED | txTOO_EARLY | txTOO_LATE | txMISSING_OPERATION | txBAD_SEQ | txBAD_AUTH
  | txINSUFFICIENT_BALANCE | txNO_ACCOUNT | txINSUFFICIENT_FEE | txBAD_AUTH_EXTRA | txINTERNAL_ERROR
  | txNOT_SUPPORTED | txFEE_BUMP_INNER_FAILED | txFEE_BUMP_INNER_SUCCESS | txBAD_SPONSORSHIP

datatype op_result =
    opINNER_SUCCESS | opBAD_AUTH | opNO_ACCOUNT | opNOT_SUPPORTED
  | CREATE_ACCOUNT_MALFORMED | PAYMENT_MALFORMED | PATH_PAYMENT_STRICT_RECEIVE_MALFORMED
  | PATH_PAYMENT_STRICT_SEND_MALFORMED | MANAGE_OFFER_MALFORMED | MANAGE_OFFER_NOT_FOUND
  | SET_OPTIONS_UNKNOWN_FLAG | SET_OPTIONS_BAD_FLAGS | SET_OPTIONS_THRESHOLD_OUT_OF_RANGE | SET_OPTIONS_BAD_SIGNER
  | SET_OPTIONS_INVALID_HOME_DOMAIN | CHANGE_TRUST_MALFORMED | ALLOW_TRUST_MALFORMED | ACCOUNT_MERGE_MALFORMED
  | MANAGE_DATA_NOT_SUPPORTED_YET | MANAGE_DATA_INVALID_NAME | BUMP_SEQUENCE_BAD_SEQ
  | CREATE_CLAIMABLE_BALANCE_MALFORMED | BEGIN_SPONSORING_FUTURE_RESERVES_MALFORMED | REVOKE_SPONSORSHIP_MALFORMED
  | CLAWBACK_MALFORMED | SET_TRUST_LINE_FLAGS_MALFORMED | LIQUIDITY_POOL_DEPOSIT_MALFORMED
  | LIQUIDITY_POOL_WITHDRAW_MALFORMED

section \<open>The ledger and the cryptographic library\<close>

text \<open>What a \<^verbatim>\<open>LedgerTxn\<close> holds: the header and the entries by their key.\<close>

record ledger_state =
  ls_header :: ledger_header
  ls_entries :: "ledger_key \<Rightarrow> ledger_entry option"

text \<open>\<^verbatim>\<open>loadAccount\<close>; an entry under the key of an account is an account.\<close>

definition loadAccount :: "ledger_state \<Rightarrow> account_id \<Rightarrow> (ledger_entry \<times> account_entry) option" where
  "loadAccount ls i =
     (case ls_entries ls (ACCOUNT_KEY i) of
        None \<Rightarrow> None
      | Some le \<Rightarrow> (case le_data le of ACCOUNT acc \<Rightarrow> Some (le, acc) | _ \<Rightarrow> None))"

text \<open>The hash function, the check of an ed25519 signature and the XDR encodings that are hashed
  or signed; the first two begin with the identifier of the network.\<close>

record crypto =
  sha256 :: "opaque \<Rightarrow> hash"
  verify_detached :: "uint256 \<Rightarrow> opaque \<Rightarrow> hash \<Rightarrow> bool"
  xdr_tx_payload :: "tx_source \<Rightarrow> transaction \<Rightarrow> opaque"
  xdr_feeBump_payload :: "fee_bump_transaction \<Rightarrow> opaque"
  xdr_tx_envelope :: "tx_envelope \<Rightarrow> opaque"
  xdr_feeBump_envelope :: "fee_bump_envelope \<Rightarrow> opaque"

end
