(* ===== verification/Tx_Signatures.thy ===== *)
theory Tx_Signatures
  imports Tx_Types
begin

text \<open>
  The signatures of a transaction (\<^verbatim>\<open>transactions/SignatureChecker.cpp\<close>, \<^verbatim>\<open>transactions/SignatureUtils.cpp\<close>):
  whether the signers of an account that signed have enough weight, and whether every signature was needed.
\<close>

section \<open>Definitions\<close>

definition doesHintMatch :: "uint256 \<Rightarrow> uint32 \<Rightarrow> bool" where
  "doesHintMatch bs hint = (ucast bs = hint)"

definition verify_sig :: "crypto \<Rightarrow> decorated_signature \<Rightarrow> uint256 \<Rightarrow> hash \<Rightarrow> bool" where
  "verify_sig cr sig pubKey h =
     (if \<not> doesHintMatch pubKey (ds_hint sig) then False else verify_detached cr pubKey (ds_signature sig) h)"

definition verifyHashX :: "crypto \<Rightarrow> decorated_signature \<Rightarrow> uint256 \<Rightarrow> bool" where
  "verifyHashX cr sig hashX =
     (if \<not> doesHintMatch hashX (ds_hint sig) then False else hashX = sha256 cr (ds_signature sig))"

record signature_checker =
  sc_protocolVersion :: uint32
  sc_contentsHash :: hash
  sc_signatures :: "decorated_signature list"
  sc_usedSignatures :: "bool list"

definition new_SignatureChecker :: "uint32 \<Rightarrow> hash \<Rightarrow> decorated_signature list \<Rightarrow> signature_checker" where
  "new_SignatureChecker protocolVersion contentsHash signatures =
     \<lparr>sc_protocolVersion = protocolVersion, sc_contentsHash = contentsHash, sc_signatures = signatures,
      sc_usedSignatures = replicate (length signatures) False\<rparr>"

definition signerWeight :: "uint32 \<Rightarrow> signer \<Rightarrow> uint32" where
  "signerWeight v s = (if protocolVersionStartsFrom v 10 \<and> signer_weight s > 255 then 255 else signer_weight s)"

text \<open>\<open>totalWeight\<close> is an \<^verbatim>\<open>int\<close>: the sum wraps and is read as a signed number.  The loops return whether
  the needed weight was reached, and the weight.\<close>

fun preAuthLoop :: "uint32 \<Rightarrow> hash \<Rightarrow> int \<Rightarrow> signer list \<Rightarrow> uint32 \<Rightarrow> bool \<times> uint32" where
  "preAuthLoop v h needed [] weight = (False, weight)"
| "preAuthLoop v h needed (s # ss) weight =
     (if signer_key s = SIGNER_KEY_TYPE_PRE_AUTH_TX h
      then let weight' = weight + signerWeight v s in
        if sint weight' \<ge> needed then (True, weight') else preAuthLoop v h needed ss weight'
      else preAuthLoop v h needed ss weight)"

text \<open>The first signer that matches a signature, and the others.\<close>

fun takeSigner :: "(signer \<Rightarrow> bool) \<Rightarrow> signer list \<Rightarrow> (signer \<times> signer list) option" where
  "takeSigner ok [] = None"
| "takeSigner ok (s # ss) =
     (if ok s then Some (s, ss)
      else case takeSigner ok ss of None \<Rightarrow> None | Some (s', rest) \<Rightarrow> Some (s', s # rest))"

fun verifyAll ::
  "(decorated_signature \<Rightarrow> signer \<Rightarrow> bool) \<Rightarrow> uint32 \<Rightarrow> int \<Rightarrow> nat \<Rightarrow> decorated_signature list \<Rightarrow> signer list \<Rightarrow>
    uint32 \<Rightarrow> bool list \<Rightarrow> bool \<times> uint32 \<times> bool list" where
  "verifyAll verify v needed i [] signers weight used = (False, weight, used)"
| "verifyAll verify v needed i (sig # sigs) signers weight used =
     (case takeSigner (verify sig) signers of
        None \<Rightarrow> verifyAll verify v needed (Suc i) sigs signers weight used
      | Some (s, rest) \<Rightarrow>
          let used' = used[i := True]; weight' = weight + signerWeight v s in
          if sint weight' \<ge> needed then (True, weight', used')
          else verifyAll verify v needed (Suc i) sigs rest weight' used')"

primrec isPreAuthKey :: "signer_key \<Rightarrow> bool" where
  "isPreAuthKey (SIGNER_KEY_TYPE_ED25519 k) = False"
| "isPreAuthKey (SIGNER_KEY_TYPE_PRE_AUTH_TX k) = True"
| "isPreAuthKey (SIGNER_KEY_TYPE_HASH_X k) = False"

primrec isHashXKey :: "signer_key \<Rightarrow> bool" where
  "isHashXKey (SIGNER_KEY_TYPE_ED25519 k) = False"
| "isHashXKey (SIGNER_KEY_TYPE_PRE_AUTH_TX k) = False"
| "isHashXKey (SIGNER_KEY_TYPE_HASH_X k) = True"

primrec isEd25519Key :: "signer_key \<Rightarrow> bool" where
  "isEd25519Key (SIGNER_KEY_TYPE_ED25519 k) = True"
| "isEd25519Key (SIGNER_KEY_TYPE_PRE_AUTH_TX k) = False"
| "isEd25519Key (SIGNER_KEY_TYPE_HASH_X k) = False"

primrec keyBytes :: "signer_key \<Rightarrow> uint256" where
  "keyBytes (SIGNER_KEY_TYPE_ED25519 k) = k"
| "keyBytes (SIGNER_KEY_TYPE_PRE_AUTH_TX k) = k"
| "keyBytes (SIGNER_KEY_TYPE_HASH_X k) = k"

definition SignatureChecker_checkSignature ::
  "crypto \<Rightarrow> signature_checker \<Rightarrow> signer list \<Rightarrow> int \<Rightarrow> bool \<times> signature_checker" where
  "SignatureChecker_checkSignature cr sc signersV neededWeight =
     (let v = sc_protocolVersion sc; h = sc_contentsHash sc; sigs = sc_signatures sc in
      if v = 7 then (True, sc)
      else let (ok, weight) = preAuthLoop v h neededWeight (filter (\<lambda>s. isPreAuthKey (signer_key s)) signersV) 0 in
        if ok then (True, sc)
        else let (ok, weight, used) =
               verifyAll (\<lambda>sig s. verifyHashX cr sig (keyBytes (signer_key s))) v neededWeight 0 sigs
                 (filter (\<lambda>s. isHashXKey (signer_key s)) signersV) weight (sc_usedSignatures sc) in
          if ok then (True, sc\<lparr>sc_usedSignatures := used\<rparr>)
          else let (ok, weight, used) =
                 verifyAll (\<lambda>sig s. verify_sig cr sig (keyBytes (signer_key s)) h) v neededWeight 0 sigs
                   (filter (\<lambda>s. isEd25519Key (signer_key s)) signersV) weight used in
            (ok, sc\<lparr>sc_usedSignatures := used\<rparr>))"

definition checkAllSignaturesUsed :: "signature_checker \<Rightarrow> bool" where
  "checkAllSignaturesUsed sc = (if sc_protocolVersion sc = 7 then True else list_all id (sc_usedSignatures sc))"

end
