(* ===== verification/Tx_Operations.thy ===== *)
theory Tx_Operations
  imports Tx_Signatures
begin

unbundle bit_operations_syntax

text \<open>
  The checks of operations that do not depend on the ledger: \<^verbatim>\<open>doCheckValid\<close>, \<^verbatim>\<open>isOpSupported\<close> and
  \<^verbatim>\<open>getThresholdLevel\<close> of every operation frame under \<^verbatim>\<open>transactions/\<close>, in the build with \<^verbatim>\<open>_KINESIS\<close>.
  A check returns the result code; \<^const>\<open>opINNER_SUCCESS\<close> is the value \<^verbatim>\<open>true\<close> of the code.  \<open>src\<close> is the source
  account of the operation, \<open>v\<close> the version of the ledger.
\<close>

section \<open>Checks of the single operations\<close>

definition CreateAccount_doCheckValid :: "account_id \<Rightarrow> uint32 \<Rightarrow> account_id \<Rightarrow> int \<Rightarrow> op_result" where
  "CreateAccount_doCheckValid src v destination startingBalance =
     (let minStartingBalance = (if protocolVersionStartsFrom v 14 then 0 else 1) in
      if startingBalance < minStartingBalance then CREATE_ACCOUNT_MALFORMED
      else if destination = src then CREATE_ACCOUNT_MALFORMED
      else opINNER_SUCCESS)"

definition Payment_doCheckValid :: "uint32 \<Rightarrow> asset \<Rightarrow> int \<Rightarrow> op_result" where
  "Payment_doCheckValid v a paymentAmount =
     (if paymentAmount \<le> 0 then PAYMENT_MALFORMED
      else if \<not> isAssetValid a v then PAYMENT_MALFORMED
      else opINNER_SUCCESS)"

definition PathPaymentStrictReceive_doCheckValid ::
  "uint32 \<Rightarrow> asset \<Rightarrow> int \<Rightarrow> asset \<Rightarrow> int \<Rightarrow> asset list \<Rightarrow> op_result" where
  "PathPaymentStrictReceive_doCheckValid v sendAsset sendMax destAsset destAmount path =
     (if destAmount \<le> 0 \<or> sendMax \<le> 0 then PATH_PAYMENT_STRICT_RECEIVE_MALFORMED
      else if \<not> isAssetValid sendAsset v \<or> \<not> isAssetValid destAsset v then PATH_PAYMENT_STRICT_RECEIVE_MALFORMED
      else if \<not> list_all (\<lambda>p. isAssetValid p v) path then PATH_PAYMENT_STRICT_RECEIVE_MALFORMED
      else opINNER_SUCCESS)"

definition PathPaymentStrictSend_doCheckValid ::
  "uint32 \<Rightarrow> asset \<Rightarrow> int \<Rightarrow> asset \<Rightarrow> int \<Rightarrow> asset list \<Rightarrow> op_result" where
  "PathPaymentStrictSend_doCheckValid v sendAsset sendAmount destAsset destMin path =
     (if sendAmount \<le> 0 \<or> destMin \<le> 0 then PATH_PAYMENT_STRICT_SEND_MALFORMED
      else if \<not> isAssetValid sendAsset v \<or> \<not> isAssetValid destAsset v then PATH_PAYMENT_STRICT_SEND_MALFORMED
      else if \<not> list_all (\<lambda>p. isAssetValid p v) path then PATH_PAYMENT_STRICT_SEND_MALFORMED
      else opINNER_SUCCESS)"

text \<open>The amount of a sell offer is what it sells, that of a buy offer what it buys; a passive offer is a
  sell offer with identifier 0, and the price of a buy offer is inverted.\<close>

definition getInversePrice :: "price \<Rightarrow> price" where
  "getInversePrice p = \<lparr>price_n = price_d p, price_d = price_n p\<rparr>"

definition ManageOffer_doCheckValid :: "uint32 \<Rightarrow> asset \<Rightarrow> asset \<Rightarrow> int \<Rightarrow> price \<Rightarrow> int \<Rightarrow> op_result" where
  "ManageOffer_doCheckValid v sheep wheat offerAmount p offerID =
     (if \<not> isAssetValid sheep v \<or> \<not> isAssetValid wheat v then MANAGE_OFFER_MALFORMED
      else if compareAsset sheep wheat then MANAGE_OFFER_MALFORMED
      else if \<not> offerAmount \<ge> 0 \<or> price_d p \<le> 0 \<or> price_n p \<le> 0 then MANAGE_OFFER_MALFORMED
      else if offerID = 0 \<and> offerAmount = 0 \<and> protocolVersionStartsFrom v 11 then MANAGE_OFFER_MALFORMED
      else if offerID = 0 \<and> offerAmount = 0 \<and> protocolVersionStartsFrom v 3 then MANAGE_OFFER_NOT_FOUND
      else if protocolVersionStartsFrom v 15 \<and> offerID < 0 then MANAGE_OFFER_MALFORMED
      else opINNER_SUCCESS)"

definition exceeds :: "uint32 option \<Rightarrow> uint32 \<Rightarrow> bool" where
  "exceeds x m = (case x of None \<Rightarrow> False | Some w \<Rightarrow> w > m)"

definition SetOptions_doCheckValid :: "account_id \<Rightarrow> uint32 \<Rightarrow> set_options_op \<Rightarrow> op_result" where
  "SetOptions_doCheckValid src v so =
     (if (case so_setFlags so of None \<Rightarrow> False | Some f \<Rightarrow> \<not> accountFlagMaskCheckIsValid f v) \<or>
         (case so_clearFlags so of None \<Rightarrow> False | Some f \<Rightarrow> \<not> accountFlagMaskCheckIsValid f v)
      then SET_OPTIONS_UNKNOWN_FLAG
      else if (case (so_setFlags so, so_clearFlags so) of (Some f, Some g) \<Rightarrow> f AND g \<noteq> 0 | _ \<Rightarrow> False)
      then SET_OPTIONS_BAD_FLAGS
      else if exceeds (so_masterWeight so) 255 then SET_OPTIONS_THRESHOLD_OUT_OF_RANGE
      else if exceeds (so_lowThreshold so) 255 then SET_OPTIONS_THRESHOLD_OUT_OF_RANGE
      else if exceeds (so_medThreshold so) 255 then SET_OPTIONS_THRESHOLD_OUT_OF_RANGE
      else if exceeds (so_highThreshold so) 255 then SET_OPTIONS_THRESHOLD_OUT_OF_RANGE
      else if (case so_signer so of
                 None \<Rightarrow> False
               | Some s \<Rightarrow>
                   signer_key s = SIGNER_KEY_TYPE_ED25519 src \<or>
                   (\<not> isEd25519Key (signer_key s) \<and> protocolVersionIsBefore v 3) \<or>
                   (signer_weight s > 255 \<and> protocolVersionStartsFrom v 10))
      then SET_OPTIONS_BAD_SIGNER
      else if (case so_homeDomain so of None \<Rightarrow> False | Some d \<Rightarrow> \<not> isStringValid d)
      then SET_OPTIONS_INVALID_HOME_DOMAIN
      else opINNER_SUCCESS)"

definition ChangeTrust_doCheckValid :: "account_id \<Rightarrow> uint32 \<Rightarrow> change_trust_asset \<Rightarrow> int \<Rightarrow> op_result" where
  "ChangeTrust_doCheckValid src v line limit =
     (if limit < 0 then CHANGE_TRUST_MALFORMED
      else if \<not> isChangeTrustAssetValid line v then CHANGE_TRUST_MALFORMED
      else if protocolVersionStartsFrom v 10 \<and> line = CT_NATIVE then CHANGE_TRUST_MALFORMED
      else if protocolVersionStartsFrom v 16 \<and> isIssuer_changeTrust src line then CHANGE_TRUST_MALFORMED
      else opINNER_SUCCESS)"

definition AllowTrust_doCheckValid :: "account_id \<Rightarrow> uint32 \<Rightarrow> account_id \<Rightarrow> asset_code \<Rightarrow> uint32 \<Rightarrow> op_result" where
  "AllowTrust_doCheckValid src v trustor code authorize =
     (if authorize > AUTHORIZED_TO_MAINTAIN_LIABILITIES_FLAG then ALLOW_TRUST_MALFORMED
      else if \<not> trustLineFlagIsValid authorize v then ALLOW_TRUST_MALFORMED
      else if \<not> isAssetValid (getAsset src code) v then ALLOW_TRUST_MALFORMED
      else if protocolVersionStartsFrom v 16 \<and> trustor = src then ALLOW_TRUST_MALFORMED
      else opINNER_SUCCESS)"

definition Merge_doCheckValid :: "account_id \<Rightarrow> muxed_account \<Rightarrow> op_result" where
  "Merge_doCheckValid src destination =
     (if src = toAccountID destination then ACCOUNT_MERGE_MALFORMED else opINNER_SUCCESS)"

definition ManageData_doCheckValid :: "uint32 \<Rightarrow> opaque \<Rightarrow> op_result" where
  "ManageData_doCheckValid v dataName =
     (if protocolVersionIsBefore v 2 then MANAGE_DATA_NOT_SUPPORTED_YET
      else if length dataName < 1 \<or> \<not> isStringValid dataName then MANAGE_DATA_INVALID_NAME
      else opINNER_SUCCESS)"

definition BumpSequence_doCheckValid :: "int \<Rightarrow> op_result" where
  "BumpSequence_doCheckValid bumpTo = (if bumpTo < 0 then BUMP_SEQUENCE_BAD_SEQ else opINNER_SUCCESS)"

fun validatePredicate :: "claim_predicate \<Rightarrow> nat \<Rightarrow> bool" where
  "validatePredicate CLAIM_PREDICATE_UNCONDITIONAL depth \<longleftrightarrow> \<not> depth > 4"
| "validatePredicate (CLAIM_PREDICATE_AND [p, q]) depth \<longleftrightarrow>
     \<not> depth > 4 \<and> validatePredicate p (depth + 1) \<and> validatePredicate q (depth + 1)"
| "validatePredicate (CLAIM_PREDICATE_AND ps) depth \<longleftrightarrow> False"
| "validatePredicate (CLAIM_PREDICATE_OR [p, q]) depth \<longleftrightarrow>
     \<not> depth > 4 \<and> validatePredicate p (depth + 1) \<and> validatePredicate q (depth + 1)"
| "validatePredicate (CLAIM_PREDICATE_OR ps) depth \<longleftrightarrow> False"
| "validatePredicate (CLAIM_PREDICATE_NOT None) depth \<longleftrightarrow> False"
| "validatePredicate (CLAIM_PREDICATE_NOT (Some p)) depth \<longleftrightarrow> \<not> depth > 4 \<and> validatePredicate p (depth + 1)"
| "validatePredicate (CLAIM_PREDICATE_BEFORE_ABSOLUTE_TIME t) depth \<longleftrightarrow> \<not> depth > 4 \<and> t \<ge> 0"
| "validatePredicate (CLAIM_PREDICATE_BEFORE_RELATIVE_TIME t) depth \<longleftrightarrow> \<not> depth > 4 \<and> t \<ge> 0"

definition CreateClaimableBalance_doCheckValid :: "uint32 \<Rightarrow> asset \<Rightarrow> int \<Rightarrow> claimant list \<Rightarrow> op_result" where
  "CreateClaimableBalance_doCheckValid v a cbAmount claimants =
     (if \<not> isAssetValid a v \<or> cbAmount \<le> 0 \<or> claimants = [] then CREATE_CLAIMABLE_BALANCE_MALFORMED
      else if \<not> distinct (map cl_destination claimants) then CREATE_CLAIMABLE_BALANCE_MALFORMED
      else if \<not> list_all (\<lambda>c. validatePredicate (cl_predicate c) 1) claimants then CREATE_CLAIMABLE_BALANCE_MALFORMED
      else opINNER_SUCCESS)"

definition BeginSponsoring_doCheckValid :: "account_id \<Rightarrow> account_id \<Rightarrow> op_result" where
  "BeginSponsoring_doCheckValid src sponsoredID =
     (if sponsoredID = src then BEGIN_SPONSORING_FUTURE_RESERVES_MALFORMED else opINNER_SUCCESS)"

definition RevokeSponsorship_doCheckValid :: "uint32 \<Rightarrow> ledger_key \<Rightarrow> op_result" where
  "RevokeSponsorship_doCheckValid v lk =
     (case lk of
        ACCOUNT_KEY i \<Rightarrow> opINNER_SUCCESS
      | TRUSTLINE_KEY i a \<Rightarrow>
          if \<not> isTrustLineAssetValid a v \<or> a = TL_NATIVE \<or> isIssuer_trustLine i a then REVOKE_SPONSORSHIP_MALFORMED
          else opINNER_SUCCESS
      | OFFER_KEY i offerID \<Rightarrow> if offerID \<le> 0 then REVOKE_SPONSORSHIP_MALFORMED else opINNER_SUCCESS
      | DATA_KEY i name \<Rightarrow>
          if length name < 1 \<or> \<not> isStringValid name then REVOKE_SPONSORSHIP_MALFORMED else opINNER_SUCCESS
      | CLAIMABLE_BALANCE_KEY b \<Rightarrow> opINNER_SUCCESS
      | LIQUIDITY_POOL_KEY p \<Rightarrow> REVOKE_SPONSORSHIP_MALFORMED)"

definition Clawback_doCheckValid :: "account_id \<Rightarrow> uint32 \<Rightarrow> asset \<Rightarrow> muxed_account \<Rightarrow> int \<Rightarrow> tx_error + op_result" where
  "Clawback_doCheckValid src v a clawFrom clawAmount =
     (if clawFrom = toMuxedAccount src then Inr CLAWBACK_MALFORMED
      else if clawAmount < 1 then Inr CLAWBACK_MALFORMED
      else if a = ASSET_TYPE_NATIVE then Inr CLAWBACK_MALFORMED
      else if \<not> isAssetValid a v then Inr CLAWBACK_MALFORMED
      else seq (getIssuer a) (\<lambda>issuer. Inr (if \<not> src = issuer then CLAWBACK_MALFORMED else opINNER_SUCCESS)))"

definition SetTrustLineFlags_doCheckValid ::
  "account_id \<Rightarrow> uint32 \<Rightarrow> account_id \<Rightarrow> asset \<Rightarrow> uint32 \<Rightarrow> uint32 \<Rightarrow> tx_error + op_result" where
  "SetTrustLineFlags_doCheckValid src v trustor a clearFlags setFlags =
     (if a = ASSET_TYPE_NATIVE then Inr SET_TRUST_LINE_FLAGS_MALFORMED
      else if \<not> isAssetValid a v then Inr SET_TRUST_LINE_FLAGS_MALFORMED
      else seq (getIssuer a) (\<lambda>issuer. Inr
        (if \<not> src = issuer then SET_TRUST_LINE_FLAGS_MALFORMED
         else if trustor = src then SET_TRUST_LINE_FLAGS_MALFORMED
         else if setFlags AND clearFlags \<noteq> 0 then SET_TRUST_LINE_FLAGS_MALFORMED
         else if \<not> trustLineFlagIsValid setFlags v \<or> setFlags AND TRUSTLINE_CLAWBACK_ENABLED_FLAG \<noteq> 0
         then SET_TRUST_LINE_FLAGS_MALFORMED
         else if \<not> trustLineFlagMaskCheckIsValid clearFlags v then SET_TRUST_LINE_FLAGS_MALFORMED
         else opINNER_SUCCESS)))"

text \<open>The products of two 32-bit numbers fit into 64 bits.\<close>

definition LiquidityPoolDeposit_doCheckValid :: "int \<Rightarrow> int \<Rightarrow> price \<Rightarrow> price \<Rightarrow> op_result" where
  "LiquidityPoolDeposit_doCheckValid maxAmountA maxAmountB minPrice maxPrice =
     (if maxAmountA \<le> 0 \<or> maxAmountB \<le> 0 then LIQUIDITY_POOL_DEPOSIT_MALFORMED
      else if price_n minPrice \<le> 0 \<or> price_d minPrice \<le> 0 then LIQUIDITY_POOL_DEPOSIT_MALFORMED
      else if price_n maxPrice \<le> 0 \<or> price_d maxPrice \<le> 0 then LIQUIDITY_POOL_DEPOSIT_MALFORMED
      else if price_n minPrice * price_d maxPrice > price_d minPrice * price_n maxPrice
      then LIQUIDITY_POOL_DEPOSIT_MALFORMED
      else opINNER_SUCCESS)"

definition LiquidityPoolWithdraw_doCheckValid :: "int \<Rightarrow> int \<Rightarrow> int \<Rightarrow> op_result" where
  "LiquidityPoolWithdraw_doCheckValid shares minAmountA minAmountB =
     (if shares \<le> 0 \<or> minAmountA < 0 \<or> minAmountB < 0 then LIQUIDITY_POOL_WITHDRAW_MALFORMED else opINNER_SUCCESS)"

section \<open>Dispatch\<close>

definition doCheckValid :: "account_id \<Rightarrow> uint32 \<Rightarrow> operation_body \<Rightarrow> tx_error + op_result" where
  "doCheckValid src v body =
     (case body of
        CreateAccountOp destination startingBalance \<Rightarrow> Inr (CreateAccount_doCheckValid src v destination startingBalance)
      | PaymentOp destination a n \<Rightarrow> Inr (Payment_doCheckValid v a n)
      | PathPaymentStrictReceiveOp sendAsset sendMax destination destAsset destAmount path \<Rightarrow>
          Inr (PathPaymentStrictReceive_doCheckValid v sendAsset sendMax destAsset destAmount path)
      | ManageSellOfferOp selling buying n p offerID \<Rightarrow> Inr (ManageOffer_doCheckValid v selling buying n p offerID)
      | CreatePassiveSellOfferOp selling buying n p \<Rightarrow> Inr (ManageOffer_doCheckValid v selling buying n p 0)
      | SetOptionsOp so \<Rightarrow> Inr (SetOptions_doCheckValid src v so)
      | ChangeTrustOp line limit \<Rightarrow> Inr (ChangeTrust_doCheckValid src v line limit)
      | AllowTrustOp trustor code authorize \<Rightarrow> Inr (AllowTrust_doCheckValid src v trustor code authorize)
      | AccountMergeOp destination \<Rightarrow> Inr (Merge_doCheckValid src destination)
      | InflationOp \<Rightarrow> Inr opINNER_SUCCESS
      | ManageDataOp dataName dataValue \<Rightarrow> Inr (ManageData_doCheckValid v dataName)
      | BumpSequenceOp bumpTo \<Rightarrow> Inr (BumpSequence_doCheckValid bumpTo)
      | ManageBuyOfferOp selling buying n p offerID \<Rightarrow>
          Inr (ManageOffer_doCheckValid v selling buying n (getInversePrice p) offerID)
      | PathPaymentStrictSendOp sendAsset sendAmount destination destAsset destMin path \<Rightarrow>
          Inr (PathPaymentStrictSend_doCheckValid v sendAsset sendAmount destAsset destMin path)
      | CreateClaimableBalanceOp a n claimants \<Rightarrow> Inr (CreateClaimableBalance_doCheckValid v a n claimants)
      | ClaimClaimableBalanceOp b \<Rightarrow> Inr opINNER_SUCCESS
      | BeginSponsoringFutureReservesOp sponsoredID \<Rightarrow> Inr (BeginSponsoring_doCheckValid src sponsoredID)
      | EndSponsoringFutureReservesOp \<Rightarrow> Inr opINNER_SUCCESS
      | RevokeSponsorshipEntryOp lk \<Rightarrow> Inr (RevokeSponsorship_doCheckValid v lk)
      | RevokeSponsorshipSignerOp i key \<Rightarrow> Inr opINNER_SUCCESS
      | ClawbackOp a clawFrom n \<Rightarrow> Clawback_doCheckValid src v a clawFrom n
      | ClawbackClaimableBalanceOp b \<Rightarrow> Inr opINNER_SUCCESS
      | SetTrustLineFlagsOp trustor a clearFlags setFlags \<Rightarrow>
          SetTrustLineFlags_doCheckValid src v trustor a clearFlags setFlags
      | LiquidityPoolDepositOp pool maxAmountA maxAmountB minPrice maxPrice \<Rightarrow>
          Inr (LiquidityPoolDeposit_doCheckValid maxAmountA maxAmountB minPrice maxPrice)
      | LiquidityPoolWithdrawOp pool n minAmountA minAmountB \<Rightarrow>
          Inr (LiquidityPoolWithdraw_doCheckValid n minAmountA minAmountB))"

definition isOpSupported :: "operation_body \<Rightarrow> ledger_header \<Rightarrow> bool" where
  "isOpSupported body header =
     (let v = lh_ledgerVersion header in
      case body of
        BumpSequenceOp bumpTo \<Rightarrow> protocolVersionStartsFrom v 10
      | ManageBuyOfferOp selling buying n p offerID \<Rightarrow> protocolVersionStartsFrom v 11
      | PathPaymentStrictSendOp sendAsset sendAmount destination destAsset destMin path \<Rightarrow> protocolVersionStartsFrom v 12
      | CreateClaimableBalanceOp a n claimants \<Rightarrow> protocolVersionStartsFrom v 14
      | ClaimClaimableBalanceOp b \<Rightarrow> protocolVersionStartsFrom v 14
      | BeginSponsoringFutureReservesOp sponsoredID \<Rightarrow> protocolVersionStartsFrom v 14
      | EndSponsoringFutureReservesOp \<Rightarrow> protocolVersionStartsFrom v 14
      | RevokeSponsorshipEntryOp lk \<Rightarrow> protocolVersionStartsFrom v 14
      | RevokeSponsorshipSignerOp i key \<Rightarrow> protocolVersionStartsFrom v 14
      | ClawbackOp a clawFrom n \<Rightarrow> protocolVersionStartsFrom v 17
      | ClawbackClaimableBalanceOp b \<Rightarrow> protocolVersionStartsFrom v 17
      | SetTrustLineFlagsOp trustor a clearFlags setFlags \<Rightarrow> protocolVersionStartsFrom v 17
      | LiquidityPoolDepositOp pool maxAmountA maxAmountB minPrice maxPrice \<Rightarrow>
          protocolVersionStartsFrom v 18 \<and> \<not> isPoolDepositDisabled header
      | LiquidityPoolWithdrawOp pool n minAmountA minAmountB \<Rightarrow>
          protocolVersionStartsFrom v 18 \<and> \<not> isPoolWithdrawalDisabled header
      | _ \<Rightarrow> True)"

datatype threshold_level = LOW | MEDIUM | HIGH

definition SetOptions_getThresholdLevel :: "set_options_op \<Rightarrow> threshold_level" where
  "SetOptions_getThresholdLevel so =
     (if so_masterWeight so \<noteq> None \<or> so_lowThreshold so \<noteq> None \<or> so_medThreshold so \<noteq> None \<or>
         so_highThreshold so \<noteq> None \<or> so_signer so \<noteq> None
      then HIGH else MEDIUM)"

definition getThresholdLevel :: "operation_body \<Rightarrow> threshold_level" where
  "getThresholdLevel body =
     (case body of
        SetOptionsOp so \<Rightarrow> SetOptions_getThresholdLevel so
      | AllowTrustOp trustor code authorize \<Rightarrow> LOW
      | AccountMergeOp destination \<Rightarrow> HIGH
      | InflationOp \<Rightarrow> LOW
      | BumpSequenceOp bumpTo \<Rightarrow> LOW
      | ClaimClaimableBalanceOp b \<Rightarrow> LOW
      | SetTrustLineFlagsOp trustor a clearFlags setFlags \<Rightarrow> LOW
      | _ \<Rightarrow> MEDIUM)"

definition getNeededThreshold :: "account_entry \<Rightarrow> threshold_level \<Rightarrow> int" where
  "getNeededThreshold acc level =
     (case level of
        LOW \<Rightarrow> uint (THRESHOLD_LOW (ae_thresholds acc))
      | MEDIUM \<Rightarrow> uint (THRESHOLD_MED (ae_thresholds acc))
      | HIGH \<Rightarrow> uint (THRESHOLD_HIGH (ae_thresholds acc)))"

end
