(* ===== verification/Tx_Fees.thy ===== *)
theory Tx_Fees
  imports Tx_Types
begin

text \<open>
  The fee of a transaction: \<^verbatim>\<open>getFeeBid\<close>, \<^verbatim>\<open>getMinFee\<close> and \<^verbatim>\<open>getFee\<close> of \<^verbatim>\<open>transactions/TransactionFrame.cpp\<close> and
  \<^verbatim>\<open>transactions/FeeBumpTransactionFrame.cpp\<close>, in the build with \<^verbatim>\<open>_KINESIS\<close>.  The percentage fee is computed with
  numbers of type \<^verbatim>\<open>double\<close>; a \<^verbatim>\<open>double\<close> that is not negative is a fraction of integers, rounded to 53 bits.
  A sum or product of type \<^verbatim>\<open>int64_t\<close> that is out of range is undefined.
\<close>

section \<open>Signed 64-bit and floating-point numbers\<close>

definition i64 :: "int \<Rightarrow> tx_error + int" where
  "i64 x = (if - (2 ^ 63) \<le> x \<and> x \<le> INT64_MAX then Inr x else Inl (Undefined ''signed overflow''))"

function bitlength :: "int \<Rightarrow> nat" where
  "bitlength n = (if n \<le> 0 then 0 else Suc (bitlength (n div 2)))"
  by auto
termination by (relation "measure nat") auto

declare bitlength.simps [simp del]

text \<open>Round to the nearest integer, ties to the even one.\<close>

definition roundHalfEven :: "int \<Rightarrow> int \<Rightarrow> int" where
  "roundHalfEven n d =
     (let q = n div d; r = n mod d in
      if 2 * r < d then q else if d < 2 * r then q + 1 else if even q then q else q + 1)"

text \<open>\<open>n / d\<close> as a \<^verbatim>\<open>double\<close>: a number of 53 bits over or times a power of two.\<close>

definition to_double :: "int \<times> int \<Rightarrow> int \<times> int" where
  "to_double x =
     (let (n, d) = x in
      if n = 0 then (0, 1)
      else let up = 53 + bitlength d - bitlength n; down = bitlength n - (53 + bitlength d);
               n' = n * 2 ^ up; d' = d * 2 ^ down in
        if 2 ^ 53 * d' \<le> n' then (roundHalfEven n' (2 * d') * 2 * 2 ^ down, 2 ^ up)
        else (roundHalfEven n' d' * 2 ^ down, 2 ^ up))"

definition double_mult :: "int \<times> int \<Rightarrow> int \<times> int \<Rightarrow> int \<times> int" where
  "double_mult x y = to_double (fst x * fst y, snd x * snd y)"

definition double_div :: "int \<times> int \<Rightarrow> int \<times> int \<Rightarrow> int \<times> int" where
  "double_div x y = to_double (fst x * snd y, snd x * fst y)"

text \<open>The conversion to an integer cuts off the fraction.\<close>

definition double_trunc :: "int \<times> int \<Rightarrow> int" where
  "double_trunc x = fst x div snd x"

section \<open>Fees\<close>

definition BASIS_POINTS_TO_PERCENT :: int where
  "BASIS_POINTS_TO_PERCENT = 10000"

definition getFeeBid_tx :: "transaction \<Rightarrow> int" where
  "getFeeBid_tx tx = sint (tx_fee tx)"

definition getNumOperations_tx :: "transaction \<Rightarrow> nat" where
  "getNumOperations_tx tx = length (tx_operations tx)"

definition feeAmount :: "operation \<Rightarrow> int" where
  "feeAmount op =
     (case op_body op of
        CreateAccountOp destination startingBalance \<Rightarrow> startingBalance
      | PaymentOp destination a n \<Rightarrow> (if a = ASSET_TYPE_NATIVE then n else 0)
      | _ \<Rightarrow> 0)"

definition totalFeeAmount :: "operation list \<Rightarrow> tx_error + int" where
  "totalFeeAmount ops = foldSeq (\<lambda>op t. i64 (t + feeAmount op)) ops 0"

definition percentageFee :: "uint32 \<Rightarrow> int \<Rightarrow> int" where
  "percentageFee percentage totalAmount =
     (let basePercentageFeeRate = double_div (to_double (uint percentage, 1)) (to_double (BASIS_POINTS_TO_PERCENT, 1)) in
      sgn totalAmount * double_trunc (double_mult (to_double (\<bar>totalAmount\<bar>, 1)) basePercentageFeeRate))"

definition getMinFee_tx :: "ledger_header \<Rightarrow> transaction \<Rightarrow> tx_error + int" where
  "getMinFee_tx header tx =
     (let baseFee = uint (lh_baseFee header) * max 1 (int (getNumOperations_tx tx)) in
      seq (totalFeeAmount (tx_operations tx)) (\<lambda>totalAmount.
        seq (i64 (percentageFee (lh_basePercentageFee header) totalAmount)) (\<lambda>accumulatedBasePercentageFee.
          seq (i64 (baseFee + accumulatedBasePercentageFee)) (\<lambda>totalFee.
            let headerMaxFee = sint (lh_maxFee header) in
            Inr (if totalFee > headerMaxFee then headerMaxFee else totalFee)))))"

definition getFee_tx :: "ledger_header \<Rightarrow> transaction \<Rightarrow> int \<Rightarrow> bool \<Rightarrow> tx_error + int" where
  "getFee_tx header tx baseFee applying =
     (if protocolVersionStartsFrom (lh_ledgerVersion header) 11 \<or> \<not> applying
      then seq (i64 (baseFee * max 1 (int (getNumOperations_tx tx)))) (\<lambda>adjustedFee.
             Inr (if applying then min (getFeeBid_tx tx) adjustedFee else adjustedFee))
      else Inr (getFeeBid_tx tx))"

text \<open>A fee bump counts as one more operation.\<close>

definition inner_tx :: "fee_bump_envelope \<Rightarrow> transaction" where
  "inner_tx env = env_tx (fb_innerTx (fbe_tx env))"

definition getFeeBid_feeBump :: "fee_bump_envelope \<Rightarrow> int" where
  "getFeeBid_feeBump env = fb_fee (fbe_tx env)"

definition getNumOperations_feeBump :: "fee_bump_envelope \<Rightarrow> nat" where
  "getNumOperations_feeBump env = getNumOperations_tx (inner_tx env) + 1"

definition getMinFee_feeBump :: "ledger_header \<Rightarrow> fee_bump_envelope \<Rightarrow> tx_error + int" where
  "getMinFee_feeBump header env =
     seq (getMinFee_tx header (inner_tx env)) (\<lambda>innerTxMinFee. i64 (uint (lh_baseFee header) + innerTxMinFee))"

definition getFee_feeBump :: "fee_bump_envelope \<Rightarrow> int \<Rightarrow> bool \<Rightarrow> tx_error + int" where
  "getFee_feeBump env baseFee applying =
     seq (i64 (baseFee * max 1 (int (getNumOperations_feeBump env)))) (\<lambda>adjustedFee.
       Inr (if applying then min (getFeeBid_feeBump env) adjustedFee else adjustedFee))"

definition getFeeBid :: "tx_frame \<Rightarrow> int" where
  "getFeeBid f = (case f of TransactionFrame e \<Rightarrow> getFeeBid_tx (env_tx e) | FeeBumpTransactionFrame e \<Rightarrow> getFeeBid_feeBump e)"

definition getNumOperations :: "tx_frame \<Rightarrow> nat" where
  "getNumOperations f =
     (case f of TransactionFrame e \<Rightarrow> getNumOperations_tx (env_tx e) | FeeBumpTransactionFrame e \<Rightarrow> getNumOperations_feeBump e)"

definition getMinFee :: "ledger_header \<Rightarrow> tx_frame \<Rightarrow> tx_error + int" where
  "getMinFee header f =
     (case f of TransactionFrame e \<Rightarrow> getMinFee_tx header (env_tx e) | FeeBumpTransactionFrame e \<Rightarrow> getMinFee_feeBump header e)"

definition getFee :: "ledger_header \<Rightarrow> tx_frame \<Rightarrow> int \<Rightarrow> bool \<Rightarrow> tx_error + int" where
  "getFee header f baseFee applying =
     (case f of
        TransactionFrame e \<Rightarrow> getFee_tx header (env_tx e) baseFee applying
      | FeeBumpTransactionFrame e \<Rightarrow> getFee_feeBump e baseFee applying)"

end
