(* ===== verification/Tx_Frame.thy ===== *)
theory Tx_Frame
  imports Tx_Operations Tx_Fees
begin

text \<open>
  Validity of transactions and the charging of fees: \<^verbatim>\<open>checkValid\<close> and \<^verbatim>\<open>processFeeSeqNum\<close> of
  \<^verbatim>\<open>transactions/TransactionFrame.cpp\<close> and \<^verbatim>\<open>transactions/FeeBumpTransactionFrame.cpp\<close>, with
  \<^verbatim>\<open>transactions/OperationFrame.cpp\<close>.  The check of a transaction changes nothing in the ledger: the nested
  \<^verbatim>\<open>LedgerTxn\<close> is rolled back.  So the account that is cached before version 8 is the one in the ledger, and the
  cache is left out.
\<close>

section \<open>Frames\<close>

primrec getSourceID_source :: "tx_source \<Rightarrow> account_id" where
  "getSourceID_source (ENVELOPE_TYPE_TX_V0 key) = key"
| "getSourceID_source (ENVELOPE_TYPE_TX m) = toAccountID m"

definition getSourceID_env :: "tx_envelope \<Rightarrow> account_id" where
  "getSourceID_env env = getSourceID_source (env_source env)"

definition getContentsHash_env :: "crypto \<Rightarrow> tx_envelope \<Rightarrow> hash" where
  "getContentsHash_env cr env = sha256 cr (xdr_tx_payload cr (env_source env) (env_tx env))"

definition getContentsHash_feeBump :: "crypto \<Rightarrow> fee_bump_envelope \<Rightarrow> hash" where
  "getContentsHash_feeBump cr env = sha256 cr (xdr_feeBump_payload cr (fbe_tx env))"

definition getFullHash :: "crypto \<Rightarrow> tx_frame \<Rightarrow> hash" where
  "getFullHash cr f =
     (case f of
        TransactionFrame e \<Rightarrow> sha256 cr (xdr_tx_envelope cr e)
      | FeeBumpTransactionFrame e \<Rightarrow> sha256 cr (xdr_feeBump_envelope cr e))"

definition inner_envelope :: "tx_frame \<Rightarrow> tx_envelope" where
  "inner_envelope f = (case f of TransactionFrame e \<Rightarrow> e | FeeBumpTransactionFrame e \<Rightarrow> fb_innerTx (fbe_tx e))"

definition getSourceID :: "tx_frame \<Rightarrow> account_id" where
  "getSourceID f = getSourceID_env (inner_envelope f)"

definition getSeqNum :: "tx_frame \<Rightarrow> int" where
  "getSeqNum f = tx_seqNum (env_tx (inner_envelope f))"

definition getFeeSourceID :: "tx_frame \<Rightarrow> account_id" where
  "getFeeSourceID f =
     (case f of TransactionFrame e \<Rightarrow> getSourceID_env e | FeeBumpTransactionFrame e \<Rightarrow> toAccountID (fb_feeSource (fbe_tx e)))"

section \<open>Signatures of accounts\<close>

definition account_signers :: "account_entry \<Rightarrow> signer list" where
  "account_signers acc =
     (if THRESHOLD_MASTER_WEIGHT (ae_thresholds acc) \<noteq> 0
      then \<lparr>signer_key = SIGNER_KEY_TYPE_ED25519 (ae_accountID acc),
            signer_weight = ucast (THRESHOLD_MASTER_WEIGHT (ae_thresholds acc))\<rparr> # ae_signers acc
      else ae_signers acc)"

definition checkSignature :: "crypto \<Rightarrow> signature_checker \<Rightarrow> account_entry \<Rightarrow> int \<Rightarrow> bool \<times> signature_checker" where
  "checkSignature cr sc acc neededWeight = SignatureChecker_checkSignature cr sc (account_signers acc) neededWeight"

definition checkSignatureNoAccount :: "crypto \<Rightarrow> signature_checker \<Rightarrow> account_id \<Rightarrow> bool \<times> signature_checker" where
  "checkSignatureNoAccount cr sc i =
     SignatureChecker_checkSignature cr sc [\<lparr>signer_key = SIGNER_KEY_TYPE_ED25519 i, signer_weight = 1\<rparr>] 0"

section \<open>Operations\<close>

definition op_getSourceID :: "tx_envelope \<Rightarrow> operation \<Rightarrow> account_id" where
  "op_getSourceID env op = (case op_sourceAccount op of Some m \<Rightarrow> toAccountID m | None \<Rightarrow> getSourceID_env env)"

definition op_checkSignature ::
  "crypto \<Rightarrow> ledger_state \<Rightarrow> tx_envelope \<Rightarrow> operation \<Rightarrow> bool \<Rightarrow> signature_checker \<Rightarrow> op_result \<times> signature_checker" where
  "op_checkSignature cr ls env op forApply sc =
     (case loadAccount ls (op_getSourceID env op) of
        Some (le, acc) \<Rightarrow>
          let (ok, sc') = checkSignature cr sc acc (getNeededThreshold acc (getThresholdLevel (op_body op))) in
          (if ok then opINNER_SUCCESS else opBAD_AUTH, sc')
      | None \<Rightarrow>
          case op_sourceAccount op of
            None \<Rightarrow> (opNO_ACCOUNT, sc)
          | Some m \<Rightarrow>
              if forApply then (opNO_ACCOUNT, sc)
              else let (ok, sc') = checkSignatureNoAccount cr sc (toAccountID m) in
                (if ok then opINNER_SUCCESS else opBAD_AUTH, sc'))"

definition op_checkValid ::
  "crypto \<Rightarrow> ledger_state \<Rightarrow> tx_envelope \<Rightarrow> operation \<Rightarrow> bool \<Rightarrow> signature_checker \<Rightarrow>
    tx_error + (op_result \<times> signature_checker)" where
  "op_checkValid cr ls env op forApply sc =
     (let v = lh_ledgerVersion (ls_header ls) in
      if \<not> isOpSupported (op_body op) (ls_header ls) then Inr (opNOT_SUPPORTED, sc)
      else let (res, sc') =
             (if \<not> forApply \<or> protocolVersionIsBefore v 10 then op_checkSignature cr ls env op forApply sc
              else case loadAccount ls (op_getSourceID env op) of
                     None \<Rightarrow> (opNO_ACCOUNT, sc)
                   | Some a \<Rightarrow> (opINNER_SUCCESS, sc)) in
        if res \<noteq> opINNER_SUCCESS then Inr (res, sc')
        else seq (doCheckValid (op_getSourceID env op) v (op_body op)) (\<lambda>r. Inr (r, sc')))"

section \<open>Transactions\<close>

record tx_result =
  tr_feeCharged :: int
  tr_code :: tx_result_code
  tr_results :: "op_result list"

definition resetResults_tx :: "ledger_header \<Rightarrow> tx_envelope \<Rightarrow> int \<Rightarrow> bool \<Rightarrow> tx_error + tx_result" where
  "resetResults_tx header env baseFee applying =
     seq (getFee_tx header (env_tx env) baseFee applying) (\<lambda>fee.
       Inr \<lparr>tr_feeCharged = fee, tr_code = txSUCCESS,
            tr_results = replicate (length (tx_operations (env_tx env))) opINNER_SUCCESS\<rparr>)"

definition isTooEarly :: "ledger_header \<Rightarrow> transaction \<Rightarrow> uint64 \<Rightarrow> bool" where
  "isTooEarly header tx lowerBoundCloseTimeOffset =
     (case tx_timeBounds tx of
        None \<Rightarrow> False
      | Some tb \<Rightarrow> minTime tb \<noteq> 0 \<and> minTime tb > sv_closeTime (lh_scpValue header) + lowerBoundCloseTimeOffset)"

definition isTooLate :: "ledger_header \<Rightarrow> transaction \<Rightarrow> uint64 \<Rightarrow> bool" where
  "isTooLate header tx upperBoundCloseTimeOffset =
     (case tx_timeBounds tx of
        None \<Rightarrow> False
      | Some tb \<Rightarrow> maxTime tb \<noteq> 0 \<and> maxTime tb < sv_closeTime (lh_scpValue header) + upperBoundCloseTimeOffset)"

primrec isMuxed :: "muxed_account \<Rightarrow> bool" where
  "isMuxed (KEY_TYPE_ED25519 key) = False"
| "isMuxed (KEY_TYPE_MUXED_ED25519 i key) = True"

definition body_hasMuxedAccount :: "operation_body \<Rightarrow> bool" where
  "body_hasMuxedAccount body =
     (case body of
        PaymentOp destination a n \<Rightarrow> isMuxed destination
      | PathPaymentStrictReceiveOp sendAsset sendMax destination destAsset destAmount path \<Rightarrow> isMuxed destination
      | PathPaymentStrictSendOp sendAsset sendAmount destination destAsset destMin path \<Rightarrow> isMuxed destination
      | AccountMergeOp destination \<Rightarrow> isMuxed destination
      | ClawbackOp a clawFrom n \<Rightarrow> isMuxed clawFrom
      | _ \<Rightarrow> False)"

definition hasMuxedAccount :: "tx_envelope \<Rightarrow> bool" where
  "hasMuxedAccount env \<longleftrightarrow>
     (case env_source env of ENVELOPE_TYPE_TX_V0 key \<Rightarrow> False | ENVELOPE_TYPE_TX m \<Rightarrow> isMuxed m) \<or>
     list_ex (\<lambda>op. (case op_sourceAccount op of None \<Rightarrow> False | Some m \<Rightarrow> isMuxed m) \<or> body_hasMuxedAccount (op_body op))
       (tx_operations (env_tx env))"

primrec isV0 :: "tx_source \<Rightarrow> bool" where
  "isV0 (ENVELOPE_TYPE_TX_V0 key) = True"
| "isV0 (ENVELOPE_TYPE_TX m) = False"

text \<open>The code that was set, or \<^const>\<open>txSUCCESS\<close> for the value \<^verbatim>\<open>true\<close>.\<close>

definition commonValidPreSeqNum :: "ledger_state \<Rightarrow> tx_envelope \<Rightarrow> bool \<Rightarrow> uint64 \<Rightarrow> uint64 \<Rightarrow> tx_error + tx_result_code" where
  "commonValidPreSeqNum ls env chargeFee lowerOffset upperOffset =
     (let header = ls_header ls; tx = env_tx env; v = lh_ledgerVersion header in
      if (protocolVersionIsBefore v 13 \<and> (\<not> isV0 (env_source env) \<or> hasMuxedAccount env)) \<or>
         (protocolVersionStartsFrom v 13 \<and> isV0 (env_source env))
      then Inr txNOT_SUPPORTED
      else if getNumOperations_tx tx = 0 then Inr txMISSING_OPERATION
      else if isTooEarly header tx lowerOffset then Inr txTOO_EARLY
      else if isTooLate header tx upperOffset then Inr txTOO_LATE
      else seq (if chargeFee then seq (getMinFee_tx header tx) (\<lambda>m. Inr (getFeeBid_tx tx < m)) else Inr (getFeeBid_tx tx < 0))
        (\<lambda>insufficient.
           if insufficient then Inr txINSUFFICIENT_FEE
           else if loadAccount ls (getSourceID_env env) = None then Inr txNO_ACCOUNT
           else Inr txSUCCESS))"

definition isBadSeq :: "ledger_header \<Rightarrow> transaction \<Rightarrow> int \<Rightarrow> tx_error + bool" where
  "isBadSeq header tx seqNum =
     (if seqNum = INT64_MAX \<or> seqNum + 1 \<noteq> tx_seqNum tx then Inr True
      else seq (getStartingSequenceNumber (lh_ledgerSeq header)) (\<lambda>s. Inr (tx_seqNum tx = s)))"

datatype validation_type = kInvalid | kInvalidUpdateSeqNum | kInvalidPostAuth | kMaybeValid

text \<open>\<^verbatim>\<open>feeToPay\<close> is the fee bid converted to 32 bits.\<close>

definition feeToPay :: "ledger_header \<Rightarrow> transaction \<Rightarrow> bool \<Rightarrow> int" where
  "feeToPay header tx applying =
     (if applying \<and> protocolVersionStartsFrom (lh_ledgerVersion header) 9 then 0 else uint (ucast (tx_fee tx) :: uint32))"

definition commonValid ::
  "crypto \<Rightarrow> ledger_state \<Rightarrow> tx_envelope \<Rightarrow> int \<Rightarrow> bool \<Rightarrow> bool \<Rightarrow> uint64 \<Rightarrow> uint64 \<Rightarrow> signature_checker \<Rightarrow>
    tx_error + (validation_type \<times> tx_result_code \<times> signature_checker)" where
  "commonValid cr ls env current applying chargeFee lowerOffset upperOffset sc =
     (let header = ls_header ls; tx = env_tx env in
      if applying \<and> (lowerOffset \<noteq> 0 \<or> upperOffset \<noteq> 0)
      then Inl (RuntimeError ''Applying transaction with non-current closeTime'')
      else seq (commonValidPreSeqNum ls env chargeFee lowerOffset upperOffset) (\<lambda>code.
        if code \<noteq> txSUCCESS then Inr (kInvalid, code, sc)
        else case loadAccount ls (getSourceID_env env) of
          None \<Rightarrow> Inr (kInvalid, txNO_ACCOUNT, sc)
        | Some (le, acc) \<Rightarrow>
            seq (if protocolVersionStartsFrom (lh_ledgerVersion header) 10 \<or> \<not> applying
                 then isBadSeq header tx (if current = 0 then ae_seqNum acc else current) else Inr False) (\<lambda>bad.
              if bad then Inr (kInvalid, txBAD_SEQ, sc)
              else let (ok, sc') = checkSignature cr sc acc (uint (THRESHOLD_LOW (ae_thresholds acc))) in
                if \<not> ok then Inr (kInvalidUpdateSeqNum, txBAD_AUTH, sc')
                else seq (if chargeFee then seq (getAvailableBalance header le) (\<lambda>b. Inr (b < feeToPay header tx applying))
                          else Inr False) (\<lambda>short.
                  if short then Inr (kInvalidPostAuth, txINSUFFICIENT_BALANCE, sc')
                  else Inr (kMaybeValid, txSUCCESS, sc')))))"

fun checkOps ::
  "crypto \<Rightarrow> ledger_state \<Rightarrow> tx_envelope \<Rightarrow> operation list \<Rightarrow> nat \<Rightarrow> tx_result \<Rightarrow> signature_checker \<Rightarrow>
    tx_error + (bool \<times> tx_result \<times> signature_checker)" where
  "checkOps cr ls env [] i res sc = Inr (True, res, sc)"
| "checkOps cr ls env (op # ops) i res sc =
     seq (op_checkValid cr ls env op False sc) (\<lambda>(r, sc').
       let res' = res\<lparr>tr_results := (tr_results res)[i := r]\<rparr> in
       if r \<noteq> opINNER_SUCCESS then Inr (False, res'\<lparr>tr_code := txFAILED\<rparr>, sc')
       else checkOps cr ls env ops (Suc i) res' sc')"

definition checkValid_tx ::
  "crypto \<Rightarrow> ledger_state \<Rightarrow> tx_envelope \<Rightarrow> int \<Rightarrow> bool \<Rightarrow> uint64 \<Rightarrow> uint64 \<Rightarrow> tx_error + (bool \<times> tx_result)" where
  "checkValid_tx cr ls env current chargeFee lowerOffset upperOffset =
     (let header = ls_header ls; minBaseFee = (if chargeFee then uint (lh_baseFee header) else 0) in
      seq (resetResults_tx header env minBaseFee False) (\<lambda>res.
        seq (commonValid cr ls env current False chargeFee lowerOffset upperOffset
               (new_SignatureChecker (lh_ledgerVersion header) (getContentsHash_env cr env) (env_signatures env)))
          (\<lambda>(cv, code, sc).
             if cv \<noteq> kMaybeValid then Inr (False, res\<lparr>tr_code := code\<rparr>)
             else seq (checkOps cr ls env (tx_operations (env_tx env)) 0 res sc) (\<lambda>(ok, res', sc').
               if \<not> ok then Inr (False, res')
               else if \<not> checkAllSignaturesUsed sc' then Inr (False, res'\<lparr>tr_code := txBAD_AUTH_EXTRA\<rparr>)
               else Inr (True, res')))))"

section \<open>Fee-bump transactions\<close>

text \<open>The result code and the fee, which the second check on the fee sets to the least fee that would do.\<close>

definition commonValidPreSeqNum_feeBump :: "ledger_state \<Rightarrow> fee_bump_envelope \<Rightarrow> int \<Rightarrow> tx_error + (tx_result_code \<times> int)" where
  "commonValidPreSeqNum_feeBump ls env fee =
     (let header = ls_header ls in
      if protocolVersionIsBefore (lh_ledgerVersion header) 13 then Inr (txNOT_SUPPORTED, fee)
      else seq (getMinFee_feeBump header env) (\<lambda>minFee.
        if getFeeBid_feeBump env < minFee then Inr (txINSUFFICIENT_FEE, fee)
        else seq (getMinFee_tx header (inner_tx env)) (\<lambda>innerMinFee.
          seq (num (bigMultiply (getFeeBid_feeBump env) innerMinFee)) (\<lambda>v1.
            seq (num (bigMultiply (getFeeBid_tx (inner_tx env)) minFee)) (\<lambda>v2.
              if v1 < v2
              then seq (num (bigDivide128 fee v2 innerMinFee ROUND_UP)) (\<lambda>(ok, needed).
                     Inr (txINSUFFICIENT_FEE, if ok then needed else INT64_MAX))
              else if loadAccount ls (toAccountID (fb_feeSource (fbe_tx env))) = None then Inr (txNO_ACCOUNT, fee)
              else Inr (txSUCCESS, fee))))))"

definition commonValid_feeBump ::
  "crypto \<Rightarrow> ledger_state \<Rightarrow> fee_bump_envelope \<Rightarrow> bool \<Rightarrow> int \<Rightarrow> signature_checker \<Rightarrow>
    tx_error + (tx_result_code \<times> int \<times> signature_checker)" where
  "commonValid_feeBump cr ls env applying fee sc =
     seq (commonValidPreSeqNum_feeBump ls env fee) (\<lambda>(code, fee').
       if code \<noteq> txSUCCESS then Inr (code, fee', sc)
       else case loadAccount ls (toAccountID (fb_feeSource (fbe_tx env))) of
         None \<Rightarrow> Inr (txNO_ACCOUNT, fee', sc)
       | Some (le, acc) \<Rightarrow>
           let (ok, sc') = checkSignature cr sc acc (uint (THRESHOLD_LOW (ae_thresholds acc))) in
           if \<not> ok then Inr (txBAD_AUTH, fee', sc')
           else seq (getAvailableBalance (ls_header ls) le) (\<lambda>b.
             if b < (if applying then 0 else getFeeBid_feeBump env) then Inr (txINSUFFICIENT_BALANCE, fee', sc')
             else Inr (txSUCCESS, fee', sc')))"

text \<open>The result of the inner transaction is kept beside that of the fee bump.\<close>

definition checkValid_feeBump ::
  "crypto \<Rightarrow> ledger_state \<Rightarrow> fee_bump_envelope \<Rightarrow> int \<Rightarrow> uint64 \<Rightarrow> uint64 \<Rightarrow> tx_error + (bool \<times> tx_result \<times> tx_result)" where
  "checkValid_feeBump cr ls env current lowerOffset upperOffset =
     (let header = ls_header ls; inner = fb_innerTx (fbe_tx env) in
      seq (resetResults_tx header inner (uint (lh_baseFee header)) False) (\<lambda>innerRes.
        seq (getFee_feeBump env (uint (lh_baseFee header)) False) (\<lambda>fee.
          let outer = (\<lambda>code fee. \<lparr>tr_feeCharged = fee, tr_code = code, tr_results = []\<rparr>) in
          seq (commonValid_feeBump cr ls env False fee
                 (new_SignatureChecker (lh_ledgerVersion header) (getContentsHash_feeBump cr env) (fbe_signatures env)))
            (\<lambda>(code, fee', sc).
               if code \<noteq> txSUCCESS then Inr (False, outer code fee', innerRes)
               else if \<not> checkAllSignaturesUsed sc then Inr (False, outer txBAD_AUTH_EXTRA fee', innerRes)
               else seq (checkValid_tx cr ls inner current False lowerOffset upperOffset) (\<lambda>(ok, innerRes').
                 Inr (ok, outer (if tr_code innerRes' = txSUCCESS then txFEE_BUMP_INNER_SUCCESS else txFEE_BUMP_INNER_FAILED) fee',
                      innerRes'))))))"

definition tx_checkValid :: "crypto \<Rightarrow> ledger_state \<Rightarrow> tx_frame \<Rightarrow> int \<Rightarrow> uint64 \<Rightarrow> uint64 \<Rightarrow> tx_error + bool" where
  "tx_checkValid cr ls f current lowerOffset upperOffset =
     (case f of
        TransactionFrame e \<Rightarrow> seq (checkValid_tx cr ls e current True lowerOffset upperOffset) (\<lambda>(ok, res). Inr ok)
      | FeeBumpTransactionFrame e \<Rightarrow> seq (checkValid_feeBump cr ls e current lowerOffset upperOffset) (\<lambda>(ok, res, inner). Inr ok))"

section \<open>Charging the fee\<close>

text \<open>The fee that is charged is at most the balance; the rest of the check is left to the application.\<close>

definition takeFee :: "account_entry \<Rightarrow> ledger_header \<Rightarrow> int \<Rightarrow> tx_error + (account_entry \<times> ledger_header \<times> int)" where
  "takeFee acc header fee =
     (if fee > 0
      then let fee' = min (ae_balance acc) fee in
        seq (addToBalance (ae_balance acc) (- fee') INT64_MAX) (\<lambda>(ok, balance).
          seq (i64 (lh_feePool header + fee')) (\<lambda>feePool.
            Inr (acc\<lparr>ae_balance := balance\<rparr>, header\<lparr>lh_feePool := feePool\<rparr>, fee')))
      else Inr (acc, header, fee))"

definition putAccount :: "ledger_state \<Rightarrow> ledger_entry \<Rightarrow> account_entry \<Rightarrow> ledger_header \<Rightarrow> account_id \<Rightarrow> ledger_state" where
  "putAccount ls le acc header i =
     ls\<lparr>ls_header := header, ls_entries := (ls_entries ls)(ACCOUNT_KEY i \<mapsto> le\<lparr>le_data := ACCOUNT acc\<rparr>)\<rparr>"

definition processFeeSeqNum_tx :: "ledger_state \<Rightarrow> tx_envelope \<Rightarrow> int \<Rightarrow> tx_error + (ledger_state \<times> int)" where
  "processFeeSeqNum_tx ls env baseFee =
     seq (resetResults_tx (ls_header ls) env baseFee True) (\<lambda>res.
       case loadAccount ls (getSourceID_env env) of
         None \<Rightarrow> Inl (RuntimeError ''Unexpected database state'')
       | Some (le, acc) \<Rightarrow>
           seq (takeFee acc (ls_header ls) (tr_feeCharged res)) (\<lambda>(acc', header', fee).
             if protocolVersionIsBefore (lh_ledgerVersion header') 10
             then if ae_seqNum acc' + 1 \<noteq> tx_seqNum (env_tx env) then Inl (RuntimeError ''Unexpected account state'')
               else Inr (putAccount ls le (acc'\<lparr>ae_seqNum := tx_seqNum (env_tx env)\<rparr>) header' (getSourceID_env env), fee)
             else Inr (putAccount ls le acc' header' (getSourceID_env env), fee)))"

definition processFeeSeqNum_feeBump :: "ledger_state \<Rightarrow> fee_bump_envelope \<Rightarrow> int \<Rightarrow> tx_error + (ledger_state \<times> int)" where
  "processFeeSeqNum_feeBump ls env baseFee =
     seq (resetResults_tx (ls_header ls) (fb_innerTx (fbe_tx env)) baseFee True) (\<lambda>innerRes.
       seq (getFee_feeBump env baseFee True) (\<lambda>fee.
         let i = toAccountID (fb_feeSource (fbe_tx env)) in
         case loadAccount ls i of
           None \<Rightarrow> Inl (RuntimeError ''Unexpected database state'')
         | Some (le, acc) \<Rightarrow>
             seq (takeFee acc (ls_header ls) fee) (\<lambda>(acc', header', fee'). Inr (putAccount ls le acc' header' i, fee'))))"

definition processFeeSeqNum :: "ledger_state \<Rightarrow> tx_frame \<Rightarrow> int \<Rightarrow> tx_error + (ledger_state \<times> int)" where
  "processFeeSeqNum ls f baseFee =
     (case f of
        TransactionFrame e \<Rightarrow> processFeeSeqNum_tx ls e baseFee
      | FeeBumpTransactionFrame e \<Rightarrow> processFeeSeqNum_feeBump ls e baseFee)"

text \<open>\<^verbatim>\<open>LedgerManagerImpl::processFeesSeqNums\<close>: the fees of all transactions of a set, in the given order.\<close>

definition processFeesSeqNums :: "ledger_state \<Rightarrow> tx_frame list \<Rightarrow> int \<Rightarrow> tx_error + ledger_state" where
  "processFeesSeqNums ls txs baseFee =
     foldSeq (\<lambda>f s. seq (processFeeSeqNum s f baseFee) (\<lambda>(s', fee). Inr s')) txs ls"

end
