(* ===== verification/Tx_Set.thy ===== *)
theory Tx_Set
  imports Tx_Frame "HOL-Library.Multiset"
begin

unbundle bit_operations_syntax

text \<open>
  Transaction sets (\<^verbatim>\<open>herder/TxSetFrame.cpp\<close>, \<^verbatim>\<open>herder/SurgePricingUtils.cpp\<close>).  The order in which an unordered map
  is iterated is not specified: it is the parameter \<open>order\<close>, a permutation of the queues.  \<^verbatim>\<open>std::sort\<close> is a stable sort
  by key; a hash is ordered as the number its bytes form.
\<close>

section \<open>Definitions\<close>

definition MAX_OPS_PER_TX :: nat where
  "MAX_OPS_PER_TX = 100"

record tx_set_frame =
  mTransactions :: "tx_frame list"
  mPreviousLedgerHash :: hash
  mHash :: "hash option"
  mValid :: "(hash \<times> bool) option"

definition new_TxSetFrame :: "hash \<Rightarrow> tx_frame list \<Rightarrow> tx_set_frame" where
  "new_TxSetFrame previousLedgerHash txs =
     \<lparr>mTransactions = txs, mPreviousLedgerHash = previousLedgerHash, mHash = None, mValid = None\<rparr>"

definition sortForHash :: "crypto \<Rightarrow> tx_set_frame \<Rightarrow> tx_set_frame" where
  "sortForHash cr ts = ts\<lparr>mTransactions := sort_key (getFullHash cr) (mTransactions ts), mHash := None, mValid := None\<rparr>"

definition hashBytes :: "hash \<Rightarrow> opaque" where
  "hashBytes h = map (\<lambda>i. ucast (drop_bit (8 * (31 - i)) h)) [0..<32]"

definition xdr_frame :: "crypto \<Rightarrow> tx_frame \<Rightarrow> opaque" where
  "xdr_frame cr f = (case f of TransactionFrame e \<Rightarrow> xdr_tx_envelope cr e | FeeBumpTransactionFrame e \<Rightarrow> xdr_feeBump_envelope cr e)"

definition getContentsHash :: "crypto \<Rightarrow> tx_set_frame \<Rightarrow> hash \<times> tx_set_frame" where
  "getContentsHash cr ts =
     (case mHash ts of
        Some h \<Rightarrow> (h, ts)
      | None \<Rightarrow>
          let ts' = sortForHash cr ts;
              h = sha256 cr (hashBytes (mPreviousLedgerHash ts') @ concat (map (xdr_frame cr) (mTransactions ts')))
          in (h, ts'\<lparr>mHash := Some h\<rparr>))"

subsection \<open>Queues by account\<close>

text \<open>The map from accounts to their transactions, in order of the first transaction of the account.\<close>

definition enqueueTx :: "tx_frame \<Rightarrow> (account_id \<times> tx_frame list) list \<Rightarrow> (account_id \<times> tx_frame list) list" where
  "enqueueTx tx m =
     (let i = getSourceID tx in
      if i \<in> fst ` set m then map (\<lambda>(j, q). if j = i then (j, q @ [tx]) else (j, q)) m else m @ [(i, [tx])])"

definition buildAccountTxQueues :: "tx_set_frame \<Rightarrow> (account_id \<times> tx_frame list) list" where
  "buildAccountTxQueues ts = map (\<lambda>(i, q). (i, sort_key getSeqNum q)) (fold enqueueTx (mTransactions ts) [])"

subsection \<open>The order of application\<close>

text \<open>The \<open>i\<close>-th batch has the \<open>i\<close>-th transaction of each account.\<close>

lemma txBatches_decreases:
  "qs \<noteq> [] \<Longrightarrow> sum_list (map (Suc \<circ> length) (filter (\<lambda>q. q \<noteq> []) (map tl qs))) < sum_list (map (Suc \<circ> length) qs)"
proof (induction qs)
  case (Cons q qs)
  then show ?case by (cases q; cases "qs = []") auto
qed simp

function txBatches :: "tx_frame list list \<Rightarrow> tx_frame list list" where
  "txBatches qs = (if qs = [] then [] else map hd qs # txBatches (filter (\<lambda>q. q \<noteq> []) (map tl qs)))"
  by auto
termination
  by (relation "measure (\<lambda>qs. sum_list (map (Suc \<circ> length) qs))") (use txBatches_decreases in auto)

declare txBatches.simps [simp del]

definition sortForApply ::
  "crypto \<Rightarrow> (tx_frame list list \<Rightarrow> tx_frame list list) \<Rightarrow> tx_set_frame \<Rightarrow> tx_frame list \<times> tx_set_frame" where
  "sortForApply cr order ts =
     (let txQueues = order (map snd (buildAccountTxQueues ts)); (h, ts') = getContentsHash cr ts in
      (concat (map (sort_key (\<lambda>tx. getFullHash cr tx XOR h)) (txBatches txQueues)), ts'))"

subsection \<open>Surge pricing\<close>

definition feeRate3WayCompare :: "tx_frame \<Rightarrow> tx_frame \<Rightarrow> tx_error + int" where
  "feeRate3WayCompare l r =
     seq (num (bigMultiply (getFeeBid l) (int (getNumOperations r)))) (\<lambda>v1.
       seq (num (bigMultiply (getFeeBid r) (int (getNumOperations l)))) (\<lambda>v2.
         Inr (if v1 < v2 then -1 else if v1 > v2 then 1 else 0)))"

definition lessThanXored :: "hash \<Rightarrow> hash \<Rightarrow> hash \<Rightarrow> bool" where
  "lessThanXored l r x = (x XOR l < x XOR r)"

definition surgeLess :: "crypto \<Rightarrow> hash \<Rightarrow> tx_frame list \<Rightarrow> tx_frame list \<Rightarrow> tx_error + bool" where
  "surgeLess cr seed q1 q2 =
     (case q1 of
        [] \<Rightarrow> Inr (q2 \<noteq> [])
      | top1 # _ \<Rightarrow>
          case q2 of
            [] \<Rightarrow> Inr False
          | top2 # _ \<Rightarrow>
              seq (feeRate3WayCompare top1 top2) (\<lambda>cmp3.
                Inr (if cmp3 \<noteq> 0 then cmp3 < 0
                     else lessThanXored (getFullHash cr top1) (getFullHash cr top2) seed)))"

text \<open>The greatest queue of a priority queue, and the others.\<close>

fun popTop :: "crypto \<Rightarrow> hash \<Rightarrow> tx_frame list \<Rightarrow> tx_frame list list \<Rightarrow> tx_error + (tx_frame list \<times> tx_frame list list)" where
  "popTop cr seed q [] = Inr (q, [])"
| "popTop cr seed q (p # ps) =
     seq (surgeLess cr seed q p) (\<lambda>less.
       seq (popTop cr seed (if less then p else q) ps) (\<lambda>(top, rest).
         Inr (top, (if less then q else p) # rest)))"

lemma popTop_mset: "popTop cr seed q ps = Inr (best, rest) \<Longrightarrow> mset (best # rest) = mset (q # ps)"
proof (induction ps arbitrary: q rest)
  case (Cons p ps)
  then show ?case by (cases "surgeLess cr seed q p") (auto simp: seq_def split: sum.splits prod.splits if_splits)
qed simp

lemma popTop_size: "popTop cr seed q ps = Inr (best, rest) \<Longrightarrow>
  sum_list (map (Suc \<circ> length) (best # rest)) = sum_list (map (Suc \<circ> length) (q # ps))"
  using popTop_mset [of cr seed q ps best rest] by (metis mset_map sum_mset_sum_list)

function (sequential) surgeLoop ::
  "crypto \<Rightarrow> hash \<Rightarrow> bool \<Rightarrow> nat \<Rightarrow> tx_frame list list \<Rightarrow> tx_error + tx_frame list" where
  "surgeLoop cr seed maxIsOps opsLeft [] = Inr []"
| "surgeLoop cr seed maxIsOps opsLeft (q # qs) =
     (if opsLeft = 0 then Inr []
      else seq (popTop cr seed q qs) (\<lambda>(cur, rest).
        case cur of
          [] \<Rightarrow> Inl (RuntimeError ''front of an empty queue'')
        | tx # cur' \<Rightarrow>
            let opsCount = (if maxIsOps then getNumOperations tx else MAX_OPS_PER_TX) in
            if opsCount \<le> opsLeft
            then seq (surgeLoop cr seed maxIsOps (opsLeft - opsCount) (if cur' = [] then rest else cur' # rest))
                   (\<lambda>updated. Inr (tx # updated))
            else surgeLoop cr seed maxIsOps opsLeft rest))"
  by pat_completeness auto

termination
  by (relation "measure (\<lambda>(cr, seed, m, n, qs). sum_list (map (Suc \<circ> length) qs))")
     (auto dest!: popTop_size)

definition sizeOp :: "tx_set_frame \<Rightarrow> nat" where
  "sizeOp ts = sum_list (map getNumOperations (mTransactions ts))"

definition sizeTx :: "tx_set_frame \<Rightarrow> nat" where
  "sizeTx ts = length (mTransactions ts)"

definition txSet_size :: "ledger_header \<Rightarrow> tx_set_frame \<Rightarrow> nat" where
  "txSet_size lh ts = (if protocolVersionStartsFrom (lh_ledgerVersion lh) 11 then sizeOp ts else sizeTx ts)"

text \<open>\<^verbatim>\<open>LedgerManagerImpl::getLastMaxTxSetSizeOps\<close>; the product is one of 32-bit numbers.\<close>

definition getLastMaxTxSetSizeOps :: "ledger_header \<Rightarrow> nat" where
  "getLastMaxTxSetSizeOps lh =
     (if protocolVersionStartsFrom (lh_ledgerVersion lh) 11 then unat (lh_maxTxSetSize lh)
      else unat (lh_maxTxSetSize lh * of_nat MAX_OPS_PER_TX))"

definition surgePricingFilter ::
  "crypto \<Rightarrow> (tx_frame list list \<Rightarrow> tx_frame list list) \<Rightarrow> hash \<Rightarrow> ledger_header \<Rightarrow> tx_set_frame \<Rightarrow> tx_error + tx_set_frame" where
  "surgePricingFilter cr order seed header ts =
     (let maxIsOps = protocolVersionStartsFrom (lh_ledgerVersion header) 11;
          opsLeft = getLastMaxTxSetSizeOps header;
          curSizeOps = (if maxIsOps then sizeOp ts else sizeTx ts * MAX_OPS_PER_TX) in
      if curSizeOps > opsLeft
      then seq (surgeLoop cr seed maxIsOps opsLeft (order (map snd (buildAccountTxQueues ts)))) (\<lambda>updatedSet.
             Inr (sortForHash cr (ts\<lparr>mTransactions := updatedSet\<rparr>)))
      else Inr ts)"

subsection \<open>Validity\<close>

type_synonym fee_map = "account_id \<Rightarrow> int"

definition addFee :: "tx_frame \<Rightarrow> fee_map \<Rightarrow> fee_map" where
  "addFee tx fees =
     (let i = getFeeSourceID tx; accFee = fees i in
      fees(i := (if INT64_MAX - accFee < getFeeBid tx then INT64_MAX else accFee + getFeeBid tx)))"

text \<open>The first loop over the queue of an account: whether to go on, what is kept, what is trimmed, and the fees.\<close>

fun accountLoop ::
  "(tx_frame \<Rightarrow> int \<Rightarrow> tx_error + bool) \<Rightarrow> bool \<Rightarrow> tx_frame list \<Rightarrow> int \<Rightarrow> fee_map \<Rightarrow>
    tx_error + (bool \<times> tx_frame list \<times> tx_frame list \<times> fee_map)" where
  "accountLoop valid justCheck [] lastSeq fees = Inr (True, [], [], fees)"
| "accountLoop valid justCheck (tx # q) lastSeq fees =
     seq (valid tx lastSeq) (\<lambda>ok.
       if \<not> ok
       then if justCheck then Inr (False, tx # q, [], fees)
         else seq (accountLoop valid justCheck q lastSeq fees) (\<lambda>(b, kept, trimmed, fees'). Inr (b, kept, tx # trimmed, fees'))
       else seq (accountLoop valid justCheck q (getSeqNum tx) (addFee tx fees)) (\<lambda>(b, kept, trimmed, fees').
         Inr (b, tx # kept, trimmed, fees')))"

fun accountsLoop ::
  "(tx_frame \<Rightarrow> int \<Rightarrow> tx_error + bool) \<Rightarrow> bool \<Rightarrow> tx_frame list list \<Rightarrow> fee_map \<Rightarrow>
    tx_error + (bool \<times> tx_frame list list \<times> tx_frame list \<times> fee_map)" where
  "accountsLoop valid justCheck [] fees = Inr (True, [], [], fees)"
| "accountsLoop valid justCheck (q # qs) fees =
     seq (accountLoop valid justCheck q 0 fees) (\<lambda>(b, kept, trimmed, fees').
       if \<not> b then Inr (False, kept # qs, trimmed, fees')
       else seq (accountsLoop valid justCheck qs fees') (\<lambda>(b', qs', trimmed', fees'').
         Inr (b', kept # qs', trimmed @ trimmed', fees'')))"

definition canPayFees :: "ledger_state \<Rightarrow> fee_map \<Rightarrow> tx_frame \<Rightarrow> tx_error + bool" where
  "canPayFees ls fees tx =
     (case loadAccount ls (getFeeSourceID tx) of
        None \<Rightarrow> Inl (RuntimeError ''LedgerTxnEntry not active'')
      | Some (le, acc) \<Rightarrow> seq (getAvailableBalance (ls_header ls) le) (\<lambda>b. Inr (\<not> b < fees (getFeeSourceID tx))))"

text \<open>The second loop trims an account from the first transaction on whose fees cannot be paid.\<close>

fun feeLoop ::
  "(tx_frame \<Rightarrow> tx_error + bool) \<Rightarrow> bool \<Rightarrow> tx_frame list \<Rightarrow> tx_error + (bool \<times> tx_frame list)" where
  "feeLoop pays justCheck [] = Inr (True, [])"
| "feeLoop pays justCheck (tx # q) =
     seq (pays tx) (\<lambda>ok.
       if \<not> ok then if justCheck then Inr (False, []) else Inr (True, tx # q)
       else feeLoop pays justCheck q)"

fun feesLoop ::
  "(tx_frame \<Rightarrow> tx_error + bool) \<Rightarrow> bool \<Rightarrow> tx_frame list list \<Rightarrow> tx_error + (bool \<times> tx_frame list)" where
  "feesLoop pays justCheck [] = Inr (True, [])"
| "feesLoop pays justCheck (q # qs) =
     seq (feeLoop pays justCheck q) (\<lambda>(b, trimmed).
       if \<not> b then Inr (False, trimmed)
       else seq (feesLoop pays justCheck qs) (\<lambda>(b', trimmed'). Inr (b', trimmed @ trimmed')))"

definition removeTx :: "tx_frame \<Rightarrow> tx_set_frame \<Rightarrow> tx_set_frame" where
  "removeTx tx ts = ts\<lparr>mTransactions := remove1 tx (mTransactions ts), mHash := None, mValid := None\<rparr>"

definition checkOrTrim ::
  "crypto \<Rightarrow> (tx_frame list list \<Rightarrow> tx_frame list list) \<Rightarrow> ledger_state \<Rightarrow> bool \<Rightarrow> uint64 \<Rightarrow> uint64 \<Rightarrow> tx_set_frame \<Rightarrow>
    tx_error + (bool \<times> tx_frame list \<times> tx_set_frame)" where
  "checkOrTrim cr order ls justCheck lowerOffset upperOffset ts =
     seq (accountsLoop (\<lambda>tx lastSeq. tx_checkValid cr ls tx lastSeq lowerOffset upperOffset) justCheck
            (order (map snd (buildAccountTxQueues ts))) (\<lambda>_. 0))
       (\<lambda>(b, qs, trimmed, fees).
          if \<not> b then Inr (False, [], ts)
          else seq (feesLoop (canPayFees ls fees) justCheck qs) (\<lambda>(b', trimmed').
            if \<not> b' then Inr (False, [], ts)
            else Inr (True, trimmed @ trimmed', fold removeTx (trimmed @ trimmed') ts)))"

definition trimInvalid ::
  "crypto \<Rightarrow> (tx_frame list list \<Rightarrow> tx_frame list list) \<Rightarrow> ledger_state \<Rightarrow> uint64 \<Rightarrow> uint64 \<Rightarrow> tx_set_frame \<Rightarrow>
    tx_error + (tx_frame list \<times> tx_set_frame)" where
  "trimInvalid cr order ls lowerOffset upperOffset ts =
     seq (checkOrTrim cr order ls False lowerOffset upperOffset (sortForHash cr ts)) (\<lambda>(b, trimmed, ts'). Inr (trimmed, ts'))"

text \<open>The result of the check is kept with the hash of the last closed ledger.\<close>

definition txSet_checkValid ::
  "crypto \<Rightarrow> (tx_frame list list \<Rightarrow> tx_frame list list) \<Rightarrow> ledger_state \<Rightarrow> hash \<Rightarrow> uint64 \<Rightarrow> uint64 \<Rightarrow> tx_set_frame \<Rightarrow>
    tx_error + (bool \<times> tx_set_frame)" where
  "txSet_checkValid cr order ls lclHash lowerOffset upperOffset ts =
     (let header = ls_header ls;
          remember = (\<lambda>b ts. Inr (b, ts\<lparr>mValid := Some (lclHash, b)\<rparr>)) in
      case (case mValid ts of Some (h, b) \<Rightarrow> if h = lclHash then Some b else None | None \<Rightarrow> None) of
        Some b \<Rightarrow> Inr (b, ts)
      | None \<Rightarrow>
          if lclHash \<noteq> mPreviousLedgerHash ts then remember False ts
          else if txSet_size header ts > unat (lh_maxTxSetSize header) then remember False ts
          else if \<not> sorted (map (getFullHash cr) (mTransactions ts)) then remember False ts
          else seq (checkOrTrim cr order ls True lowerOffset upperOffset ts) (\<lambda>(valid, trimmed, ts'). remember valid ts'))"

subsection \<open>Fees\<close>

definition baseFeeLoop :: "tx_frame list \<Rightarrow> nat \<times> int \<Rightarrow> tx_error + (nat \<times> int)" where
  "baseFeeLoop txs acc =
     foldSeq (\<lambda>tx (ops, lowBaseFee).
       let txOps = getNumOperations tx in
       seq (num (bigDivideOrThrow (getFeeBid tx) 1 (int txOps) ROUND_UP)) (\<lambda>txBaseFee.
         Inr (ops + txOps, min lowBaseFee txBaseFee))) txs acc"

definition txSet_getBaseFee :: "ledger_header \<Rightarrow> tx_set_frame \<Rightarrow> tx_error + int" where
  "txSet_getBaseFee lh ts =
     (if protocolVersionStartsFrom (lh_ledgerVersion lh) 11
      then seq (baseFeeLoop (mTransactions ts) (0, INT64_MAX)) (\<lambda>(ops, lowBaseFee).
        let surgeOpsCutoff =
              (if unat (lh_maxTxSetSize lh) \<ge> MAX_OPS_PER_TX then unat (lh_maxTxSetSize lh) - MAX_OPS_PER_TX else 0) in
        Inr (if ops > surgeOpsCutoff then lowBaseFee else uint (lh_baseFee lh)))
      else Inr (uint (lh_baseFee lh)))"

definition getTotalFees :: "ledger_header \<Rightarrow> tx_set_frame \<Rightarrow> tx_error + int" where
  "getTotalFees lh ts =
     seq (txSet_getBaseFee lh ts) (\<lambda>baseFee.
       foldSeq (\<lambda>tx t. seq (getFee lh tx baseFee True) (\<lambda>fee. i64 (t + fee))) (mTransactions ts) 0)"

end
