(* ===== verification/Tx_Examples.thy ===== *)
theory Tx_Examples
  imports Tx_Set
begin

text \<open>
  Concrete values for the witnesses of the properties of transactions: a ledger with two accounts, transactions on
  it, and instances of the cryptographic functions and encodings that can be computed.
\<close>

definition ex_sha256 :: "opaque \<Rightarrow> hash" where
  "ex_sha256 bs = fold (\<lambda>b h. h * 256 + ucast b) bs 0"

definition ex_source :: "tx_source \<Rightarrow> uint8" where
  "ex_source s = ucast (case s of ENVELOPE_TYPE_TX_V0 k \<Rightarrow> k | ENVELOPE_TYPE_TX m \<Rightarrow> toAccountID m)"

definition ex_crypto :: crypto where
  "ex_crypto = \<lparr>sha256 = ex_sha256, verify_detached = (\<lambda>key sig h. sig = [1]),
     xdr_tx_payload = (\<lambda>s tx. [ex_source s, word_of_int (tx_seqNum tx)]),
     xdr_feeBump_payload = (\<lambda>fb. [word_of_int (fb_fee fb)]),
     xdr_tx_envelope = (\<lambda>env. [ex_source (env_source env), word_of_int (tx_seqNum (env_tx env))]),
     xdr_feeBump_envelope = (\<lambda>env. [word_of_int (fb_fee (fbe_tx env)), 0])\<rparr>"

definition ex_value :: stellar_value where
  "ex_value = \<lparr>sv_txSetHash = 0, sv_closeTime = 1000, sv_upgrades = [], sv_ext = None\<rparr>"

definition ex_header :: ledger_header where
  "ex_header = \<lparr>lh_ledgerVersion = 18, lh_previousLedgerHash = 0, lh_scpValue = ex_value, lh_txSetResultHash = 0,
     lh_bucketListHash = 0, lh_ledgerSeq = 7, lh_totalCoins = 10 ^ 12, lh_feePool = 500, lh_inflationSeq = 0, lh_idPool = 0,
     lh_baseFee = 100, lh_basePercentageFee = 45, lh_maxFee = 10 ^ 12, lh_baseReserve = 5000000, lh_maxTxSetSize = 50,
     lh_skipList = [], lh_ext = None\<rparr>"

definition ex_account :: "account_id \<Rightarrow> int \<Rightarrow> ledger_entry" where
  "ex_account i balance = \<lparr>lastModifiedLedgerSeq = 1, le_data = ACCOUNT \<lparr>ae_accountID = i, ae_balance = balance, ae_seqNum = 10,
     ae_numSubEntries = 0, ae_inflationDest = None, ae_flags = 0, ae_homeDomain = [],
     ae_thresholds = \<lparr>THRESHOLD_MASTER_WEIGHT = 1, THRESHOLD_LOW = 0, THRESHOLD_MED = 0, THRESHOLD_HIGH = 0\<rparr>,
     ae_signers = [], ae_ext = None\<rparr>, le_ext = None\<rparr>"

text \<open>The accounts 1 and 2 have the given balances.\<close>

definition ex_ledger :: "int \<Rightarrow> int \<Rightarrow> ledger_state" where
  "ex_ledger b1 b2 = \<lparr>ls_header = ex_header,
     ls_entries = (\<lambda>k. if k = ACCOUNT_KEY 1 then Some (ex_account 1 b1)
                       else if k = ACCOUNT_KEY 2 then Some (ex_account 2 b2) else None)\<rparr>"

definition ex_payment :: "account_id \<Rightarrow> uint64 \<Rightarrow> int \<Rightarrow> int \<Rightarrow> tx_envelope" where
  "ex_payment i fee seqNum n = \<lparr>env_source = ENVELOPE_TYPE_TX (KEY_TYPE_ED25519 i),
     env_tx = \<lparr>tx_fee = fee, tx_seqNum = seqNum, tx_timeBounds = None, tx_memo = MEMO_NONE,
       tx_operations = [\<lparr>op_sourceAccount = None, op_body = PaymentOp (KEY_TYPE_ED25519 2) ASSET_TYPE_NATIVE n\<rparr>]\<rparr>,
     env_signatures = [\<lparr>ds_hint = ucast i, ds_signature = [1]\<rparr>]\<rparr>"

definition ex_tx :: "account_id \<Rightarrow> uint64 \<Rightarrow> int \<Rightarrow> int \<Rightarrow> tx_frame" where
  "ex_tx i fee seqNum n = TransactionFrame (ex_payment i fee seqNum n)"

text \<open>A fee bump paid by account 2.\<close>

definition ex_feeBump :: "int \<Rightarrow> tx_envelope \<Rightarrow> fee_bump_envelope" where
  "ex_feeBump fee inner = \<lparr>fbe_tx = \<lparr>fb_feeSource = KEY_TYPE_ED25519 2, fb_fee = fee, fb_innerTx = inner\<rparr>,
     fbe_signatures = [\<lparr>ds_hint = 2, ds_signature = [1]\<rparr>]\<rparr>"

definition ex_set :: tx_set_frame where
  "ex_set = new_TxSetFrame 5 [ex_tx 2 100 11 1000, ex_tx 1 100 12 1000, ex_tx 1 100 11 1000]"

end
