(* ===== verification/Tx_Set_Order.thy ===== *)
theory Tx_Set_Order
  imports Tx_Examples
begin

unbundle bit_operations_syntax

text \<open>
  The order in which the transactions of a set are applied: every transaction once, those of an account by
  sequence number, and the same on every node whatever the iteration order of its hash tables.
\<close>

section \<open>Queues by account\<close>

definition from_account :: "account_id \<Rightarrow> tx_frame list \<Rightarrow> tx_frame list" where
  "from_account i txs = filter (\<lambda>tx. getSourceID tx = i) txs"

lemma from_account_simps [simp]:
  "from_account i [] = []"
  "from_account i (tx # txs) = (if getSourceID tx = i then tx # from_account i txs else from_account i txs)"
  "from_account i (xs @ ys) = from_account i xs @ from_account i ys"
  by (simp_all add: from_account_def)

lemma set_from_account [simp]: "set (from_account i txs) = {tx \<in> set txs. getSourceID tx = i}"
  by (auto simp: from_account_def)

lemma from_account_Nil_iff: "from_account i txs = [] \<longleftrightarrow> i \<notin> getSourceID ` set txs"
  by (auto simp: from_account_def filter_empty_conv)

definition queues_of :: "tx_frame list \<Rightarrow> (account_id \<times> tx_frame list) list \<Rightarrow> bool" where
  "queues_of txs m \<longleftrightarrow>
     distinct (map fst m) \<and> fst ` set m = getSourceID ` set txs \<and> (\<forall>i q. (i, q) \<in> set m \<longrightarrow> q = from_account i txs)"

lemma enqueueTx_queues: "queues_of txs m \<Longrightarrow> queues_of (txs @ [tx]) (enqueueTx tx m)"
proof -
  assume m: "queues_of txs m"
  show ?thesis
  proof (cases "getSourceID tx \<in> fst ` set m")
    case True
    let ?f = "\<lambda>(j, q). if j = getSourceID tx then (j, q @ [tx]) else (j, q)"
    have eq: "enqueueTx tx m = map ?f m" using True by (simp add: enqueueTx_def)
    have fst: "map fst (map ?f m) = map fst m" by (induction m) auto
    have "set (map fst m) = getSourceID ` set (txs @ [tx])" using m True by (auto simp: queues_of_def)
    then have "distinct (map fst (map ?f m))" "fst ` set (map ?f m) = getSourceID ` set (txs @ [tx])"
      using m unfolding set_map [symmetric] fst by (simp_all add: queues_of_def)
    moreover have "\<forall>i q. (i, q) \<in> set (map ?f m) \<longrightarrow> q = from_account i (txs @ [tx])"
      using m by (auto simp: queues_of_def split: if_splits)
    ultimately show ?thesis unfolding eq queues_of_def by blast
  next
    case False
    then have "from_account (getSourceID tx) txs = []" using m by (auto simp: queues_of_def from_account_Nil_iff)
    moreover have "q = from_account i (txs @ [tx])" if "(i, q) \<in> set m" for i q
    proof -
      have "i \<noteq> getSourceID tx" using False that by force
      then show ?thesis using m that by (simp add: queues_of_def)
    qed
    ultimately show ?thesis using m False unfolding queues_of_def enqueueTx_def by (auto simp: Let_def)
  qed
qed

lemma fold_enqueueTx: "queues_of txs m \<Longrightarrow> queues_of (txs @ txs') (fold enqueueTx txs' m)"
proof (induction txs' arbitrary: txs m)
  case (Cons tx txs')
  then show ?case using Cons.IH [OF enqueueTx_queues [OF Cons.prems], of tx] by simp
qed simp

text \<open>The queues of a set: one per account, with its transactions by sequence number.\<close>

definition account_queues :: "tx_frame list \<Rightarrow> tx_frame list list \<Rightarrow> bool" where
  "account_queues txs qs \<longleftrightarrow>
     distinct (map (getSourceID \<circ> hd) qs) \<and> getSourceID ` hd ` set qs = getSourceID ` set txs \<and>
     (\<forall>q \<in> set qs. q \<noteq> [] \<and> sort_key getSeqNum (from_account (getSourceID (hd q)) txs) = q)"

lemma buildAccountTxQueues_queues: "account_queues (mTransactions ts) (map snd (buildAccountTxQueues ts))"
proof -
  let ?m = "fold enqueueTx (mTransactions ts) []" and ?txs = "mTransactions ts"
  have m: "queues_of ?txs ?m" using fold_enqueueTx [of "[]" "[]" ?txs] by (simp add: queues_of_def)
  have q: "q = from_account i ?txs \<and> sort_key getSeqNum q \<noteq> [] \<and> getSourceID (hd (sort_key getSeqNum q)) = i"
    if "(i, q) \<in> set ?m" for i q
  proof -
    have "i \<in> fst ` set ?m" using that by force
    then have eq: "q = from_account i ?txs" and "i \<in> getSourceID ` set ?txs" using m that by (auto simp: queues_of_def)
    then have ne: "sort_key getSeqNum q \<noteq> []" by (metis from_account_Nil_iff set_empty set_sort)
    then have "hd (sort_key getSeqNum q) \<in> set q" by (metis hd_in_set set_sort)
    with eq ne show ?thesis by simp
  qed
  have "map (getSourceID \<circ> hd) (map snd (buildAccountTxQueues ts)) = map fst ?m"
    using q by (auto simp: buildAccountTxQueues_def)
  then have "distinct (map (getSourceID \<circ> hd) (map snd (buildAccountTxQueues ts)))"
    "getSourceID ` hd ` set (map snd (buildAccountTxQueues ts)) = getSourceID ` set ?txs"
    using m unfolding queues_of_def by (simp_all flip: set_map) (simp add: comp_def)+
  moreover have "\<forall>q \<in> set (map snd (buildAccountTxQueues ts)).
      q \<noteq> [] \<and> sort_key getSeqNum (from_account (getSourceID (hd q)) ?txs) = q"
    using q by (fastforce simp: buildAccountTxQueues_def)
  ultimately show ?thesis unfolding account_queues_def by blast
qed

lemma account_queues_perm:
  assumes "account_queues txs qs" "mset qs' = mset qs"
  shows "account_queues txs qs'"
proof -
  have "set qs' = set qs" using assms(2) by (metis set_mset_mset)
  moreover have "distinct (map (getSourceID \<circ> hd) qs')"
    using assms by (metis account_queues_def mset_eq_imp_distinct_iff mset_map)
  ultimately show ?thesis using assms(1) unfolding account_queues_def by auto
qed

section \<open>Batches\<close>

text \<open>Queues that are not empty, each of one account, and no two of the same account.\<close>

definition one_source :: "tx_frame list \<Rightarrow> bool" where
  "one_source q \<longleftrightarrow> (\<forall>tx \<in> set q. getSourceID tx = getSourceID (hd q))"

definition separate :: "tx_frame list list \<Rightarrow> bool" where
  "separate qs \<longleftrightarrow> distinct (map (getSourceID \<circ> hd) qs) \<and> (\<forall>q \<in> set qs. q \<noteq> [] \<and> one_source q)"

lemma one_sourceD: "one_source q \<Longrightarrow> tx \<in> set q \<Longrightarrow> getSourceID tx = getSourceID (hd q)"
  unfolding one_source_def by blast

lemma one_source_tl:
  assumes "one_source q" "tl q \<noteq> []"
  shows "one_source (tl q)" "getSourceID (hd (tl q)) = getSourceID (hd q)"
proof -
  have "tx \<in> set (tl q) \<Longrightarrow> getSourceID tx = getSourceID (hd q)" for tx
    using one_sourceD [OF assms(1)] by (metis list.sel(2) list.set_sel(2))
  then show "one_source (tl q)" "getSourceID (hd (tl q)) = getSourceID (hd q)"
    using assms(2) hd_in_set [of "tl q"] unfolding one_source_def by metis+
qed

lemma separate_Cons:
  "separate (q # qs) \<longleftrightarrow> q \<noteq> [] \<and> one_source q \<and> getSourceID (hd q) \<notin> getSourceID ` hd ` set qs \<and> separate qs"
  by (auto simp: separate_def)

lemma account_queues_separate:
  assumes "account_queues txs qs"
  shows "separate qs"
proof -
  have "one_source q" if "q \<in> set qs" for q
  proof -
    have "set q = {tx \<in> set txs. getSourceID tx = getSourceID (hd q)}"
      using assms that by (metis account_queues_def set_from_account set_sort)
    then show ?thesis unfolding one_source_def by blast
  qed
  then show ?thesis using assms by (simp add: account_queues_def separate_def)
qed

lemma tails_source:
  assumes "separate qs" "p \<in> set (filter (\<lambda>q. q \<noteq> []) (map tl qs))"
  shows "getSourceID (hd p) \<in> getSourceID ` hd ` set qs"
proof -
  obtain r where r: "r \<in> set qs" "p = tl r" "tl r \<noteq> []" using assms(2) by auto
  then have "getSourceID (hd p) = getSourceID (hd r)" using assms(1) one_source_tl(2) by (simp add: separate_def)
  then show ?thesis using r(1) by auto
qed

lemma separate_tails: "separate qs \<Longrightarrow> separate (filter (\<lambda>q. q \<noteq> []) (map tl qs))"
proof (induction qs)
  case (Cons q qs)
  have q: "one_source q" "getSourceID (hd q) \<notin> getSourceID ` hd ` set qs" "separate qs"
    using Cons.prems by (simp_all add: separate_Cons)
  show ?case
  proof (cases "tl q = []")
    case False
    then have "getSourceID (hd (tl q)) \<notin> getSourceID ` hd ` set (filter (\<lambda>q. q \<noteq> []) (map tl qs))"
      using tails_source [OF q(3)] q(2) one_source_tl(2) [OF q(1)] by auto
    then show ?thesis using Cons.IH [OF q(3)] False one_source_tl(1) [OF q(1)] by (simp add: separate_Cons)
  qed (use Cons.IH [OF q(3)] in simp)
qed simp

lemma mset_txBatches: "[] \<notin> set qs \<Longrightarrow> mset (concat (txBatches qs)) = mset (concat qs)"
proof (induction qs rule: txBatches.induct)
  case (1 qs)
  have split: "mset (map hd qs) + mset (concat (filter (\<lambda>q. q \<noteq> []) (map tl qs))) = mset (concat qs)" if "[] \<notin> set qs" for qs
    using that
  proof (induction qs)
    case (Cons q qs)
    then show ?case by (cases q) auto
  qed simp
  show ?case
  proof (cases "qs = []")
    case False
    then have "mset (concat (txBatches qs)) = mset (map hd qs) + mset (concat (txBatches (filter (\<lambda>q. q \<noteq> []) (map tl qs))))"
      by (simp add: txBatches.simps [of qs])
    then show ?thesis using 1 False split by simp
  qed (simp add: txBatches.simps)
qed

text \<open>The part of an account in a list of batches, each sorted in any way, is the queue of the account.\<close>

definition queue_of :: "account_id \<Rightarrow> tx_frame list list \<Rightarrow> tx_frame list" where
  "queue_of i qs = concat (filter (\<lambda>q. getSourceID (hd q) = i) qs)"

lemma separate_heads:
  "separate qs \<Longrightarrow> from_account i (map hd qs) @ queue_of i (filter (\<lambda>q. q \<noteq> []) (map tl qs)) = queue_of i qs"
proof (induction qs)
  case (Cons q qs)
  have q: "q \<noteq> []" "one_source q" "getSourceID (hd q) \<notin> getSourceID ` hd ` set qs" and sep: "separate qs"
    using Cons.prems by (simp_all add: separate_Cons)
  have tl: "tl q \<noteq> [] \<Longrightarrow> getSourceID (hd (tl q)) = getSourceID (hd q)" using one_source_tl(2) [OF q(2)] .
  have other: "from_account i (map hd qs) = []" if "getSourceID (hd q) = i"
    using q(3) that by (auto simp: from_account_Nil_iff)
  show ?case
    using Cons.IH [OF sep] q(1) tl other by (cases q) (auto simp: queue_of_def)
qed (simp add: queue_of_def)

lemma from_account_batches:
  "separate qs \<Longrightarrow> from_account i (concat (map (sort_key k) (txBatches qs))) = queue_of i qs"
proof (induction qs rule: txBatches.induct)
  case (1 qs)
  show ?case
  proof (cases "qs = []")
    case False
    let ?rest = "filter (\<lambda>q. q \<noteq> []) (map tl qs)"
    have one: "sort_key k (from_account i (map hd qs)) = from_account i (map hd qs)"
    proof -
      have "distinct (map getSourceID (from_account i (map hd qs)))"
        using 1(2) unfolding from_account_def separate_def by (simp add: distinct_map_filter)
      moreover have "set (map getSourceID (from_account i (map hd qs))) \<subseteq> {i}" by auto
      ultimately have "length (map getSourceID (from_account i (map hd qs))) \<le> card {i}"
        by (metis card_mono distinct_card finite.emptyI finite.insertI)
      then have "length (from_account i (map hd qs)) \<le> 1" by simp
      then show ?thesis by (cases "from_account i (map hd qs)") auto
    qed
    have "from_account i (concat (map (sort_key k) (txBatches qs)))
        = sort_key k (from_account i (map hd qs)) @ from_account i (concat (map (sort_key k) (txBatches ?rest)))"
      using False by (simp add: txBatches.simps [of qs] from_account_def filter_sort)
    then show ?thesis using 1(1) [OF False separate_tails [OF 1(2)]] separate_heads [OF 1(2)] one by simp
  qed (simp add: txBatches.simps queue_of_def)
qed

lemma queue_of_account:
  assumes "account_queues txs qs"
  shows "queue_of i qs = sort_key getSeqNum (from_account i txs)"
proof (cases "i \<in> getSourceID ` set txs")
  case True
  then obtain q where q: "q \<in> set qs" "getSourceID (hd q) = i"
    using assms unfolding account_queues_def by (metis (no_types, lifting) image_iff)
  then have eq: "q = sort_key getSeqNum (from_account i txs)" using assms by (auto simp: account_queues_def)
  obtain xs ys where qs: "qs = xs @ q # ys" using q(1) by (meson split_list)
  have "distinct (map (getSourceID \<circ> hd) (xs @ q # ys))" using assms unfolding account_queues_def qs by blast
  then have "i \<notin> (getSourceID \<circ> hd) ` (set xs \<union> set ys)" unfolding q(2) [symmetric] by auto
  then have "filter (\<lambda>q. getSourceID (hd q) = i) xs = []" "filter (\<lambda>q. getSourceID (hd q) = i) ys = []"
    by (auto simp: filter_empty_conv)
  then show ?thesis using q(2) by (simp add: queue_of_def qs flip: eq)
next
  case False
  then have "filter (\<lambda>q. getSourceID (hd q) = i) qs = []"
    using assms unfolding account_queues_def by (auto simp: filter_empty_conv)
  then show ?thesis using False by (simp add: queue_of_def from_account_Nil_iff [THEN iffD2])
qed

text \<open>Batches of permuted queues are permutations of each other.\<close>

lemma txBatches_perm: "mset qs = mset qs' \<Longrightarrow> list_all2 (\<lambda>b b'. mset b = mset b') (txBatches qs) (txBatches qs')"
proof (induction qs arbitrary: qs' rule: txBatches.induct)
  case (1 qs)
  show ?case
  proof (cases "qs = []")
    case True
    then show ?thesis using 1(2) by (simp add: txBatches.simps)
  next
    case False
    then have "qs' \<noteq> []" using 1(2) by auto
    moreover have "mset (map hd qs) = mset (map hd qs')" using 1(2) by (metis mset_map)
    moreover have "mset (filter (\<lambda>q. q \<noteq> []) (map tl qs)) = mset (filter (\<lambda>q. q \<noteq> []) (map tl qs'))"
      using 1(2) by (metis mset_filter mset_map)
    ultimately show ?thesis using 1(1) [OF False] False by (simp add: txBatches.simps [of qs] txBatches.simps [of qs'])
  qed
qed

lemma sort_batches_eq:
  assumes "list_all2 (\<lambda>b b'. mset b = mset b') bs bs'" "inj_on k (set (concat bs))"
  shows "concat (map (sort_key k) bs) = concat (map (sort_key k) bs')"
  using assms
proof (induction rule: list_all2_induct)
  case (Cons b bs b' bs')
  have "sort_key k b = sort_key k b'"
    using Cons.hyps(1) Cons.prems by (intro sort_key_inj_key_eq) (auto simp: inj_on_Un)
  then show ?case using Cons by (simp add: inj_on_Un)
qed simp

section \<open>The order of application\<close>

lemma xor_cancel: "a XOR h = b XOR h \<Longrightarrow> a = b" for a b h :: hash
proof -
  assume "a XOR h = b XOR h"
  then have "(a XOR h) XOR h = (b XOR h) XOR h" by simp
  then show "a = b" by (simp add: xor.assoc)
qed

lemma sortForApply_fst:
  "fst (sortForApply cr order ts) =
     concat (map (sort_key (\<lambda>tx. getFullHash cr tx XOR fst (getContentsHash cr ts)))
       (txBatches (order (map snd (buildAccountTxQueues ts)))))"
  by (simp add: sortForApply_def case_prod_beta)

lemma mset_concat_queues:
  assumes "account_queues txs qs"
  shows "mset (concat qs) = mset txs"
proof (rule multiset_eqI)
  fix tx
  have "count (mset (concat qs)) tx = count (mset (queue_of (getSourceID tx) qs)) tx"
  proof -
    have "count (mset q) tx = 0" if "q \<in> set qs" "getSourceID (hd q) \<noteq> getSourceID tx" for q
      using account_queues_separate [OF assms] that one_sourceD [of q tx] by (auto simp: separate_def)
    then show ?thesis unfolding queue_of_def by (induction qs) auto
  qed
  also have "\<dots> = count (mset txs) tx"
    by (simp add: queue_of_account [OF assms] from_account_def)
  finally show "count (mset (concat qs)) tx = count (mset txs) tx" .
qed

text \<open>C18: the transactions of a set are applied once each, those of an account in the order of their sequence
  numbers; if no two of them have the same hash, the order does not depend on how the hash table is iterated.\<close>

theorem sortForApply_order:
  assumes "\<And>qs. mset (order qs) = mset qs" "\<And>qs. mset (order' qs) = mset qs"
    and "inj_on (getFullHash cr) (set (mTransactions ts))"
  shows "mset (fst (sortForApply cr order ts)) = mset (mTransactions ts) \<and>
    filter (\<lambda>tx. getSourceID tx = i) (fst (sortForApply cr order ts)) =
      sort_key getSeqNum (filter (\<lambda>tx. getSourceID tx = i) (mTransactions ts)) \<and>
    fst (sortForApply cr order ts) = fst (sortForApply cr order' ts)"
proof -
  let ?txs = "mTransactions ts" and ?qs = "\<lambda>ord. ord (map snd (buildAccountTxQueues ts))"
    and ?k = "\<lambda>tx. getFullHash cr tx XOR fst (getContentsHash cr ts)"
  have q: "account_queues ?txs (?qs order)"
    by (rule account_queues_perm [OF buildAccountTxQueues_queues assms(1)])
  have ne: "[] \<notin> set (?qs order)" using q by (auto simp: account_queues_def)
  have sorted: "mset (concat (map (sort_key k) bs)) = mset (concat bs)" for k :: "tx_frame \<Rightarrow> hash" and bs
    by (induction bs) auto
  have all: "mset (concat (txBatches (?qs order))) = mset ?txs"
    using mset_txBatches [OF ne] mset_concat_queues [OF q] by simp
  have "fst (sortForApply cr order ts) = fst (sortForApply cr order' ts)"
    unfolding sortForApply_fst
  proof (rule sort_batches_eq [OF txBatches_perm])
    show "mset (?qs order) = mset (?qs order')" using assms(1,2) by simp
    have "set (concat (txBatches (?qs order))) = set ?txs" using all by (metis set_mset_mset)
    then show "inj_on ?k (set (concat (txBatches (?qs order))))"
      using assms(3) by (auto simp: inj_on_def dest: xor_cancel)
  qed
  moreover have "mset (fst (sortForApply cr order ts)) = mset ?txs" by (simp add: sortForApply_fst sorted all)
  moreover have "from_account i (fst (sortForApply cr order ts)) = sort_key getSeqNum (from_account i ?txs)"
    using from_account_batches [OF account_queues_separate [OF q]] queue_of_account [OF q] by (simp add: sortForApply_fst)
  ultimately show ?thesis by (simp add: from_account_def)
qed

theorem sortForApply_order_witness:
  "fst (sortForApply ex_crypto rev ex_set) = fst (sortForApply ex_crypto id ex_set) \<and>
    filter (\<lambda>tx. getSourceID tx = 1) (fst (sortForApply ex_crypto rev ex_set)) = [ex_tx 1 100 11 1000, ex_tx 1 100 12 1000]"
proof -
  have inj: "inj_on (getFullHash ex_crypto) (set (mTransactions ex_set))" by code_simp
  have id: "mset (id qs) = mset qs" for qs :: "tx_frame list list" by simp
  have "sort_key getSeqNum (filter (\<lambda>tx. getSourceID tx = 1) (mTransactions ex_set)) =
      [ex_tx 1 100 11 1000, ex_tx 1 100 12 1000]"
    by code_simp
  then show ?thesis using sortForApply_order [OF mset_rev id inj, of 1] by argo
qed

end
