(* ===== verification/Tx_Set_Surge.thy ===== *)
theory Tx_Set_Surge
  imports Tx_Set_Order Tx_Examples
begin

text \<open>
  Surge pricing: the filtered set fits into a ledger and keeps, of each account, the transactions with the lowest
  sequence numbers.
\<close>

section \<open>Queues of separate accounts\<close>

lemma queue_of_none:
  assumes "i \<notin> getSourceID ` hd ` set qs"
  shows "queue_of i qs = []"
proof -
  have "getSourceID (hd r) \<noteq> i" if "r \<in> set qs" for r using assms that by (metis image_eqI)
  then show ?thesis by (simp add: queue_of_def filter_False)
qed

lemma queue_of_in:
  assumes "separate qs" "q \<in> set qs"
  shows "queue_of (getSourceID (hd q)) qs = q"
  using assms
proof (induction qs)
  case (Cons p qs)
  have p: "getSourceID (hd p) \<notin> getSourceID ` hd ` set qs" "separate qs" using Cons.prems by (simp_all add: separate_Cons)
  show ?case
  proof (cases "q = p")
    case True
    show ?thesis using queue_of_none [OF p(1)] by (simp add: queue_of_def True)
  next
    case False
    then have "q \<in> set qs" using Cons.prems by simp
    moreover from this have "getSourceID (hd p) \<noteq> getSourceID (hd q)" using p(1) by auto
    ultimately show ?thesis using Cons.IH [OF p(2)] by (simp add: queue_of_def)
  qed
qed simp

lemma separate_perm:
  assumes "separate qs" "mset qs = mset qs'"
  shows "separate qs'" "queue_of i qs' = queue_of i qs"
proof -
  have set: "set qs' = set qs" using assms(2) by (metis set_mset_mset)
  have "distinct (map (getSourceID \<circ> hd) qs')" using assms by (metis separate_def mset_eq_imp_distinct_iff mset_map)
  then show sep: "separate qs'" using assms(1) set by (simp add: separate_def)
  show "queue_of i qs' = queue_of i qs"
  proof (cases "i \<in> getSourceID ` hd ` set qs")
    case True
    then obtain q where "q \<in> set qs" "i = getSourceID (hd q)" by auto
    then show ?thesis using queue_of_in [OF assms(1)] queue_of_in [OF sep] set by simp
  qed (simp add: queue_of_none set)
qed

section \<open>The loop over the priority queue\<close>

definition surgeOps :: "bool \<Rightarrow> tx_frame \<Rightarrow> nat" where
  "surgeOps maxIsOps tx = (if maxIsOps then getNumOperations tx else MAX_OPS_PER_TX)"

lemma surgeLoop_step:
  assumes "n \<noteq> 0" "popTop cr seed q qs = Inr (tx # cur', rest)"
  shows "surgeLoop cr seed m n (q # qs) =
    (if surgeOps m tx \<le> n
     then seq (surgeLoop cr seed m (n - surgeOps m tx) (if cur' = [] then rest else cur' # rest)) (\<lambda>txs. Inr (tx # txs))
     else surgeLoop cr seed m n rest)"
  using assms by (simp add: surgeOps_def Let_def)

lemma separate_advance:
  assumes "separate ((tx # q) # rest)"
  shows "separate (if q = [] then rest else q # rest)"
    and "queue_of i ((tx # q) # rest) = (if getSourceID tx = i then [tx] else []) @ queue_of i (if q = [] then rest else q # rest)"
proof -
  have a: "one_source (tx # q)" "getSourceID tx \<notin> getSourceID ` hd ` set rest" "separate rest"
    using assms by (simp_all add: separate_Cons)
  have q: "q \<noteq> [] \<Longrightarrow> one_source q \<and> getSourceID (hd q) = getSourceID tx" using one_source_tl [OF a(1)] by simp
  show "separate (if q = [] then rest else q # rest)" using a q by (simp add: separate_Cons)
  show "queue_of i ((tx # q) # rest) = (if getSourceID tx = i then [tx] else []) @ queue_of i (if q = [] then rest else q # rest)"
    using q by (simp add: queue_of_def)
qed

lemma separate_drop:
  assumes "separate (q # rest)"
  shows "\<exists>k. take k (queue_of i (q # rest)) = take n (queue_of i rest)"
proof (cases "getSourceID (hd q) = i")
  case True
  then have "queue_of i rest = []" using assms by (intro queue_of_none) (simp add: separate_Cons)
  then show ?thesis by (intro exI [of _ 0]) simp
next
  case False
  then show ?thesis by (intro exI [of _ n]) (simp add: queue_of_def)
qed

lemma surgeLoop_result:
  assumes "separate qs" "surgeLoop cr seed m n qs = Inr txs"
  shows "sum_list (map (surgeOps m) txs) \<le> n \<and> (\<exists>k. from_account i txs = take k (queue_of i qs))"
  using assms
proof (induction cr seed m n qs arbitrary: txs rule: surgeLoop.induct)
  case (1 cr seed m n)
  then show ?case by simp
next
  case (2 cr seed m n q qs)
  show ?case
  proof (cases "n = 0")
    case True
    then show ?thesis using 2 by (auto intro: exI [of _ 0])
  next
    case n: False
    obtain cur rest where pop: "popTop cr seed q qs = Inr (cur, rest)"
      using 2(4) n by (cases "popTop cr seed q qs") auto
    have sep: "separate (cur # rest)" and queue: "queue_of i (cur # rest) = queue_of i (q # qs)"
      using separate_perm [OF 2(3) popTop_mset [OF pop, symmetric]] by simp_all
    then obtain tx cur' where cur: "cur = tx # cur'" by (cases cur) (auto simp: separate_Cons)
    show ?thesis
    proof (cases "surgeOps m tx \<le> n")
      case True
      let ?next = "if cur' = [] then rest else cur' # rest"
      obtain txs' where txs: "surgeLoop cr seed m (n - surgeOps m tx) ?next = Inr txs'" "txs = tx # txs'"
        using 2(4) True surgeLoop_step [OF n pop [unfolded cur]] by (auto simp: seq_def simp del: surgeLoop.simps split: sum.splits)
      have IH: "sum_list (map (surgeOps m) txs') \<le> n - surgeOps m tx \<and> (\<exists>k. from_account i txs' = take k (queue_of i ?next))"
        by (rule 2(1) [OF n pop refl cur surgeOps_def True separate_advance(1) [OF sep [unfolded cur]] txs(1)])
      then obtain k where "from_account i txs' = take k (queue_of i ?next)" by blast
      moreover have "queue_of i (q # qs) = (if getSourceID tx = i then [tx] else []) @ queue_of i ?next"
        using separate_advance(2) [OF sep [unfolded cur]] queue cur by simp
      ultimately have "from_account i txs = take (if getSourceID tx = i then Suc k else k) (queue_of i (q # qs))"
        by (simp add: txs(2))
      then show ?thesis using IH True txs(2) by auto
    next
      case False
      then have "surgeLoop cr seed m n rest = Inr txs" using 2(4) surgeLoop_step [OF n pop [unfolded cur]] by simp
      then have "sum_list (map (surgeOps m) txs) \<le> n \<and> (\<exists>k. from_account i txs = take k (queue_of i rest))"
        using 2(2) [OF n pop refl cur surgeOps_def False] sep by (simp add: separate_Cons)
      then show ?thesis using separate_drop [OF sep] queue by metis
    qed
  qed
qed

lemma surgeLess_total:
  assumes "\<forall>tx \<in> set q \<union> set p. 0 \<le> getFeeBid tx"
  shows "\<exists>b. surgeLess cr seed q p = Inr b"
  using assms by (auto simp: surgeLess_def feeRate3WayCompare_def bigMultiply_def split: list.split)

lemma popTop_total:
  assumes "\<forall>r \<in> set (q # qs). \<forall>tx \<in> set r. 0 \<le> getFeeBid tx"
  shows "\<exists>x. popTop cr seed q qs = Inr x"
  using assms
proof (induction qs arbitrary: q)
  case (Cons p qs)
  have "\<forall>tx \<in> set q \<union> set p. 0 \<le> getFeeBid tx" using Cons.prems by auto
  then obtain b where b: "surgeLess cr seed q p = Inr b" using surgeLess_total by blast
  have "\<forall>r \<in> set ((if b then p else q) # qs). \<forall>tx \<in> set r. 0 \<le> getFeeBid tx" using Cons.prems by auto
  then obtain x where "popTop cr seed (if b then p else q) qs = Inr x" using Cons.IH by blast
  then show ?case using b by (cases x) simp
qed simp

lemma surgeLoop_total:
  assumes "[] \<notin> set qs" "\<forall>r \<in> set qs. \<forall>tx \<in> set r. 0 \<le> getFeeBid tx"
  shows "\<exists>txs. surgeLoop cr seed m n qs = Inr txs"
  using assms
proof (induction cr seed m n qs rule: surgeLoop.induct)
  case (2 cr seed m n q qs)
  show ?case
  proof (cases "n = 0")
    case n: False
    obtain cur rest where pop: "popTop cr seed q qs = Inr (cur, rest)" using popTop_total [OF 2(4)] by fastforce
    have set: "set (cur # rest) = set (q # qs)" using popTop_mset [OF pop] by (metis set_mset_mset)
    then obtain tx cur' where cur: "cur = tx # cur'" using 2(3) by (cases cur) (metis list.set_intros(1))+
    have "[] \<notin> set (if cur' = [] then rest else cur' # rest)"
      "\<forall>r \<in> set (if cur' = [] then rest else cur' # rest). \<forall>tx \<in> set r. 0 \<le> getFeeBid tx"
      "[] \<notin> set rest" "\<forall>r \<in> set rest. \<forall>tx \<in> set r. 0 \<le> getFeeBid tx"
      using 2(3,4) unfolding set [symmetric] cur by auto
    then show ?thesis
      using 2(1) [OF n pop refl cur surgeOps_def] 2(2) [OF n pop refl cur surgeOps_def] surgeLoop_step [OF n pop [unfolded cur]]
      by (cases "surgeOps m tx \<le> n") (force simp del: surgeLoop.simps)+
  qed simp
qed simp

section \<open>The filter\<close>

lemma unat_mult_le: "unat (a * b) \<le> unat a * unat b" for a b :: "'a::len word"
  by (simp add: unat_word_ariths)

lemma surgeOps_sum:
  "sum_list (map (surgeOps m) txs) = (if m then sum_list (map getNumOperations txs) else length txs * MAX_OPS_PER_TX)"
  by (induction txs) (auto simp: surgeOps_def)

lemma txSet_size_bound:
  assumes "sum_list (map (surgeOps (protocolVersionStartsFrom (lh_ledgerVersion header) 11)) (mTransactions ts))
      \<le> getLastMaxTxSetSizeOps header"
  shows "txSet_size header ts \<le> unat (lh_maxTxSetSize header)"
proof (cases "protocolVersionStartsFrom (lh_ledgerVersion header) 11")
  case False
  have "length (mTransactions ts) * 100 \<le> unat (lh_maxTxSetSize header * 100)"
    using assms False by (simp add: surgeOps_sum getLastMaxTxSetSizeOps_def MAX_OPS_PER_TX_def)
  also have "\<dots> \<le> unat (lh_maxTxSetSize header) * 100" using unat_mult_le [of "lh_maxTxSetSize header" 100] by simp
  finally show ?thesis using False by (simp add: txSet_size_def sizeTx_def)
qed (use assms in \<open>simp add: surgeOps_sum txSet_size_def sizeOp_def getLastMaxTxSetSizeOps_def\<close>)

lemma surgePricingFilter_cases:
  "surgePricingFilter cr order seed header ts =
     (let m = protocolVersionStartsFrom (lh_ledgerVersion header) 11; n = getLastMaxTxSetSizeOps header in
      if sum_list (map (surgeOps m) (mTransactions ts)) > n
      then seq (surgeLoop cr seed m n (order (map snd (buildAccountTxQueues ts)))) (\<lambda>txs.
        Inr (sortForHash cr (ts\<lparr>mTransactions := txs\<rparr>)))
      else Inr ts)"
  by (simp add: surgePricingFilter_def surgeOps_sum sizeOp_def sizeTx_def Let_def)

lemma surgePricingFilter_spec:
  assumes "\<And>qs. mset (order qs) = mset qs" and "\<forall>tx \<in> set (mTransactions ts). 0 \<le> getFeeBid tx"
  shows "\<exists>ts'. surgePricingFilter cr order seed header ts = Inr ts' \<and>
    txSet_size header ts' \<le> unat (lh_maxTxSetSize header) \<and>
    (\<forall>i. \<exists>k. mset (from_account i (mTransactions ts')) = mset (take k (sort_key getSeqNum (from_account i (mTransactions ts))))) \<and>
    (ts' = ts \<or> (\<exists>txs. ts' = sortForHash cr (ts\<lparr>mTransactions := txs\<rparr>)))"
proof -
  let ?m = "protocolVersionStartsFrom (lh_ledgerVersion header) 11" and ?n = "getLastMaxTxSetSizeOps header"
    and ?qs = "order (map snd (buildAccountTxQueues ts))" and ?txs = "mTransactions ts"
  have q: "account_queues ?txs ?qs" by (rule account_queues_perm [OF buildAccountTxQueues_queues assms(1)])
  show ?thesis
  proof (cases "sum_list (map (surgeOps ?m) ?txs) > ?n")
    case True
    have "set (concat ?qs) = set ?txs" using mset_concat_queues [OF q] by (metis set_mset_mset)
    then have "\<forall>r \<in> set ?qs. \<forall>tx \<in> set r. 0 \<le> getFeeBid tx" using assms(2) by auto
    moreover have "[] \<notin> set ?qs" using q by (auto simp: account_queues_def)
    ultimately obtain txs where txs: "surgeLoop cr seed ?m ?n ?qs = Inr txs" using surgeLoop_total by blast
    let ?ts' = "sortForHash cr (ts\<lparr>mTransactions := txs\<rparr>)"
    note res = surgeLoop_result [OF account_queues_separate [OF q] txs]
    have perm: "mset (mTransactions ?ts') = mset txs" by (simp add: sortForHash_def)
    have "sum_list (map (surgeOps ?m) (mTransactions ?ts')) = sum_list (map (surgeOps ?m) txs)"
      using perm by (metis mset_map sum_mset_sum_list)
    then have "txSet_size header ?ts' \<le> unat (lh_maxTxSetSize header)" using res by (intro txSet_size_bound) simp
    moreover have "\<exists>k. mset (from_account i (mTransactions ?ts')) = mset (take k (sort_key getSeqNum (from_account i ?txs)))" for i
    proof -
      have "mset (from_account i (mTransactions ?ts')) = mset (from_account i txs)" using perm by (simp add: from_account_def)
      then show ?thesis using res [of i] queue_of_account [OF q, of i] by auto
    qed
    moreover have "surgePricingFilter cr order seed header ts = Inr ?ts'" using True txs by (simp add: surgePricingFilter_cases)
    ultimately show ?thesis by blast
  next
    case False
    then have "surgePricingFilter cr order seed header ts = Inr ts" by (simp add: surgePricingFilter_cases)
    moreover have "txSet_size header ts \<le> unat (lh_maxTxSetSize header)" using False by (intro txSet_size_bound) simp
    moreover have "mset txs = mset (take (length txs) (sort_key getSeqNum txs))" for txs :: "tx_frame list" by simp
    ultimately show ?thesis by blast
  qed
qed

text \<open>C19: on fee bids that are not negative, surge pricing always ends without an exception.  The set it leaves fits into
  the limit of the ledger, whatever the protocol version, and contains of each account the transactions with
  the lowest sequence numbers, up to some number, and no others.\<close>

theorem surgePricingFilter_fits:
  assumes "\<And>qs. mset (order qs) = mset qs" and "\<forall>tx \<in> set (mTransactions ts). 0 \<le> getFeeBid tx"
  shows "\<exists>ts'. surgePricingFilter cr order seed header ts = Inr ts' \<and>
    txSet_size header ts' \<le> unat (lh_maxTxSetSize header) \<and>
    (\<exists>k. mset (filter (\<lambda>tx. getSourceID tx = i) (mTransactions ts')) =
      mset (take k (sort_key getSeqNum (filter (\<lambda>tx. getSourceID tx = i) (mTransactions ts)))))"
  using surgePricingFilter_spec [OF assms] unfolding from_account_def by blast

theorem surgePricingFilter_fits_witness:
  "\<exists>ts'. surgePricingFilter ex_crypto rev 3 (ex_header\<lparr>lh_maxTxSetSize := 2\<rparr>) ex_set = Inr ts' \<and>
    txSet_size (ex_header\<lparr>lh_maxTxSetSize := 2\<rparr>) ts' \<le> 2 \<and> sizeTx ex_set = 3"
proof -
  have "\<forall>tx \<in> set (mTransactions ex_set). 0 \<le> getFeeBid tx" by code_simp
  then show ?thesis
    using surgePricingFilter_fits [where order = rev and ts = ex_set and cr = ex_crypto and seed = 3
        and header = "ex_header\<lparr>lh_maxTxSetSize := 2\<rparr>"]
    by (auto simp: ex_set_def new_TxSetFrame_def sizeTx_def)
qed

end
