(* ===== verification/Tx_Fee_Properties.thy ===== *)
theory Tx_Fee_Properties
  imports Tx_Examples
begin

text \<open>
  Charging the fees of a transaction set moves money from accounts to the fee pool and changes nothing else; and how far the
  percentage fee is from the exact one.
\<close>

section \<open>Conservation\<close>

definition account_balance :: "ledger_state \<Rightarrow> account_id \<Rightarrow> int" where
  "account_balance ls i = (case loadAccount ls i of None \<Rightarrow> 0 | Some (le, acc) \<Rightarrow> ae_balance acc)"

definition accounts :: "ledger_state \<Rightarrow> account_id set" where
  "accounts ls = {i. loadAccount ls i \<noteq> None}"

text \<open>The number of account identifiers is finite.\<close>

definition native_total :: "ledger_state \<Rightarrow> int" where
  "native_total ls = (\<Sum>i \<in> UNIV. account_balance ls i) + lh_feePool (ls_header ls)"

definition balances_ok :: "ledger_state \<Rightarrow> bool" where
  "balances_ok ls \<longleftrightarrow> (\<forall>i. 0 \<le> account_balance ls i) \<and> 0 \<le> lh_feePool (ls_header ls) \<and> native_total ls \<le> INT64_MAX"

lemma loadAccount_put:
  "loadAccount (putAccount ls le acc header i) j = (if j = i then Some (le\<lparr>le_data := ACCOUNT acc\<rparr>, acc) else loadAccount ls j)"
  by (simp add: loadAccount_def putAccount_def)

lemma account_balance_put:
  "account_balance (putAccount ls le acc header i) = (account_balance ls)(i := ae_balance acc)"
  by (auto simp: account_balance_def loadAccount_put)

lemma sum_fun_upd: "(\<Sum>j \<in> UNIV. (f(i := x)) j) = (\<Sum>j \<in> UNIV. f j) - f i + x" for f :: "'a::finite \<Rightarrow> int"
  by (simp add: sum.remove [of UNIV i])

lemma native_total_put:
  "native_total (putAccount ls le acc header i) =
     native_total ls - account_balance ls i + ae_balance acc - lh_feePool (ls_header ls) + lh_feePool header"
  unfolding native_total_def account_balance_put sum_fun_upd by (simp add: putAccount_def)

lemma balance_le_total:
  assumes "balances_ok ls"
  shows "account_balance ls i + lh_feePool (ls_header ls) \<le> INT64_MAX"
proof -
  have "account_balance ls i \<le> (\<Sum>j \<in> UNIV. account_balance ls j)"
    using assms by (intro member_le_sum) (auto simp: balances_ok_def)
  then show ?thesis using assms by (simp add: balances_ok_def native_total_def)
qed

text \<open>What charging one fee does.\<close>

definition charged :: "account_id \<Rightarrow> int \<Rightarrow> ledger_state \<Rightarrow> ledger_state \<Rightarrow> bool" where
  "charged i fee ls ls' \<longleftrightarrow>
     account_balance ls' = (account_balance ls)(i := account_balance ls i - fee) \<and>
     lh_feePool (ls_header ls') = lh_feePool (ls_header ls) + fee \<and>
     lh_ledgerVersion (ls_header ls') = lh_ledgerVersion (ls_header ls) \<and> accounts ls' = accounts ls"

lemma charged_inv:
  assumes "balances_ok ls" "charged i fee ls ls'" "0 \<le> fee" "fee \<le> account_balance ls i"
  shows "balances_ok ls'" "native_total ls' = native_total ls"
proof -
  show tot: "native_total ls' = native_total ls"
    using assms(2) unfolding native_total_def charged_def by (simp only: sum_fun_upd)
  show "balances_ok ls'" unfolding balances_ok_def tot using assms by (auto simp: balances_ok_def charged_def)
qed

lemma takeFee_result:
  assumes "0 \<le> ae_balance acc" "ae_balance acc + lh_feePool header \<le> INT64_MAX" "0 \<le> lh_feePool header"
  obtains fee' where "takeFee acc header fee = Inr (acc\<lparr>ae_balance := ae_balance acc - max 0 fee'\<rparr>,
      header\<lparr>lh_feePool := lh_feePool header + max 0 fee'\<rparr>, fee')" "fee' = (if 0 < fee then min (ae_balance acc) fee else fee)"
proof
  let ?f = "if 0 < fee then min (ae_balance acc) fee else fee"
  show "takeFee acc header fee = Inr (acc\<lparr>ae_balance := ae_balance acc - max 0 ?f\<rparr>,
      header\<lparr>lh_feePool := lh_feePool header + max 0 ?f\<rparr>, ?f)"
    using assms by (auto simp: takeFee_def addToBalance_def i64_def INT64_MAX_def Let_def min_def max_def)
qed simp

lemma charged_put:
  assumes "loadAccount ls i = Some (le, acc)" "ae_balance acc' = ae_balance acc - fee"
    "lh_feePool header' = lh_feePool (ls_header ls) + fee" "lh_ledgerVersion header' = lh_ledgerVersion (ls_header ls)"
  shows "charged i fee ls (putAccount ls le acc' header' i)"
  using assms by (auto simp: charged_def account_balance_put accounts_def loadAccount_put)
    (auto simp: account_balance_def putAccount_def)

text \<open>The fee of a transaction at a base fee; a negative one is not charged.\<close>

definition fee_due :: "ledger_header \<Rightarrow> int \<Rightarrow> tx_frame \<Rightarrow> int" where
  "fee_due header baseFee f = (case getFee header f baseFee True of Inl e \<Rightarrow> 0 | Inr fee \<Rightarrow> max 0 fee)"

definition fee_in_range :: "int \<Rightarrow> tx_frame \<Rightarrow> bool" where
  "fee_in_range baseFee f \<longleftrightarrow> 0 \<le> baseFee \<and> baseFee * max 1 (int (getNumOperations f)) \<le> INT64_MAX"

lemma i64_in_range: "0 \<le> x \<Longrightarrow> x \<le> INT64_MAX \<Longrightarrow> i64 x = Inr x"
  by (simp add: i64_def)

lemma getFee_tx_total:
  assumes "0 \<le> baseFee" "baseFee * max 1 (int (getNumOperations_tx tx)) \<le> INT64_MAX"
  shows "\<exists>fee. getFee_tx header tx baseFee True = Inr fee"
  using assms by (simp add: getFee_tx_def i64_in_range)

lemma getFee_feeBump_total:
  assumes "fee_in_range baseFee (FeeBumpTransactionFrame e)"
  shows "\<exists>fee. getFee_feeBump e baseFee True = Inr fee" "\<exists>fee. getFee_tx header (inner_tx e) baseFee True = Inr fee"
proof -
  have b: "0 \<le> baseFee" "baseFee * max 1 (int (getNumOperations_feeBump e)) \<le> INT64_MAX"
    using assms by (simp_all add: fee_in_range_def getNumOperations_def)
  then show "\<exists>fee. getFee_feeBump e baseFee True = Inr fee" by (simp add: getFee_feeBump_def i64_in_range)
  have "max 1 (int (getNumOperations_tx (inner_tx e))) \<le> max 1 (int (getNumOperations_feeBump e))"
    by (simp add: getNumOperations_feeBump_def)
  then have "baseFee * max 1 (int (getNumOperations_tx (inner_tx e))) \<le> INT64_MAX"
    using b by (meson mult_left_mono order_trans)
  then show "\<exists>fee. getFee_tx header (inner_tx e) baseFee True = Inr fee" using b(1) by (intro getFee_tx_total)
qed

lemma account_balance_load: "loadAccount ls i = Some (le, acc) \<Longrightarrow> account_balance ls i = ae_balance acc"
  by (simp add: account_balance_def)

text \<open>From version 10 on, charging one fee cannot fail; it takes the fee or, if that is less, the balance.\<close>

lemma processFeeSeqNum_charges:
  assumes v: "protocolVersionStartsFrom (lh_ledgerVersion (ls_header ls)) 10" and ok: "balances_ok ls"
    and acc: "getFeeSourceID f \<in> accounts ls" and range: "fee_in_range baseFee f"
  shows "\<exists>ls' fee. processFeeSeqNum ls f baseFee = Inr (ls', fee) \<and>
    charged (getFeeSourceID f) (min (account_balance ls (getFeeSourceID f)) (fee_due (ls_header ls) baseFee f)) ls ls'"
proof -
  let ?i = "getFeeSourceID f"
  obtain le ac where load: "loadAccount ls ?i = Some (le, ac)" using acc by (auto simp: accounts_def)
  have bal: "0 \<le> ae_balance ac" "ae_balance ac + lh_feePool (ls_header ls) \<le> INT64_MAX" "0 \<le> lh_feePool (ls_header ls)"
    using ok balance_le_total [OF ok, of ?i] unfolding account_balance_load [OF load, symmetric] by (simp_all add: balances_ok_def)
  obtain fee where fee: "getFee (ls_header ls) f baseFee True = Inr fee"
    using range getFee_tx_total getFee_feeBump_total(1)
    by (cases f) (fastforce simp: getFee_def fee_in_range_def getNumOperations_def)+
  obtain fee' where take: "takeFee ac (ls_header ls) fee = Inr (ac\<lparr>ae_balance := ae_balance ac - max 0 fee'\<rparr>,
      (ls_header ls)\<lparr>lh_feePool := lh_feePool (ls_header ls) + max 0 fee'\<rparr>, fee')"
    and fee': "fee' = (if 0 < fee then min (ae_balance ac) fee else fee)"
    by (rule takeFee_result [OF bal])
  have due: "max 0 fee' = min (account_balance ls ?i) (fee_due (ls_header ls) baseFee f)"
    using fee fee' bal(1) by (auto simp: fee_due_def account_balance_load [OF load])
  let ?ls = "putAccount ls le (ac\<lparr>ae_balance := ae_balance ac - max 0 fee'\<rparr>)
    ((ls_header ls)\<lparr>lh_feePool := lh_feePool (ls_header ls) + max 0 fee'\<rparr>) ?i"
  have "processFeeSeqNum ls f baseFee = Inr (?ls, fee')"
  proof (cases f)
    case (TransactionFrame e)
    then show ?thesis using v fee load take
      by (simp add: processFeeSeqNum_def processFeeSeqNum_tx_def resetResults_tx_def getFee_def getFeeSourceID_def)
  next
    case (FeeBumpTransactionFrame e)
    moreover obtain fee0 where "getFee_tx (ls_header ls) (env_tx (fb_innerTx (fbe_tx e))) baseFee True = Inr fee0"
      using getFee_feeBump_total(2) range unfolding FeeBumpTransactionFrame inner_tx_def by blast
    ultimately show ?thesis using fee load take
      by (simp add: processFeeSeqNum_def processFeeSeqNum_feeBump_def resetResults_tx_def getFee_def getFeeSourceID_def)
  qed
  moreover have "charged ?i (max 0 fee') ls ?ls" by (rule charged_put [OF load]) simp_all
  ultimately show ?thesis unfolding due by blast
qed

definition fees_owed :: "ledger_header \<Rightarrow> int \<Rightarrow> tx_frame list \<Rightarrow> account_id \<Rightarrow> int" where
  "fees_owed header baseFee txs i = sum_list (map (fee_due header baseFee) (filter (\<lambda>f. getFeeSourceID f = i) txs))"

lemma fee_due_nonneg [simp]: "0 \<le> fee_due header baseFee f"
  by (simp add: fee_due_def split: sum.split)

lemma fees_owed_nonneg [simp]: "0 \<le> fees_owed header baseFee txs i"
  unfolding fees_owed_def by (rule sum_list_nonneg) auto

lemma fee_due_version:
  "lh_ledgerVersion header' = lh_ledgerVersion header \<Longrightarrow> fee_due header' baseFee f = fee_due header baseFee f"
  by (simp add: fee_due_def getFee_def getFee_tx_def split: tx_frame.split)

lemma fees_owed_version:
  "lh_ledgerVersion header' = lh_ledgerVersion header \<Longrightarrow> fees_owed header' baseFee txs i = fees_owed header baseFee txs i"
  unfolding fees_owed_def by (intro arg_cong [of _ _ sum_list] map_cong) (auto intro: fee_due_version)

lemma fees_owed_Cons:
  "fees_owed header baseFee (f # txs) i =
     (if getFeeSourceID f = i then fee_due header baseFee f else 0) + fees_owed header baseFee txs i"
  by (simp add: fees_owed_def)

text \<open>C17: charging the fees of a transaction set never fails on accounts that exist, at a base fee whose product with the
  number of operations is in range.  The accounts stay the same and no balance becomes negative; the sum of all balances and of
  the fee pool is unchanged; and an account that can pay what its transactions owe pays exactly that.\<close>

theorem processFees_conserves:
  assumes "protocolVersionStartsFrom (lh_ledgerVersion (ls_header ls)) 10" "balances_ok ls"
    and "\<forall>f \<in> set txs. getFeeSourceID f \<in> accounts ls \<and> fee_in_range baseFee f"
  shows "\<exists>ls'. processFeesSeqNums ls txs baseFee = Inr ls' \<and> balances_ok ls' \<and> native_total ls' = native_total ls \<and>
    accounts ls' = accounts ls \<and>
    (\<forall>i. fees_owed (ls_header ls) baseFee txs i \<le> account_balance ls i \<longrightarrow>
      account_balance ls' i = account_balance ls i - fees_owed (ls_header ls) baseFee txs i)"
  using assms
proof (induction txs arbitrary: ls)
  case Nil
  then show ?case by (simp add: processFeesSeqNums_def fees_owed_def)
next
  case (Cons f txs)
  let ?i = "getFeeSourceID f"
  let ?fee = "min (account_balance ls ?i) (fee_due (ls_header ls) baseFee f)"
  obtain ls1 r where step: "processFeeSeqNum ls f baseFee = Inr (ls1, r)" "charged ?i ?fee ls ls1"
    using processFeeSeqNum_charges [OF Cons.prems(1,2)] Cons.prems(3) by fastforce
  have ver: "lh_ledgerVersion (ls_header ls1) = lh_ledgerVersion (ls_header ls)" and acc: "accounts ls1 = accounts ls"
    and bal: "account_balance ls1 = (account_balance ls)(?i := account_balance ls ?i - ?fee)"
    using step(2) by (simp_all add: charged_def)
  have fee: "0 \<le> ?fee" "?fee \<le> account_balance ls ?i" using Cons.prems(2) by (simp_all add: balances_ok_def)
  note inv = charged_inv [OF Cons.prems(2) step(2) fee]
  obtain ls' where IH: "processFeesSeqNums ls1 txs baseFee = Inr ls'" "balances_ok ls'" "native_total ls' = native_total ls1"
    "accounts ls' = accounts ls1" "\<And>i. fees_owed (ls_header ls) baseFee txs i \<le> account_balance ls1 i \<Longrightarrow>
      account_balance ls' i = account_balance ls1 i - fees_owed (ls_header ls) baseFee txs i"
    using Cons.IH [of ls1] Cons.prems(1,3) inv(1) acc unfolding ver fees_owed_version [OF ver] by auto
  have "account_balance ls' i = account_balance ls i - fees_owed (ls_header ls) baseFee (f # txs) i"
    if "fees_owed (ls_header ls) baseFee (f # txs) i \<le> account_balance ls i" for i
  proof (cases "i = ?i")
    case True
    then have "?fee = fee_due (ls_header ls) baseFee f" using that fees_owed_nonneg [of "ls_header ls" baseFee txs i]
      by (simp add: fees_owed_Cons min_def del: fees_owed_nonneg)
    then show ?thesis using IH(5) [of i] that True bal by (simp add: fees_owed_Cons)
  qed (use IH(5) [of i] that bal in \<open>simp add: fees_owed_Cons\<close>)
  then show ?case using IH(1-4) step(1) inv(2) acc by (simp add: processFeesSeqNums_def)
qed

lemma sum_two: "(\<Sum>i \<in> UNIV. if i = (1 :: account_id) then a else if i = 2 then b else 0) = a + b" for a b :: int
proof -
  have "(\<Sum>i \<in> UNIV. if i = (1 :: account_id) then a else if i = 2 then b else 0) =
      (\<Sum>i \<in> {1 :: account_id, 2}. if i = 1 then a else if i = 2 then b else 0)"
    by (rule sum.mono_neutral_right) auto
  then show ?thesis by simp
qed

lemma ex_ledger_load:
  "account_balance (ex_ledger a b) i = (if i = 1 then a else if i = 2 then b else 0)"
  "i = 1 \<or> i = 2 \<Longrightarrow> i \<in> accounts (ex_ledger a b)"
  by (auto simp: account_balance_def accounts_def loadAccount_def ex_ledger_def ex_account_def)

lemma ex_ledger_total: "native_total (ex_ledger a b) = a + b + 500"
  unfolding native_total_def ex_ledger_load(1) sum_two by (simp add: ex_ledger_def ex_header_def)

theorem processFees_conserves_witness:
  "\<exists>ls'. processFeesSeqNums (ex_ledger 1000 70) [ex_tx 1 200 11 1000, ex_tx 2 100 11 5] 100 = Inr ls' \<and>
    native_total ls' = 1570 \<and> account_balance ls' 1 = 900"
proof -
  let ?txs = "[ex_tx 1 200 11 1000, ex_tx 2 100 11 5]"
  have v: "protocolVersionStartsFrom (lh_ledgerVersion (ls_header (ex_ledger 1000 70))) 10" by code_simp
  have ok: "balances_ok (ex_ledger 1000 70)"
    by (simp add: balances_ok_def ex_ledger_total ex_ledger_load INT64_MAX_def) (simp add: ex_ledger_def ex_header_def)
  have src: "map getFeeSourceID ?txs = [1, 2]" "list_all (fee_in_range 100) ?txs" by code_simp+
  then have txs: "\<forall>f \<in> set ?txs. getFeeSourceID f \<in> accounts (ex_ledger 1000 70) \<and> fee_in_range 100 f"
    by (simp add: ex_ledger_load)
  have owed: "fees_owed (ls_header (ex_ledger 1000 70)) 100 ?txs 1 = 100" by code_simp
  show ?thesis using processFees_conserves [OF v ok txs] owed by (auto simp: ex_ledger_total ex_ledger_load)
qed

end
