(* ===== verification/Tx_Fee_Rounding.thy ===== *)
theory Tx_Fee_Rounding
  imports Complex_Main Tx_Fees
begin

text \<open>
  The error of the percentage fee: a number is rounded to a \<^verbatim>\<open>double\<close> with a relative error of at most \<open>2\<^sup>-\<^sup>53\<close>, and small integers
  are exact.
\<close>

section \<open>Rounding to 53 bits\<close>

definition double_val :: "int \<times> int \<Rightarrow> real" where
  "double_val x = of_int (fst x) / of_int (snd x)"

lemma bitlength_bounds: "0 < n \<Longrightarrow> 2 ^ bitlength n \<le> 2 * n \<and> n < 2 ^ bitlength n"
proof (induction n rule: bitlength.induct)
  case (1 n)
  show ?case
  proof (cases "n = 1")
    case True
    then show ?thesis by (simp add: bitlength.simps)
  next
    case False
    then have "2 ^ bitlength (n div 2) \<le> 2 * (n div 2) \<and> n div 2 < 2 ^ bitlength (n div 2)" using 1 by simp
    then have "2 ^ bitlength (n div 2) \<le> n \<and> n < 2 * 2 ^ bitlength (n div 2)" by linarith
    then show ?thesis using 1(2) by (simp add: bitlength.simps [of n])
  qed
qed

lemma bitlength_pos: "0 < n \<Longrightarrow> 0 < bitlength n"
  by (simp add: bitlength.simps)

lemma roundHalfEven_error: "0 < d \<Longrightarrow> 2 * \<bar>roundHalfEven n d * d - n\<bar> \<le> d"
proof -
  assume d: "0 < d"
  have n: "n = n div d * d + n mod d" by simp
  have m: "0 \<le> n mod d" "n mod d < d" using d by simp_all
  have "roundHalfEven n d * d - n = (if 2 * (n mod d) < d \<or> 2 * (n mod d) = d \<and> even (n div d) then - (n mod d) else d - n mod d)"
    using n by (auto simp: roundHalfEven_def Let_def algebra_simps)
  then show ?thesis using m by (auto split: if_splits)
qed

lemma roundHalfEven_exact: "0 < d \<Longrightarrow> roundHalfEven (q * d) d = q"
  by (simp add: roundHalfEven_def Let_def)

text \<open>The scaled numerator has at least 52 bits more than the scaled denominator.\<close>

lemma scaled_large:
  assumes "0 < n" "0 < d" and "down + (53 + bitlength d) = up + bitlength n"
  shows "2 ^ 52 * (d * 2 ^ down) \<le> n * 2 ^ up"
proof -
  have "2 ^ 53 * (d * 2 ^ down) \<le> 2 ^ 53 * (2 ^ bitlength d * 2 ^ down)"
    using bitlength_bounds [OF assms(2)] by simp
  also have "\<dots> = 2 ^ (down + (53 + bitlength d))" by (simp add: power_add mult.commute)
  also have "\<dots> = 2 ^ bitlength n * 2 ^ up" unfolding assms(3) by (simp add: power_add)
  also have "\<dots> \<le> (2 * n) * 2 ^ up" using bitlength_bounds [OF assms(1)] by (intro mult_right_mono) auto
  finally show ?thesis by simp
qed

lemma round_relative:
  assumes "0 < d" "2 ^ 52 * d \<le> n"
  shows "2 ^ 53 * \<bar>roundHalfEven n d * d - n\<bar> \<le> n"
proof -
  have "2 ^ 53 * \<bar>roundHalfEven n d * d - n\<bar> = 2 ^ 52 * (2 * \<bar>roundHalfEven n d * d - n\<bar>)" by simp
  also have "\<dots> \<le> 2 ^ 52 * d" using roundHalfEven_error [OF assms(1)] by (intro mult_left_mono) auto
  finally show ?thesis using assms(2) by linarith
qed

lemma to_double_error:
  assumes "0 < n" "0 < d" "to_double (n, d) = (a, b)"
  shows "0 < b \<and> 2 ^ 53 * \<bar>a * d - n * b\<bar> \<le> n * b"
proof -
  let ?up = "53 + bitlength d - bitlength n" and ?down = "bitlength n - (53 + bitlength d)"
  let ?n = "n * 2 ^ ?up" and ?d = "d * 2 ^ ?down"
  have large: "2 ^ 52 * ?d \<le> ?n" using scaled_large [OF assms(1,2), of ?down ?up] by simp
  have d: "0 < ?d" using assms(2) by simp
  show ?thesis
  proof (cases "2 ^ 53 * ?d \<le> ?n")
    case True
    then have "to_double (n, d) = (roundHalfEven ?n (2 * ?d) * 2 * 2 ^ ?down, 2 ^ ?up)"
      using assms(1) by (simp add: to_double_def Let_def)
    then have ab: "a = roundHalfEven ?n (2 * ?d) * 2 * 2 ^ ?down" "b = 2 ^ ?up" unfolding assms(3) prod.inject by blast+
    have "2 ^ 52 * (2 * ?d) \<le> ?n" using True by simp
    then have "2 ^ 53 * \<bar>roundHalfEven ?n (2 * ?d) * (2 * ?d) - ?n\<bar> \<le> ?n" using d by (intro round_relative) auto
    then show ?thesis unfolding ab by (simp add: ac_simps)
  next
    case False
    then have "to_double (n, d) = (roundHalfEven ?n ?d * 2 ^ ?down, 2 ^ ?up)" using assms(1) by (simp add: to_double_def Let_def)
    then have ab: "a = roundHalfEven ?n ?d * 2 ^ ?down" "b = 2 ^ ?up" unfolding assms(3) prod.inject by blast+
    show ?thesis using round_relative [OF d large] unfolding ab by (simp add: ac_simps)
  qed
qed

lemma to_double_rel:
  assumes "0 \<le> n" "0 < d"
  shows "0 < snd (to_double (n, d))"
    and "\<bar>double_val (to_double (n, d)) - of_int n / of_int d\<bar> \<le> (of_int n / of_int d) / 2 ^ 53"
proof -
  obtain a b where ab: "to_double (n, d) = (a, b)" by fastforce
  have *: "0 < b \<and> \<bar>of_int a / of_int b - of_int n / of_int d\<bar> \<le> (of_int n / of_int d) / (2 ^ 53 :: real)"
  proof (cases "n = 0")
    case True
    then show ?thesis using ab by (simp add: to_double_def)
  next
    case False
    then have e: "0 < b" "2 ^ 53 * \<bar>a * d - n * b\<bar> \<le> n * b" using to_double_error [OF _ assms(2) ab] assms(1) by auto
    have "\<bar>of_int a / of_int b - of_int n / of_int d\<bar> = of_int \<bar>a * d - n * b\<bar> / (of_int b * of_int d :: real)"
      using e(1) assms(2) by (simp add: diff_frac_eq abs_mult)
    moreover have "2 ^ 53 * of_int \<bar>a * d - n * b\<bar> \<le> (of_int n * of_int b :: real)"
      using e(2) by (metis (no_types, lifting) of_int_le_iff of_int_mult of_int_numeral of_int_power)
    ultimately show ?thesis using e(1) assms(2) by (simp add: field_simps)
  qed
  then show "0 < snd (to_double (n, d))"
    "\<bar>double_val (to_double (n, d)) - of_int n / of_int d\<bar> \<le> (of_int n / of_int d) / 2 ^ 53"
    by (simp_all add: ab double_val_def)
qed

lemma to_double_exact:
  assumes "0 \<le> n" "n \<le> 2 ^ 53"
  shows "fst (to_double (n, 1)) = n * snd (to_double (n, 1))" "0 < snd (to_double (n, 1))"
proof -
  have one: "bitlength 1 = 1" by (simp add: bitlength.simps)
  have "fst (to_double (n, 1)) = n * snd (to_double (n, 1)) \<and> 0 < snd (to_double (n, 1))"
  proof (cases "n = 0")
    case False
    then have "(2 :: int) ^ bitlength n \<le> 2 ^ 54" using bitlength_bounds [of n] assms by auto
    then have len: "bitlength n \<le> 54" by (rule power_le_imp_le_exp [rotated]) simp
    show ?thesis
    proof (cases "bitlength n = 54")
      case True
      then have "2 ^ 54 \<le> 2 * n" using bitlength_bounds [of n] assms False by (metis order_le_imp_less_or_eq)
      then have "n = 2 ^ 53" using assms(2) by simp
      then show ?thesis using True roundHalfEven_exact [of 2 "2 ^ 52"] by (simp add: to_double_def one Let_def)
    next
      case False
      then obtain k where k: "54 - bitlength n = Suc k" using len by (metis Suc_diff_le diff_Suc_1 diff_is_0_eq le_SucE not0_implies_Suc)
      have "roundHalfEven (n * 2 ^ Suc k) 2 = n * 2 ^ k" using roundHalfEven_exact [of 2 "n * 2 ^ k"] by (simp add: ac_simps)
      moreover have "roundHalfEven (n * 2 ^ Suc k) 1 = n * 2 ^ Suc k" using roundHalfEven_exact [of 1] by simp
      ultimately show ?thesis using \<open>n \<noteq> 0\<close> len k by (simp add: to_double_def one Let_def)
    qed
  qed (simp add: to_double_def)
  then show "fst (to_double (n, 1)) = n * snd (to_double (n, 1))" "0 < snd (to_double (n, 1))" by simp_all
qed

section \<open>The percentage fee\<close>

lemma double_div_error:
  assumes "0 \<le> p" "p \<le> 2 ^ 53" "0 < q" "q \<le> 2 ^ 53"
  shows "0 < snd (double_div (to_double (p, 1)) (to_double (q, 1)))"
    and "\<bar>double_val (double_div (to_double (p, 1)) (to_double (q, 1))) - of_int p / of_int q\<bar> \<le> (of_int p / of_int q) / 2 ^ 53"
proof -
  obtain k l where kl: "to_double (p, 1) = (p * k, k)" "0 < k" "to_double (q, 1) = (q * l, l)" "0 < l"
    using to_double_exact [OF assms(1,2)] to_double_exact [of q] assms(3,4) by (metis less_le prod.collapse)
  have frac: "of_int (p * k * l) / of_int (k * (q * l)) = (of_int p / of_int q :: real)" using kl(2,4) by simp
  have "0 \<le> p * k * l" "0 < k * (q * l)" using kl(2,4) assms(1,3) by simp_all
  note rel = to_double_rel [OF this, unfolded frac]
  show "0 < snd (double_div (to_double (p, 1)) (to_double (q, 1)))"
    "\<bar>double_val (double_div (to_double (p, 1)) (to_double (q, 1))) - of_int p / of_int q\<bar> \<le> (of_int p / of_int q) / 2 ^ 53"
    using rel unfolding kl(1,3) by (simp_all add: double_div_def)
qed

lemma double_mult_error:
  assumes "0 \<le> a" "a \<le> 2 ^ 53" "0 < snd r" "0 \<le> fst r"
  shows "0 < snd (double_mult (to_double (a, 1)) r)"
    and "\<bar>double_val (double_mult (to_double (a, 1)) r) - of_int a * double_val r\<bar> \<le> (of_int a * double_val r) / 2 ^ 53"
proof -
  obtain k where k: "to_double (a, 1) = (a * k, k)" "0 < k" using to_double_exact [OF assms(1,2)] by (metis prod.collapse)
  have frac: "of_int (a * k * fst r) / of_int (k * snd r) = of_int a * double_val r" using k(2) assms(3) by (simp add: double_val_def)
  have "0 \<le> a * k * fst r" "0 < k * snd r" using k(2) assms by simp_all
  note rel = to_double_rel [OF this, unfolded frac]
  show "0 < snd (double_mult (to_double (a, 1)) r)"
    "\<bar>double_val (double_mult (to_double (a, 1)) r) - of_int a * double_val r\<bar> \<le> (of_int a * double_val r) / 2 ^ 53"
    using rel unfolding k(1) by (simp_all add: double_mult_def)
qed

lemma two_errors:
  fixes r p x a e :: real
  assumes "\<bar>r - p\<bar> \<le> p * e" "\<bar>x - a * r\<bar> \<le> (a * r) * e" "0 \<le> a" "0 \<le> p" "0 \<le> e"
  shows "\<bar>x - a * p\<bar> \<le> a * p * (2 * e + e * e)"
proof -
  have ar: "\<bar>a * r - a * p\<bar> \<le> a * p * e"
    using mult_left_mono [OF assms(1,3)] assms(3) by (simp add: abs_mult right_diff_distrib [symmetric] mult.assoc)
  then have "a * r * e \<le> (a * p + a * p * e) * e" using assms(5) by (intro mult_right_mono) auto
  then show ?thesis using ar assms(2) by (simp add: algebra_simps)
qed

lemma floor_near: "\<bar>x - y\<bar> < 1 \<Longrightarrow> \<bar>\<lfloor>x\<rfloor> - \<lfloor>y\<rfloor>\<bar> \<le> 1" for x y :: real
  by linarith

lemma double_val_nonneg: "0 < snd r \<Longrightarrow> \<bar>double_val r - v\<bar> \<le> v / 2 ^ 53 \<Longrightarrow> 0 \<le> v \<Longrightarrow> 0 \<le> fst r"
proof -
  assume r: "0 < snd r" "\<bar>double_val r - v\<bar> \<le> v / 2 ^ 53" "0 \<le> v"
  have "v / 2 ^ 53 \<le> v" using r(3) by (simp add: divide_le_eq)
  then have "0 \<le> double_val r" using r(2) by linarith
  then show ?thesis using r(1) by (simp add: double_val_def zero_le_divide_iff)
qed

text \<open>C21: the percentage fee differs from the exact one, rounded down, by at most 1, as long as the amount is at most \<open>2\<^sup>5\<^sup>3\<close>
  and the fee at most \<open>2\<^sup>5\<^sup>1\<close>.  The difference occurs: 45 basis points of 200000 are 900, and the code computes 899.\<close>

theorem percentageFee_bound:
  assumes "0 \<le> totalAmount" "totalAmount \<le> 2 ^ 53" "totalAmount * uint percentage \<le> 10000 * 2 ^ 51"
  shows "\<bar>percentageFee percentage totalAmount - totalAmount * uint percentage div 10000\<bar> \<le> 1"
proof (cases "totalAmount = 0")
  case False
  let ?a = totalAmount
  define p where "p = uint percentage"
  define r where "r = double_div (to_double (p, 1)) (to_double (10000, 1))"
  define x where "x = double_mult (to_double (?a, 1)) r"
  have "p < 2 ^ 32" using uint_lt2p [of percentage] by (simp add: p_def)
  then have p: "0 \<le> p" "p \<le> 2 ^ 53" by (simp_all add: p_def)
  have r: "0 < snd r" "\<bar>double_val r - of_int p / 10000\<bar> \<le> (of_int p / 10000) / 2 ^ 53"
    using double_div_error [OF p, of 10000] by (simp_all add: r_def)
  have r0: "0 \<le> fst r" using double_val_nonneg [OF r] p(1) by simp
  note x = double_mult_error [OF assms(1,2) r(1) r0, folded x_def]
  have exact: "of_int ?a * (of_int p / 10000) = (of_int (?a * p) / 10000 :: real)" by simp
  have "of_int (?a * p) \<le> (10000 * 2 ^ 51 :: real)" using assms(3) [folded p_def] by (metis of_int_le_iff of_int_mult of_int_numeral of_int_power)
  then have small: "of_int (?a * p) / 10000 \<le> (2 ^ 51 :: real)" by simp
  have "\<bar>double_val x - of_int (?a * p) / 10000\<bar> \<le> of_int (?a * p) / 10000 * (2 * (1 / 2 ^ 53) + 1 / 2 ^ 53 * (1 / 2 ^ 53))"
    unfolding exact [symmetric] by (rule two_errors [of "double_val r"]) (use r(2) x(2) assms(1) p(1) in \<open>simp_all\<close>)
  also have "\<dots> \<le> 2 ^ 51 * (2 * (1 / 2 ^ 53) + 1 / 2 ^ 53 * (1 / 2 ^ 53))" using small by (intro mult_right_mono) auto
  also have "\<dots> < (1 :: real)" by simp
  finally have "\<bar>\<lfloor>double_val x\<rfloor> - \<lfloor>of_int (?a * p) / (10000 :: real)\<rfloor>\<bar> \<le> 1" by (rule floor_near)
  moreover have "\<lfloor>double_val x\<rfloor> = double_trunc x" by (simp add: double_val_def double_trunc_def floor_divide_of_int_eq)
  moreover have "\<lfloor>of_int (?a * p) / (10000 :: real)\<rfloor> = ?a * p div 10000" using floor_divide_of_int_eq [of "?a * p" 10000] by simp
  ultimately show ?thesis using False assms(1) by (simp add: percentageFee_def r_def x_def p_def BASIS_POINTS_TO_PERCENT_def)
qed (simp add: percentageFee_def)

theorem percentageFee_bound_witness:
  "\<bar>percentageFee 45 200000 - 900\<bar> \<le> 1 \<and> percentageFee 45 200000 = 899 \<and> (200000 * 45 div 10000 :: int) = 900"
proof -
  have "percentageFee 45 200000 = 899" by code_simp
  then show ?thesis using percentageFee_bound [of 200000 45] by simp
qed

end
