(* ===== verification/Tx_Signatures_Sound.thy ===== *)
theory Tx_Signatures_Sound
  imports Tx_Examples "HOL-Library.Multiset"
begin

text \<open>
  An account has only signed a transaction if enough of its signers have: the signers that the check counts are
  distinct, each approved the transaction, and their weights add up to what is needed.
\<close>

section \<open>The loops of the check\<close>

definition approves :: "crypto \<Rightarrow> hash \<Rightarrow> decorated_signature list \<Rightarrow> signer \<Rightarrow> bool" where
  "approves cr h sigs s =
     (case signer_key s of
        SIGNER_KEY_TYPE_PRE_AUTH_TX k \<Rightarrow> k = h
      | SIGNER_KEY_TYPE_HASH_X k \<Rightarrow> list_ex (\<lambda>sig. ds_hint sig = ucast k \<and> sha256 cr (ds_signature sig) = k) sigs
      | SIGNER_KEY_TYPE_ED25519 k \<Rightarrow> list_ex (\<lambda>sig. ds_hint sig = ucast k \<and> verify_detached cr k (ds_signature sig) h) sigs)"

lemma takeSigner_Some: "takeSigner ok ss = Some (s, rest) \<Longrightarrow> ok s \<and> mset ss = add_mset s (mset rest)"
  by (induction ss arbitrary: rest) (auto split: if_splits option.splits)

lemma subset_add_mset: "S \<subseteq># T \<Longrightarrow> S \<subseteq># add_mset x T"
  by (simp add: subseteq_mset_def le_SucI)

lemma preAuthLoop_sound:
  assumes "preAuthLoop v h needed ss w = (ok, w')"
  shows "\<exists>S. S \<subseteq># mset ss \<and> (\<forall>s \<in># S. signer_key s = SIGNER_KEY_TYPE_PRE_AUTH_TX h) \<and>
    w' = w + (\<Sum>s \<in># S. signerWeight v s) \<and> (ok \<longrightarrow> S \<noteq> {#} \<and> needed \<le> sint w')"
  using assms
proof (induction ss arbitrary: w)
  case (Cons s ss)
  show ?case
  proof (cases "signer_key s = SIGNER_KEY_TYPE_PRE_AUTH_TX h")
    case key: True
    let ?w = "w + signerWeight v s"
    show ?thesis
    proof (cases "needed \<le> sint ?w")
      case True
      then show ?thesis using Cons.prems key by (intro exI [of _ "{#s#}"]) auto
    next
      case False
      then have "preAuthLoop v h needed ss ?w = (ok, w')" using Cons.prems key by simp
      then obtain S where "S \<subseteq># mset ss \<and> (\<forall>s \<in># S. signer_key s = SIGNER_KEY_TYPE_PRE_AUTH_TX h) \<and>
          w' = ?w + (\<Sum>s \<in># S. signerWeight v s) \<and> (ok \<longrightarrow> S \<noteq> {#} \<and> needed \<le> sint w')"
        using Cons.IH by blast
      then show ?thesis using key by (intro exI [of _ "add_mset s S"]) (auto simp: add.assoc)
    qed
  next
    case False
    then have "preAuthLoop v h needed ss w = (ok, w')" using Cons.prems by simp
    then obtain S where "S \<subseteq># mset ss \<and> (\<forall>s \<in># S. signer_key s = SIGNER_KEY_TYPE_PRE_AUTH_TX h) \<and>
        w' = w + (\<Sum>s \<in># S. signerWeight v s) \<and> (ok \<longrightarrow> S \<noteq> {#} \<and> needed \<le> sint w')"
      using Cons.IH by blast
    then show ?thesis by (intro exI [of _ S]) (auto intro: subset_add_mset)
  qed
qed simp

lemma verifyAll_sound:
  assumes "verifyAll verify v needed i sigs ss w used = (ok, w', used')"
  shows "\<exists>S. S \<subseteq># mset ss \<and> (\<forall>s \<in># S. list_ex (\<lambda>sig. verify sig s) sigs) \<and>
    w' = w + (\<Sum>s \<in># S. signerWeight v s) \<and> (ok \<longrightarrow> S \<noteq> {#} \<and> needed \<le> sint w')"
  using assms
proof (induction sigs arbitrary: i ss w used)
  case (Cons sig sigs)
  show ?case
  proof (cases "takeSigner (verify sig) ss")
    case None
    then have "verifyAll verify v needed (Suc i) sigs ss w used = (ok, w', used')" using Cons.prems by simp
    then obtain S where "S \<subseteq># mset ss \<and> (\<forall>s \<in># S. list_ex (\<lambda>sig. verify sig s) sigs) \<and>
        w' = w + (\<Sum>s \<in># S. signerWeight v s) \<and> (ok \<longrightarrow> S \<noteq> {#} \<and> needed \<le> sint w')"
      using Cons.IH by blast
    then show ?thesis by (intro exI [of _ S]) auto
  next
    case (Some p)
    obtain s rest where p: "p = (s, rest)" by fastforce
    note take = takeSigner_Some [OF Some [unfolded p]]
    let ?w = "w + signerWeight v s"
    show ?thesis
    proof (cases "needed \<le> sint ?w")
      case True
      then show ?thesis using Cons.prems Some p take by (intro exI [of _ "{#s#}"]) (auto simp: Let_def)
    next
      case False
      then have "verifyAll verify v needed (Suc i) sigs rest ?w (used[i := True]) = (ok, w', used')"
        using Cons.prems Some p by (simp add: Let_def)
      then obtain S where "S \<subseteq># mset rest \<and> (\<forall>s \<in># S. list_ex (\<lambda>sig. verify sig s) sigs) \<and>
          w' = ?w + (\<Sum>s \<in># S. signerWeight v s) \<and> (ok \<longrightarrow> S \<noteq> {#} \<and> needed \<le> sint w')"
        using Cons.IH by blast
      then show ?thesis using take by (intro exI [of _ "add_mset s S"]) (auto simp: add.assoc)
    qed
  qed
qed simp

section \<open>Weights\<close>

lemma signerWeight_capped:
  "protocolVersionStartsFrom v 10 \<Longrightarrow> uint (signerWeight v s) = min (uint (signer_weight s)) 255"
  by (simp add: signerWeight_def word_less_def min_def)

lemma uint_sum_weights:
  assumes "protocolVersionStartsFrom v 10" "size S \<le> 1000"
  shows "uint (\<Sum>s \<in># S. signerWeight v s) = (\<Sum>s \<in># S. min (uint (signer_weight s)) 255) \<and>
    (\<Sum>s \<in># S. min (uint (signer_weight s)) 255) \<le> 255 * int (size S)"
  using assms(2)
proof (induction S)
  case (add s S)
  then have IH: "uint (\<Sum>s \<in># S. signerWeight v s) = (\<Sum>s \<in># S. min (uint (signer_weight s)) 255)"
    "(\<Sum>s \<in># S. min (uint (signer_weight s)) 255) \<le> 255 * int (size S)" by auto
  let ?a = "uint (signerWeight v s)" and ?b = "uint (\<Sum>s \<in># S. signerWeight v s)"
  have "?a \<le> 255" using signerWeight_capped [OF assms(1)] by simp
  moreover have "?b \<le> 255000" using IH add.prems by simp
  ultimately have "uint (signerWeight v s + (\<Sum>s \<in># S. signerWeight v s)) = ?a + ?b"
    by (simp add: uint_word_ariths)
  then show ?case using IH signerWeight_capped [OF assms(1)] by simp
qed simp

lemma sint_small32: "uint w < 2 ^ 31 \<Longrightarrow> sint w = uint w" for w :: uint32
  by (simp add: sint_uint, rule signed_take_bit_int_eq_self) (auto intro: order_trans [OF _ uint_ge_0])

section \<open>The check\<close>

lemma filter_keys_mset:
  "mset (filter (\<lambda>s. isPreAuthKey (signer_key s)) ss) + mset (filter (\<lambda>s. isHashXKey (signer_key s)) ss) +
     mset (filter (\<lambda>s. isEd25519Key (signer_key s)) ss) = mset ss"
proof (induction ss)
  case (Cons s ss)
  then show ?case by (cases "signer_key s") auto
qed simp

lemma approves_hashX:
  "isHashXKey (signer_key s) \<Longrightarrow> list_ex (\<lambda>sig. verifyHashX cr sig (keyBytes (signer_key s))) sigs \<Longrightarrow> approves cr h sigs s"
  by (cases "signer_key s") (auto simp: approves_def verifyHashX_def doesHintMatch_def list_ex_iff split: if_splits)

lemma approves_ed25519:
  "isEd25519Key (signer_key s) \<Longrightarrow> list_ex (\<lambda>sig. verify_sig cr sig (keyBytes (signer_key s)) h) sigs \<Longrightarrow> approves cr h sigs s"
  by (cases "signer_key s") (auto simp: approves_def verify_sig_def doesHintMatch_def list_ex_iff split: if_splits)

lemma checkSignature_signers:
  assumes "sc_protocolVersion sc \<noteq> 7" "SignatureChecker_checkSignature cr sc ss needed = (True, sc')"
  shows "\<exists>S. S \<subseteq># mset ss \<and> S \<noteq> {#} \<and> (\<forall>s \<in># S. approves cr (sc_contentsHash sc) (sc_signatures sc) s) \<and>
    needed \<le> sint (\<Sum>s \<in># S. signerWeight (sc_protocolVersion sc) s)"
proof -
  let ?v = "sc_protocolVersion sc" and ?h = "sc_contentsHash sc" and ?sigs = "sc_signatures sc"
  let ?pre = "filter (\<lambda>s. isPreAuthKey (signer_key s)) ss" and ?hx = "filter (\<lambda>s. isHashXKey (signer_key s)) ss"
    and ?ed = "filter (\<lambda>s. isEd25519Key (signer_key s)) ss"
  obtain ok1 w1 where l1: "preAuthLoop ?v ?h needed ?pre 0 = (ok1, w1)" by fastforce
  obtain ok2 w2 u2 where l2: "verifyAll (\<lambda>sig s. verifyHashX cr sig (keyBytes (signer_key s))) ?v needed 0 ?sigs ?hx w1
      (sc_usedSignatures sc) = (ok2, w2, u2)" by (metis prod_cases3)
  obtain ok3 w3 u3 where l3: "verifyAll (\<lambda>sig s. verify_sig cr sig (keyBytes (signer_key s)) ?h) ?v needed 0 ?sigs ?ed w2 u2 =
      (ok3, w3, u3)" by (metis prod_cases3)
  obtain S1 where S1: "S1 \<subseteq># mset ?pre" "\<forall>s \<in># S1. signer_key s = SIGNER_KEY_TYPE_PRE_AUTH_TX ?h"
      "w1 = (\<Sum>s \<in># S1. signerWeight ?v s)" "ok1 \<longrightarrow> S1 \<noteq> {#} \<and> needed \<le> sint w1"
    using preAuthLoop_sound [OF l1] by auto
  obtain S2 where S2: "S2 \<subseteq># mset ?hx" "\<forall>s \<in># S2. list_ex (\<lambda>sig. verifyHashX cr sig (keyBytes (signer_key s))) ?sigs"
      "w2 = w1 + (\<Sum>s \<in># S2. signerWeight ?v s)" "ok2 \<longrightarrow> S2 \<noteq> {#} \<and> needed \<le> sint w2"
    using verifyAll_sound [OF l2] by auto
  obtain S3 where S3: "S3 \<subseteq># mset ?ed" "\<forall>s \<in># S3. list_ex (\<lambda>sig. verify_sig cr sig (keyBytes (signer_key s)) ?h) ?sigs"
      "w3 = w2 + (\<Sum>s \<in># S3. signerWeight ?v s)" "ok3 \<longrightarrow> S3 \<noteq> {#} \<and> needed \<le> sint w3"
    using verifyAll_sound [OF l3] by auto
  have sub: "S1 + S2 + S3 \<subseteq># mset ss"
    using subset_mset.add_mono [OF subset_mset.add_mono [OF S1(1) S2(1)] S3(1)] unfolding filter_keys_mset .
  have a1: "approves cr ?h ?sigs s" if "s \<in># S1" for s using S1(2) that by (simp add: approves_def)
  have a2: "approves cr ?h ?sigs s" if "s \<in># S2" for s
    using S2(2) mset_subset_eqD [OF S2(1) that] that by (intro approves_hashX) auto
  have a3: "approves cr ?h ?sigs s" if "s \<in># S3" for s
    using S3(2) mset_subset_eqD [OF S3(1) that] that by (intro approves_ed25519) auto
  consider "ok1" | "\<not> ok1" "ok2" | "\<not> ok1" "\<not> ok2" "ok3"
    using assms l1 l2 l3 by (auto simp: SignatureChecker_checkSignature_def Let_def split: if_splits)
  then show ?thesis
  proof cases
    case 1
    have "S1 \<subseteq># mset ss" using sub by (metis add.assoc mset_subset_eq_add_left subset_mset.order_trans)
    then show ?thesis using 1 S1 a1 by (intro exI [of _ S1]) auto
  next
    case 2
    have "S1 + S2 \<subseteq># mset ss" using sub by (metis mset_subset_eq_add_left subset_mset.order_trans)
    then show ?thesis using 2 S1(3) S2 a1 a2 by (intro exI [of _ "S1 + S2"]) auto
  next
    case 3
    then show ?thesis using sub S1(3) S2(3) S3 a1 a2 a3 by (intro exI [of _ "S1 + S2 + S3"]) (auto simp: add.assoc)
  qed
qed

lemma checkSignature_signers_weight:
  assumes "protocolVersionStartsFrom (sc_protocolVersion sc) 10" "length signers \<le> 1000"
    and "SignatureChecker_checkSignature cr sc signers neededWeight = (True, sc')"
  shows "\<exists>S. S \<subseteq># mset signers \<and> S \<noteq> {#} \<and>
    (\<forall>s \<in># S. approves cr (sc_contentsHash sc) (sc_signatures sc) s) \<and>
    neededWeight \<le> (\<Sum>s \<in># S. min (uint (signer_weight s)) 255)"
proof -
  have "sc_protocolVersion sc \<noteq> 7" using assms(1) by (auto simp: protocolVersionStartsFrom_def)
  then obtain S where S: "S \<subseteq># mset signers" "S \<noteq> {#}" "\<forall>s \<in># S. approves cr (sc_contentsHash sc) (sc_signatures sc) s"
    "neededWeight \<le> sint (\<Sum>s \<in># S. signerWeight (sc_protocolVersion sc) s)"
    using checkSignature_signers [OF _ assms(3)] by blast
  have "size S \<le> 1000" using size_mset_mono [OF S(1)] assms(2) by simp
  note sum = uint_sum_weights [OF assms(1) this]
  have "sint (\<Sum>s \<in># S. signerWeight (sc_protocolVersion sc) s) = (\<Sum>s \<in># S. min (uint (signer_weight s)) 255)"
    using sum \<open>size S \<le> 1000\<close> by (subst sint_small32) auto
  then show ?thesis using S by auto
qed

text \<open>C20: if the check of the signatures for a list of signers succeeds, some of these signers, counted once each and at least
  one, approved the transaction, by a signature of its hash, by the preimage of a hash or in advance, and their
  weights, of which each counts 255 at most, add up to the weight that is needed.  The sum does not wrap.\<close>

theorem checkSignature_sound:
  assumes "protocolVersionStartsFrom (sc_protocolVersion sc) 10" "length signers \<le> 1000"
    and "SignatureChecker_checkSignature cr sc signers neededWeight = (True, sc')"
  shows "\<exists>S. S \<subseteq># mset signers \<and> S \<noteq> {#} \<and>
    (\<forall>s \<in># S. approves cr (sc_contentsHash sc) (sc_signatures sc) s) \<and>
    neededWeight \<le> (\<Sum>s \<in># S. min (uint (signer_weight s)) 255)"
  by (rule checkSignature_signers_weight [OF assms])

definition ex_signers :: "signer list" where
  "ex_signers = [\<lparr>signer_key = SIGNER_KEY_TYPE_ED25519 1, signer_weight = 1\<rparr>, \<lparr>signer_key = SIGNER_KEY_TYPE_PRE_AUTH_TX 9, signer_weight = 300\<rparr>]"

definition ex_checker :: signature_checker where
  "ex_checker = new_SignatureChecker 18 9 [\<lparr>ds_hint = 1, ds_signature = [1]\<rparr>]"

theorem checkSignature_sound_witness:
  "\<exists>S. S \<subseteq># mset ex_signers \<and> S \<noteq> {#} \<and> 256 \<le> (\<Sum>s \<in># S. min (uint (signer_weight s)) 255)"
proof -
  have "protocolVersionStartsFrom (sc_protocolVersion ex_checker) 10" "length ex_signers \<le> 1000"
    "fst (SignatureChecker_checkSignature ex_crypto ex_checker ex_signers 256)" by code_simp+
  then show ?thesis using checkSignature_sound [of ex_checker ex_signers ex_crypto 256] by (metis prod.collapse)
qed

end
