(* ===== verification/Tx_Validity.thy ===== *)
theory Tx_Validity
  imports Tx_Signatures_Sound
begin

text \<open>
  What a transaction that passed the check satisfies, and a fee bump on which the check itself fails.
\<close>

section \<open>Transactions\<close>

definition in_time :: "ledger_header \<Rightarrow> transaction \<Rightarrow> uint64 \<Rightarrow> uint64 \<Rightarrow> bool" where
  "in_time header tx lowerOffset upperOffset \<longleftrightarrow>
     (case tx_timeBounds tx of
        None \<Rightarrow> True
      | Some tb \<Rightarrow> (minTime tb = 0 \<or> minTime tb \<le> sv_closeTime (lh_scpValue header) + lowerOffset) \<and>
          (maxTime tb = 0 \<or> sv_closeTime (lh_scpValue header) + upperOffset \<le> maxTime tb))"

lemma in_time_iff: "in_time header tx lo up \<longleftrightarrow> \<not> isTooEarly header tx lo \<and> \<not> isTooLate header tx up"
  by (auto simp: in_time_def isTooEarly_def isTooLate_def not_less split: option.split)

lemma commonValidPreSeqNum_success:
  assumes "commonValidPreSeqNum ls env True lo up = Inr txSUCCESS" "protocolVersionStartsFrom (lh_ledgerVersion (ls_header ls)) 13"
  shows "\<not> isV0 (env_source env)" "tx_operations (env_tx env) \<noteq> []" "in_time (ls_header ls) (env_tx env) lo up"
    "\<exists>m. getMinFee_tx (ls_header ls) (env_tx env) = Inr m \<and> m \<le> getFeeBid_tx (env_tx env)"
  using assms by (auto simp: commonValidPreSeqNum_def Let_def in_time_iff seq_Inr_iff getNumOperations_tx_def split: if_splits)

lemma isBadSeq_False:
  assumes "isBadSeq header tx n = Inr False"
  shows "tx_seqNum tx = n + 1" "tx_seqNum tx \<noteq> uint (lh_ledgerSeq header) * 2 ^ 32"
  using assms by (auto simp: isBadSeq_def seq_Inr_iff getStartingSequenceNumber_def split: if_splits)

lemma commonValid_success:
  assumes "commonValid cr ls env current False True lo up sc = Inr (kMaybeValid, code, sc')"
  shows "commonValidPreSeqNum ls env True lo up = Inr txSUCCESS \<and> code = txSUCCESS \<and>
    (\<exists>le acc b. loadAccount ls (getSourceID_env env) = Some (le, acc) \<and>
      isBadSeq (ls_header ls) (env_tx env) (if current = 0 then ae_seqNum acc else current) = Inr False \<and>
      checkSignature cr sc acc (uint (THRESHOLD_LOW (ae_thresholds acc))) = (True, sc') \<and>
      getAvailableBalance (ls_header ls) le = Inr b \<and> feeToPay (ls_header ls) (env_tx env) False \<le> b)"
proof -
  obtain c where c: "commonValidPreSeqNum ls env True lo up = Inr c"
    using assms by (auto simp: commonValid_def Let_def seq_Inr_iff)
  have [simp]: "c = txSUCCESS" using assms c by (auto simp: commonValid_def Let_def split: if_splits)
  obtain le acc where load: "loadAccount ls (getSourceID_env env) = Some (le, acc)"
    using assms c by (auto simp: commonValid_def Let_def split: option.splits)
  show ?thesis
    using assms c load
    by (auto simp: commonValid_def Let_def seq_Inr_iff not_less split: if_splits prod.splits)
qed

lemma op_checkValid_success:
  "op_checkValid cr ls env op False sc = Inr (opINNER_SUCCESS, sc') \<Longrightarrow>
    isOpSupported (op_body op) (ls_header ls) \<and>
    doCheckValid (op_getSourceID env op) (lh_ledgerVersion (ls_header ls)) (op_body op) = Inr opINNER_SUCCESS"
  by (auto simp: op_checkValid_def Let_def seq_Inr_iff split: if_splits prod.splits)

lemma checkOps_success:
  "checkOps cr ls env ops i res sc = Inr (True, res', sc') \<Longrightarrow> op \<in> set ops \<Longrightarrow>
    isOpSupported (op_body op) (ls_header ls) \<and>
    doCheckValid (op_getSourceID env op) (lh_ledgerVersion (ls_header ls)) (op_body op) = Inr opINNER_SUCCESS"
proof (induction ops arbitrary: i res sc)
  case (Cons a ops)
  obtain r sc1 where r: "op_checkValid cr ls env a False sc = Inr (r, sc1)" "r = opINNER_SUCCESS"
    "checkOps cr ls env ops (Suc i) (res\<lparr>tr_results := (tr_results res)[i := r]\<rparr>) sc1 = Inr (True, res', sc')"
    using Cons.prems(1) by (auto simp: seq_Inr_iff Let_def split: if_splits)
  then show ?case using Cons.IH [OF r(3)] Cons.prems(2) op_checkValid_success [of cr ls env a sc sc1] by auto
qed simp

lemma checkValid_tx_success:
  assumes "checkValid_tx cr ls env current True lo up = Inr (True, res)"
  obtains sc where
    "commonValid cr ls env current False True lo up
       (new_SignatureChecker (lh_ledgerVersion (ls_header ls)) (getContentsHash_env cr env) (env_signatures env)) =
       Inr (kMaybeValid, txSUCCESS, sc)"
    "\<And>op. op \<in> set (tx_operations (env_tx env)) \<Longrightarrow> isOpSupported (op_body op) (ls_header ls) \<and>
       doCheckValid (op_getSourceID env op) (lh_ledgerVersion (ls_header ls)) (op_body op) = Inr opINNER_SUCCESS"
proof -
  obtain res0 cv code sc res' sc' where *:
    "commonValid cr ls env current False True lo up
       (new_SignatureChecker (lh_ledgerVersion (ls_header ls)) (getContentsHash_env cr env) (env_signatures env)) = Inr (cv, code, sc)"
    "cv = kMaybeValid" "checkOps cr ls env (tx_operations (env_tx env)) 0 res0 sc = Inr (True, res', sc')"
    using assms by (auto simp: checkValid_tx_def Let_def seq_Inr_iff split: if_splits)
  show thesis
  proof (rule that)
    show "commonValid cr ls env current False True lo up
       (new_SignatureChecker (lh_ledgerVersion (ls_header ls)) (getContentsHash_env cr env) (env_signatures env)) =
       Inr (kMaybeValid, txSUCCESS, sc)"
      using * commonValid_success by blast
  qed (use checkOps_success [OF *(3)] in blast)
qed

text \<open>The signers of an account that approved a transaction have enough weight.\<close>

definition approved :: "crypto \<Rightarrow> tx_envelope \<Rightarrow> account_entry \<Rightarrow> int \<Rightarrow> bool" where
  "approved cr env acc needed \<longleftrightarrow>
     (\<exists>S. S \<subseteq># mset (account_signers acc) \<and> S \<noteq> {#} \<and>
       (\<forall>s \<in># S. approves cr (getContentsHash_env cr env) (env_signatures env) s) \<and>
       needed \<le> (\<Sum>s \<in># S. min (uint (signer_weight s)) 255))"

text \<open>C16: a transaction that passes the check has operations, all of them supported and well formed; it is in its time
  bounds; its bid is at least the minimum fee; its sequence number is the next one of its source account, and not the
  first one of the ledger; its source account exists and signers of it with enough weight approved the transaction.  The available
  balance of the account is only known to cover the bid modulo \<open>2\<^sup>3\<^sup>2\<close>.\<close>

theorem checkValid_accepts:
  assumes "protocolVersionStartsFrom (lh_ledgerVersion (ls_header ls)) 13"
    and "checkValid_tx cr ls env current True lowerOffset upperOffset = Inr (True, res)"
    and "\<And>i le acc. loadAccount ls i = Some (le, acc) \<Longrightarrow> length (ae_signers acc) \<le> 20"
  shows "\<exists>le acc minFee avail.
    loadAccount ls (getSourceID_env env) = Some (le, acc) \<and> \<not> isV0 (env_source env) \<and> tx_operations (env_tx env) \<noteq> [] \<and>
    in_time (ls_header ls) (env_tx env) lowerOffset upperOffset \<and>
    getMinFee_tx (ls_header ls) (env_tx env) = Inr minFee \<and> minFee \<le> getFeeBid_tx (env_tx env) \<and>
    tx_seqNum (env_tx env) = (if current = 0 then ae_seqNum acc else current) + 1 \<and>
    tx_seqNum (env_tx env) \<noteq> uint (lh_ledgerSeq (ls_header ls)) * 2 ^ 32 \<and>
    approved cr env acc (uint (THRESHOLD_LOW (ae_thresholds acc))) \<and>
    getAvailableBalance (ls_header ls) le = Inr avail \<and> uint (tx_fee (env_tx env)) mod 2 ^ 32 \<le> avail \<and>
    (\<forall>op \<in> set (tx_operations (env_tx env)). isOpSupported (op_body op) (ls_header ls) \<and>
      doCheckValid (op_getSourceID env op) (lh_ledgerVersion (ls_header ls)) (op_body op) = Inr opINNER_SUCCESS)"
proof -
  let ?sc = "new_SignatureChecker (lh_ledgerVersion (ls_header ls)) (getContentsHash_env cr env) (env_signatures env)"
  obtain sc where cv: "commonValid cr ls env current False True lowerOffset upperOffset ?sc = Inr (kMaybeValid, txSUCCESS, sc)"
    and ops: "\<And>op. op \<in> set (tx_operations (env_tx env)) \<Longrightarrow> isOpSupported (op_body op) (ls_header ls) \<and>
       doCheckValid (op_getSourceID env op) (lh_ledgerVersion (ls_header ls)) (op_body op) = Inr opINNER_SUCCESS"
    by (rule checkValid_tx_success [OF assms(2)]) blast
  obtain le acc b where acc: "loadAccount ls (getSourceID_env env) = Some (le, acc)"
    and bad: "isBadSeq (ls_header ls) (env_tx env) (if current = 0 then ae_seqNum acc else current) = Inr False"
    and sig: "checkSignature cr ?sc acc (uint (THRESHOLD_LOW (ae_thresholds acc))) = (True, sc)"
    and bal: "getAvailableBalance (ls_header ls) le = Inr b" "feeToPay (ls_header ls) (env_tx env) False \<le> b"
    and pre: "commonValidPreSeqNum ls env True lowerOffset upperOffset = Inr txSUCCESS"
    using commonValid_success [OF cv] by blast
  have v: "protocolVersionStartsFrom (sc_protocolVersion ?sc) 10"
    using assms(1) by (auto simp: new_SignatureChecker_def protocolVersionStartsFrom_def elim: order_trans [rotated])
  have len: "length (account_signers acc) \<le> 1000" using assms(3) [OF acc] by (simp add: account_signers_def)
  have "approved cr env acc (uint (THRESHOLD_LOW (ae_thresholds acc)))"
    using checkSignature_signers_weight [OF v len sig [unfolded checkSignature_def]]
    by (simp add: approved_def new_SignatureChecker_def)
  moreover have "uint (tx_fee (env_tx env)) mod 2 ^ 32 \<le> b"
    using bal(2) by (simp add: feeToPay_def unsigned_ucast_eq take_bit_eq_mod)
  ultimately show ?thesis
    using commonValidPreSeqNum_success [OF pre assms(1)] isBadSeq_False [OF bad] acc bal(1) ops by blast
qed

definition returns_True :: "'e + bool \<times> 'a \<Rightarrow> bool" where
  "returns_True r = (case r of Inl e \<Rightarrow> False | Inr (b, x) \<Rightarrow> b)"

text \<open>The account has 0.01 coins above its reserve, and a bid of \<open>2\<^sup>3\<^sup>2 + 200\<close> is accepted.\<close>

theorem checkValid_accepts_witness:
  "\<exists>avail. getAvailableBalance ex_header (ex_account 1 10100000) = Inr avail \<and> 200 \<le> avail \<and> avail = 100000 \<and>
    (\<exists>res. checkValid_tx ex_crypto (ex_ledger 10100000 0) (ex_payment 1 (2 ^ 32 + 200) 11 1000) 0 True 0 0 = Inr (True, res))"
proof -
  let ?env = "ex_payment 1 (2 ^ 32 + 200) 11 1000" and ?ls = "ex_ledger 10100000 0"
  have v: "protocolVersionStartsFrom (lh_ledgerVersion (ls_header ?ls)) 13" by code_simp
  have "returns_True (checkValid_tx ex_crypto ?ls ?env 0 True 0 0)" by code_simp
  then obtain res where ok: "checkValid_tx ex_crypto ?ls ?env 0 True 0 0 = Inr (True, res)"
    by (auto simp: returns_True_def split: sum.splits)
  have len: "length (ae_signers acc) \<le> 20" if "loadAccount ?ls i = Some (le, acc)" for i le acc
    using that by (auto simp: loadAccount_def ex_ledger_def ex_account_def split: if_splits)
  have src: "getSourceID_env ?env = 1" "uint (tx_fee (env_tx ?env)) mod 2 ^ 32 = 200" by code_simp+
  have load: "loadAccount ?ls 1 = Some (le, acc) \<Longrightarrow> le = ex_account 1 10100000" for le acc
    by (auto simp: loadAccount_def ex_ledger_def ex_account_def)
  have hd: "ls_header ?ls = ex_header" by (simp add: ex_ledger_def)
  have "getAvailableBalance ex_header (ex_account 1 10100000) = Inr 100000" by code_simp
  then show ?thesis using checkValid_accepts [OF v ok len] ok load unfolding src hd by fastforce
qed

section \<open>Fee bumps\<close>

lemma i64_baseFee: "n \<le> 101 \<Longrightarrow> i64 (uint b * max 1 (int n)) = Inr (uint b * max 1 (int n))" for b :: uint32
proof -
  assume "n \<le> 101"
  then have "uint b * max 1 (int n) \<le> 2 ^ 32 * 101"
    using uint_lt2p [of b] by (intro mult_mono) auto
  moreover have "0 \<le> uint b * max 1 (int n)" by simp
  moreover have "0 \<le> x \<Longrightarrow> x \<le> 2 ^ 32 * 101 \<Longrightarrow> i64 x = Inr x" for x by (simp add: i64_def INT64_MAX_def)
  ultimately show ?thesis by blast
qed

lemma sint_large: "2 ^ 63 \<le> w \<Longrightarrow> sint w < 0" for w :: uint64
proof -
  assume "2 ^ 63 \<le> w"
  then have u: "2 ^ 63 \<le> uint w" "uint w < 2 ^ 64" using uint_lt2p [of w] by (simp_all add: word_le_def)
  have "(uint w + 2 ^ 63) mod 2 ^ 64 = (uint w - 2 ^ 63 + 2 ^ 64) mod 2 ^ 64" by (simp add: add.commute)
  also have "\<dots> = (uint w - 2 ^ 63) mod 2 ^ 64" by (rule mod_add_self2)
  also have "\<dots> = uint w - 2 ^ 63" using u by (intro mod_pos_pos_trivial) simp_all
  finally have "sint w = uint w - 2 ^ 63 - 2 ^ 63"
    unfolding sint_uint signed_take_bit_eq_take_bit_shift take_bit_eq_mod by simp
  then show ?thesis using u(2) by simp
qed

text \<open>C22: the check of a fee bump throws if the bid of the inner transaction, which is unsigned in the message, is \<open>2\<^sup>6\<^sup>3\<close> or more
  and the bid of the fee bump is high enough.  It is not rejected with a result code.\<close>

theorem feeBump_negative_inner_fee:
  assumes "protocolVersionStartsFrom (lh_ledgerVersion (ls_header ls)) 13"
    and "getMinFee_feeBump (ls_header ls) env = Inr minFee" "minFee \<le> getFeeBid_feeBump env"
    and "2 ^ 63 \<le> tx_fee (inner_tx env)" "length (tx_operations (inner_tx env)) \<le> MAX_OPS_PER_TX"
  shows "checkValid_feeBump cr ls env current lowerOffset upperOffset = Inl (NumError AssertThrow)"
proof -
  have neg: "getFeeBid_tx (inner_tx env) < 0" using assms(4) unfolding getFeeBid_tx_def by (rule sint_large)
  obtain m where m: "getMinFee_tx (ls_header ls) (inner_tx env) = Inr m"
    using assms(2) by (auto simp: getMinFee_feeBump_def seq_Inr_iff)
  have "commonValidPreSeqNum_feeBump ls env fee = Inl (NumError AssertThrow)" for fee
    using assms(1-3) m neg by (auto simp: commonValidPreSeqNum_feeBump_def Let_def bigMultiply_def)
  then have "commonValid_feeBump cr ls env False fee sc = Inl (NumError AssertThrow)" for fee sc
    by (simp add: commonValid_feeBump_def)
  moreover have "getNumOperations_tx (inner_tx env) \<le> 101" "getNumOperations_feeBump env \<le> 101"
    using assms(5) by (simp_all add: getNumOperations_tx_def getNumOperations_feeBump_def MAX_OPS_PER_TX_def)
  ultimately show ?thesis
    by (simp add: checkValid_feeBump_def Let_def resetResults_tx_def getFee_tx_def getFee_feeBump_def i64_baseFee
        inner_tx_def [symmetric])
qed

theorem feeBump_negative_inner_fee_witness:
  "checkValid_feeBump ex_crypto (ex_ledger 0 0) (ex_feeBump 1000 (ex_payment 1 (2 ^ 63) 11 1000)) 0 0 0 = Inl (NumError AssertThrow)"
proof (rule feeBump_negative_inner_fee)
  let ?env = "ex_feeBump 1000 (ex_payment 1 (2 ^ 63) 11 1000)"
  show "getMinFee_feeBump (ls_header (ex_ledger 0 0)) ?env = Inr 204" by code_simp
qed code_simp+

end
