(* ===== verification/Ledger_Upgrades.thy ===== *)
theory Ledger_Upgrades
  imports Ledger_Types
begin

unbundle bit_operations_syntax

text \<open>
  The upgrades a validator votes for (\<^verbatim>\<open>herder/Upgrades.cpp\<close>).  The XDR codec is generated code: \<open>decode\<close> stands
  for \<^verbatim>\<open>xdr_from_opaque\<close>, where \<^const>\<open>None\<close> is the exception.  A \<^verbatim>\<open>system_time_point\<close> is a number of seconds.
\<close>

section \<open>Definitions\<close>

datatype ledger_upgrade =
    LEDGER_UPGRADE_VERSION uint32
  | LEDGER_UPGRADE_BASE_FEE uint32
  | LEDGER_UPGRADE_MAX_TX_SET_SIZE uint32
  | LEDGER_UPGRADE_BASE_RESERVE uint32
  | LEDGER_UPGRADE_BASE_PERCENTAGE_FEE uint32
  | LEDGER_UPGRADE_MAX_FEE uint64
  | LEDGER_UPGRADE_FLAGS uint32

primrec upgrade_type :: "ledger_upgrade \<Rightarrow> nat" where
  "upgrade_type (LEDGER_UPGRADE_VERSION v) = 1"
| "upgrade_type (LEDGER_UPGRADE_BASE_FEE v) = 2"
| "upgrade_type (LEDGER_UPGRADE_MAX_TX_SET_SIZE v) = 3"
| "upgrade_type (LEDGER_UPGRADE_BASE_RESERVE v) = 4"
| "upgrade_type (LEDGER_UPGRADE_BASE_PERCENTAGE_FEE v) = 5"
| "upgrade_type (LEDGER_UPGRADE_MAX_FEE v) = 6"
| "upgrade_type (LEDGER_UPGRADE_FLAGS v) = 7"

record upgrade_parameters =
  mUpgradeTime :: int
  mProtocolVersion :: "uint32 option"
  mBaseFee :: "uint32 option"
  mMaxTxSetSize :: "uint32 option"
  mBasePercentageFee :: "uint32 option"
  mMaxFee :: "uint64 option"
  mBaseReserve :: "uint32 option"
  mFlags :: "uint32 option"

definition UPDGRADE_EXPIRATION_HOURS :: int where
  "UPDGRADE_EXPIRATION_HOURS = 12 * 3600"

definition MASK_LEDGER_HEADER_FLAGS :: uint32 where
  "MASK_LEDGER_HEADER_FLAGS = 7"

definition from_time_t :: "uint64 \<Rightarrow> int" where
  "from_time_t t = sint t"

definition getFlags :: "ledger_header \<Rightarrow> uint32" where
  "getFlags lh = (case lh_ext lh of Some flags \<Rightarrow> flags | None \<Rightarrow> 0)"

definition setParameters :: "upgrade_parameters \<Rightarrow> uint32 \<Rightarrow> string + upgrade_parameters" where
  "setParameters params maxVersion =
     (case mProtocolVersion params of
        Some v \<Rightarrow> if v > maxVersion then Inl ''Protocol version error'' else Inr params
      | None \<Rightarrow> Inr params)"

definition timeForUpgrade :: "upgrade_parameters \<Rightarrow> uint64 \<Rightarrow> bool" where
  "timeForUpgrade ps time = (mUpgradeTime ps \<le> from_time_t time)"

definition wanted :: "'a option \<Rightarrow> 'a \<Rightarrow> ('a \<Rightarrow> ledger_upgrade) \<Rightarrow> ledger_upgrade list" where
  "wanted param cur mk = (case param of Some v \<Rightarrow> if cur \<noteq> v then [mk v] else [] | None \<Rightarrow> [])"

definition createUpgradesFor :: "upgrade_parameters \<Rightarrow> ledger_header \<Rightarrow> ledger_upgrade list" where
  "createUpgradesFor ps header =
     (if \<not> timeForUpgrade ps (sv_closeTime (lh_scpValue header)) then []
      else wanted (mProtocolVersion ps) (lh_ledgerVersion header) LEDGER_UPGRADE_VERSION @
           wanted (mBaseFee ps) (lh_baseFee header) LEDGER_UPGRADE_BASE_FEE @
           wanted (mMaxTxSetSize ps) (lh_maxTxSetSize header) LEDGER_UPGRADE_MAX_TX_SET_SIZE @
           wanted (mBaseReserve ps) (lh_baseReserve header) LEDGER_UPGRADE_BASE_RESERVE @
           wanted (mFlags ps) (getFlags header) LEDGER_UPGRADE_FLAGS @
           wanted (mBasePercentageFee ps) (lh_basePercentageFee header) LEDGER_UPGRADE_BASE_PERCENTAGE_FEE @
           wanted (mMaxFee ps) (lh_maxFee header) LEDGER_UPGRADE_MAX_FEE @
           wanted (mBasePercentageFee ps) (lh_basePercentageFee header) LEDGER_UPGRADE_BASE_PERCENTAGE_FEE @
           wanted (mMaxFee ps) (lh_maxFee header) LEDGER_UPGRADE_MAX_FEE)"

text \<open>The parameters without the upgrades that were applied; the flag says whether any was removed.\<close>

definition resetParam :: "'a option \<Rightarrow> 'a \<Rightarrow> 'a option" where
  "resetParam p v = (if p = Some v then None else p)"

definition removeUpgrade :: "ledger_upgrade \<Rightarrow> upgrade_parameters \<Rightarrow> upgrade_parameters" where
  "removeUpgrade lu ps =
     (case lu of
        LEDGER_UPGRADE_VERSION v \<Rightarrow> ps\<lparr>mProtocolVersion := resetParam (mProtocolVersion ps) v\<rparr>
      | LEDGER_UPGRADE_BASE_FEE v \<Rightarrow> ps\<lparr>mBaseFee := resetParam (mBaseFee ps) v\<rparr>
      | LEDGER_UPGRADE_MAX_TX_SET_SIZE v \<Rightarrow> ps\<lparr>mMaxTxSetSize := resetParam (mMaxTxSetSize ps) v\<rparr>
      | LEDGER_UPGRADE_BASE_RESERVE v \<Rightarrow> ps\<lparr>mBaseReserve := resetParam (mBaseReserve ps) v\<rparr>
      | LEDGER_UPGRADE_BASE_PERCENTAGE_FEE v \<Rightarrow> ps\<lparr>mBasePercentageFee := resetParam (mBasePercentageFee ps) v\<rparr>
      | LEDGER_UPGRADE_MAX_FEE v \<Rightarrow> ps\<lparr>mMaxFee := resetParam (mMaxFee ps) v\<rparr>
      | LEDGER_UPGRADE_FLAGS v \<Rightarrow> ps\<lparr>mFlags := resetParam (mFlags ps) v\<rparr>)"

definition removeUpgrades ::
  "(opaque \<Rightarrow> ledger_upgrade option) \<Rightarrow> opaque list \<Rightarrow> uint64 \<Rightarrow> upgrade_parameters \<Rightarrow> bool \<times> upgrade_parameters" where
  "removeUpgrades decode updates closeTime ps =
     (if mUpgradeTime ps + UPDGRADE_EXPIRATION_HOURS \<le> from_time_t closeTime
      then let res = \<lparr>mUpgradeTime = mUpgradeTime ps, mProtocolVersion = None, mBaseFee = None, mMaxTxSetSize = None,
                      mBasePercentageFee = None, mMaxFee = None, mBaseReserve = None, mFlags = None\<rparr>
           in (res \<noteq> ps, res)
      else fold (\<lambda>u (updated, res).
                   case decode u of
                     None \<Rightarrow> (updated, res)
                   | Some lu \<Rightarrow> (updated \<or> removeUpgrade lu res \<noteq> res, removeUpgrade lu res))
             updates (False, ps))"

datatype upgrade_validity = VALID_UPGRADE | XDR_INVALID | INVALID_UPGRADE

definition applicable :: "ledger_upgrade \<Rightarrow> ledger_header \<Rightarrow> uint32 \<Rightarrow> bool" where
  "applicable upgrade header maxLedgerVersion =
     (case upgrade of
        LEDGER_UPGRADE_VERSION newVersion \<Rightarrow> newVersion \<le> maxLedgerVersion \<and> newVersion > lh_ledgerVersion header
      | LEDGER_UPGRADE_BASE_FEE v \<Rightarrow> v \<noteq> 0
      | LEDGER_UPGRADE_MAX_TX_SET_SIZE v \<Rightarrow> True
      | LEDGER_UPGRADE_BASE_RESERVE v \<Rightarrow> v \<noteq> 0
      | LEDGER_UPGRADE_BASE_PERCENTAGE_FEE v \<Rightarrow> v \<noteq> 0
      | LEDGER_UPGRADE_MAX_FEE v \<Rightarrow> v \<noteq> 0
      | LEDGER_UPGRADE_FLAGS v \<Rightarrow>
          protocolVersionStartsFrom (lh_ledgerVersion header) 18 \<and> v AND NOT MASK_LEDGER_HEADER_FLAGS = 0)"

definition isValidForApply ::
  "(opaque \<Rightarrow> ledger_upgrade option) \<Rightarrow> opaque \<Rightarrow> ledger_header \<Rightarrow> uint32 \<Rightarrow> upgrade_validity \<times> ledger_upgrade option" where
  "isValidForApply decode opaqueUpgrade header maxLedgerVersion =
     (case decode opaqueUpgrade of
        None \<Rightarrow> (XDR_INVALID, None)
      | Some upgrade \<Rightarrow>
          (if applicable upgrade header maxLedgerVersion then VALID_UPGRADE else INVALID_UPGRADE, Some upgrade))"

definition isValidForNomination :: "upgrade_parameters \<Rightarrow> ledger_upgrade \<Rightarrow> ledger_header \<Rightarrow> bool" where
  "isValidForNomination ps upgrade header =
     (timeForUpgrade ps (sv_closeTime (lh_scpValue header)) \<and>
      (case upgrade of
         LEDGER_UPGRADE_VERSION v \<Rightarrow> mProtocolVersion ps = Some v
       | LEDGER_UPGRADE_BASE_FEE v \<Rightarrow> mBaseFee ps = Some v
       | LEDGER_UPGRADE_MAX_TX_SET_SIZE v \<Rightarrow> mMaxTxSetSize ps = Some v
       | LEDGER_UPGRADE_BASE_RESERVE v \<Rightarrow> mBaseReserve ps = Some v
       | LEDGER_UPGRADE_BASE_PERCENTAGE_FEE v \<Rightarrow> mBasePercentageFee ps = Some v
       | LEDGER_UPGRADE_MAX_FEE v \<Rightarrow> mMaxFee ps = Some v
       | LEDGER_UPGRADE_FLAGS v \<Rightarrow> mFlags ps = Some v))"

text \<open>The upgrade type is only set when the step is valid.\<close>

definition Upgrades_isValid ::
  "(opaque \<Rightarrow> ledger_upgrade option) \<Rightarrow> upgrade_parameters \<Rightarrow> opaque \<Rightarrow> bool \<Rightarrow> uint32 \<Rightarrow> ledger_header \<Rightarrow> nat option" where
  "Upgrades_isValid decode ps upgrade nomination maxVersion header =
     (case isValidForApply decode upgrade header maxVersion of
        (VALID_UPGRADE, Some lupgrade) \<Rightarrow>
          if nomination \<longrightarrow> isValidForNomination ps lupgrade header then Some (upgrade_type lupgrade) else None
      | _ \<Rightarrow> None)"

end
