(* ===== verification/Spec2Isabelle.thy ===== *)
theory Spec2Isabelle
  imports Nomination_Properties Scp_Properties Agreement Offer_Exchange Tx_Set_Surge Tx_Fee_Properties Tx_Fee_Rounding
    Tx_Validity Ledger_Upgrades
begin

text \<open>
  Verification of the consensus core of kinesis-core, a fork of stellar-core.

  \<^bold>\<open>The program.\<close>  A node runs the Stellar Consensus Protocol (SCP) on numbered slots, one per
  ledger.  \<^verbatim>\<open>src/src/scp\<close> is the library that does this: \<^verbatim>\<open>SCP\<close> holds the slots;
  a \<^verbatim>\<open>Slot\<close> has a nomination protocol, which agrees on candidate values, and a ballot protocol,
  which commits to one of them; both rest on the tests on quorum sets of \<^verbatim>\<open>LocalNode\<close> and
  \<^verbatim>\<open>QuorumSetUtils\<close>.  The rest of the program is reached through the class
  \<^verbatim>\<open>SCPDriver\<close>: it validates and combines values, looks up quorum sets by their hash, signs and
  sends envelopes, and is told what the protocol decided.

  \<^bold>\<open>Theories and sources.\<close>

  \<^item> \<^verbatim>\<open>Prelude\<close>: results of fallible code (\<open>seq\<close>, \<open>safe\<close>, \<open>foldSeq\<close>),
    \<^verbatim>\<open>std::set\<close> as strictly sorted lists, \<^verbatim>\<open>std::map\<close> as lists sorted by key.
  \<^item> \<^verbatim>\<open>Numeric\<close>: \<^verbatim>\<open>util/numeric.cpp\<close>, on 64- and 128-bit words.
  \<^item> \<^verbatim>\<open>Scp_Types\<close>: \<^verbatim>\<open>xdr/Stellar-SCP.x\<close>, the members of \<^verbatim>\<open>Slot\<close>, \<^verbatim>\<open>NominationProtocol\<close>
    and \<^verbatim>\<open>BallotProtocol\<close> as one extensible record, \<^verbatim>\<open>SCPDriver.h\<close> as a record of functions
    (the parameters of the model) and a log of the calls that only inform the driver, and the errors.
  \<^item> \<^verbatim>\<open>Quorum_Sets\<close>: \<^verbatim>\<open>scp/QuorumSetUtils.cpp\<close>;  \<^verbatim>\<open>Local_Node\<close>: \<^verbatim>\<open>scp/LocalNode.cpp\<close>.
  \<^item> \<^verbatim>\<open>Ballot_Statements\<close>, \<^verbatim>\<open>Slot_Base\<close>, \<^verbatim>\<open>Ballot_Protocol\<close>: \<^verbatim>\<open>scp/BallotProtocol.cpp\<close> and the parts of
    \<^verbatim>\<open>scp/Slot.cpp\<close> it calls.  Each method is a function on the state that returns the new state or an error.
  \<^item> \<^verbatim>\<open>Nomination\<close>: \<^verbatim>\<open>scp/NominationProtocol.cpp\<close>;  \<^verbatim>\<open>Slots\<close>: the public methods of
    \<^verbatim>\<open>scp/Slot.cpp\<close>;  \<^verbatim>\<open>Scp\<close>: \<^verbatim>\<open>scp/SCP.cpp\<close> and \<^verbatim>\<open>scp/SCPDriver.cpp\<close>.
  \<^item> \<^verbatim>\<open>Ballot_Machine\<close>: the abstract machine of the ballot protocol, its invariant and its
    preorder of progress;  \<^verbatim>\<open>Ballot_Contract\<close>, \<^verbatim>\<open>Ballot_Refinement\<close>: the methods of the ballot
    protocol take steps of that machine only.  The emission of the node's own statement, which calls back
    into the protocol, is an interface (locale \<open>emit_contract\<close>), interpreted on the nested emissions
    of the code.
  \<^item> \<^verbatim>\<open>Nomination_Leaders\<close>, \<^verbatim>\<open>Nomination_Correct\<close>: priorities and leaders, the invariant
    of the nomination protocol and the end of its nested emissions (locale \<open>nom_emitter\<close>).
  \<^item> \<^verbatim>\<open>Slot_Correct\<close>, \<^verbatim>\<open>Slot_Properties\<close>, \<^verbatim>\<open>Nomination_Properties\<close>,
    \<^verbatim>\<open>Scp_Properties\<close>: sequences of calls of a slot and of the library, and the properties.
  \<^item> \<^verbatim>\<open>Federated_Votes\<close>: intact sets of nodes, and an invariant on the ballots that intact nodes
    accepted as prepared or committed and on the statements they made;  \<^verbatim>\<open>Network\<close>,
    \<^verbatim>\<open>Network_Steps\<close>: nodes that take steps of the abstract machine on one slot keep it;
    \<^verbatim>\<open>Agreement\<close>: nodes that run the code on one slot are such a network.
  \<^item> \<^verbatim>\<open>Numeric_Spec\<close>: the helpers of \<^verbatim>\<open>util/numeric.cpp\<close> as rounded integer division;  \<^verbatim>\<open>Offer_Exchange\<close>:
    the price arithmetic of \<^verbatim>\<open>transactions/OfferExchange.cpp\<close>.

  \<^bold>\<open>What is shown.\<close>  The tests on quorum sets mean what the protocol needs (slices, v-blocking sets,
  quorums, weights).  Every call of a slot is a sequence of steps of the abstract machine; from this follow
  the invariant the code asserts, progress that is never undone, one externalized value at most, and that a
  message cannot make the ballot protocol fail except for the listed reasons.  The nodes of an intact set
  never externalize different values for a slot, whatever the others send; a node that restarts and takes its
  state from its own last envelope is outside of this theorem.  Nomination ends and never
  moves to a bad state.  The slots of the library do not interfere, and the quorum report covers every
  node.  The arithmetic helpers compute exact rounded quotients and roots; crossing an offer and trading with a liquidity pool
  stay within all limits, never throw and never favor the wrong side.

  \<^bold>\<open>Bounds.\<close>  Nested emissions of the ballot protocol are unfolded 50 times, the bound
  \<^verbatim>\<open>MAX_ADVANCE_SLOT_RECURSION\<close> at which the code itself throws, and are shown never to run out.  The loop
  over \<^verbatim>\<open>attemptBump\<close> is a function with a termination proof.  Nested nominations and the search for a
  leader take fuel; the properties give the amount that is enough.

  \<^bold>\<open>Not modelled.\<close>  JSON and string output, logging and time stamps; everything outside
  \<^verbatim>\<open>src/src/scp\<close> but \<^verbatim>\<open>util/numeric.cpp\<close> and the arithmetic of \<^verbatim>\<open>transactions/OfferExchange.cpp\<close>.  Hashes, signatures and the driver are parameters.
\<close>

end
